(* ===== verification/Go_Prelude.thy ===== *)
theory Go_Prelude
  imports Main "HOL-Library.Word" "HOL-Library.Multiset"
begin

text \<open>
  The Go run time the program rests on: errors and panics as values, truncating division,
  the \<open>encoding/binary\<close> big-endian accessors, the \<open>io.Reader\<close> and \<open>io.Writer\<close>
  contracts with \<open>io.ReadFull\<close>, \<open>fmt\<close>'s \<open>%d\<close>, and the slice idioms the
  components share (checked indexing and slicing, deletion by swapping with the last
  element). Go's \<open>int\<close> is modelled as \<open>int\<close>; conversions to fixed widths are
  explicit. Lemma collections: \<open>go_simps\<close> for the closed forms of the run time.
\<close>

unbundle bit_operations_syntax

named_theorems go_simps

type_synonym byte = "8 word"

section \<open>Errors, panics, results\<close>

text \<open>
  A Go function that fails returns an \<open>error\<close> value; a run time panic ends the program.
  Both are the left summand of a result. \<open>Errorf\<close> stands for an error made by
  \<open>fmt.Errorf\<close>, named by the start of its text: none of them wraps its cause, so
  \<open>errors.Is\<close> never sees \<open>io.EOF\<close> behind one.
\<close>

datatype panic = IndexOutOfRange | SliceBounds | NilDereference | DivideByZero | MakeSlice | Explicit string

datatype go_error = Panic panic | EOF | UnexpectedEOF | IOError | ErrNotExist | Errorf string

type_synonym 'a result = "go_error + 'a"

fun is_panic :: "go_error \<Rightarrow> bool" where
  "is_panic (Panic p) = True"
| "is_panic e = False"

text \<open>\<open>fmt.Errorf\<close> around an error that was returned; a panic is not returned.\<close>

definition rewrap :: "string \<Rightarrow> go_error \<Rightarrow> go_error" where
  "rewrap s e = (if is_panic e then e else Errorf s)"

definition bind_result :: "'a result \<Rightarrow> ('a \<Rightarrow> 'b result) \<Rightarrow> 'b result" where
  "bind_result m f = (case m of Inl e \<Rightarrow> Inl e | Inr x \<Rightarrow> f x)"

lemma bind_result_simps [simp]:
  "bind_result (Inl e) f = Inl e"
  "bind_result (Inr x) f = f x"
  by (simp_all add: bind_result_def)

lemma bind_result_Inr_iff:
  "bind_result m f = Inr y \<longleftrightarrow> (\<exists>x. m = Inr x \<and> f x = Inr y)"
  by (cases m) simp_all

lemma bind_result_InrE [elim!]:
  assumes "bind_result m f = Inr y"
  obtains x where "m = Inr x" and "f x = Inr y"
  using assms by (auto simp: bind_result_Inr_iff)

section \<open>Integers\<close>

text \<open>Go's \<open>/\<close> and \<open>%\<close> on \<open>int\<close> truncate towards zero.\<close>

definition go_div :: "int \<Rightarrow> int \<Rightarrow> int" where
  "go_div a b = sgn a * sgn b * (\<bar>a\<bar> div \<bar>b\<bar>)"

definition go_mod :: "int \<Rightarrow> int \<Rightarrow> int" where
  "go_mod a b = a - b * go_div a b"

lemma go_div_nonneg [simp]: "0 \<le> a \<Longrightarrow> 0 \<le> b \<Longrightarrow> go_div a b = a div b"
  by (cases "a = 0"; cases "b = 0") (simp_all add: go_div_def)

lemma go_mod_nonneg [simp]: "0 \<le> a \<Longrightarrow> 0 \<le> b \<Longrightarrow> go_mod a b = a mod b"
  by (simp add: go_mod_def minus_mult_div_eq_mod)

text \<open>\<open>uint32(x)\<close> of an \<open>int\<close> keeps the low 32 bits.\<close>

definition uint32_of :: "int \<Rightarrow> 32 word" where
  "uint32_of x = word_of_int x"

lemma uint_uint32_of [simp]: "0 \<le> x \<Longrightarrow> x < 2 ^ 32 \<Longrightarrow> uint (uint32_of x) = x"
  by (simp add: uint32_of_def uint_word_of_int)

text \<open>A two's complement 64-bit \<open>int\<close>: sums and products wrap around.\<close>

definition wrap64 :: "int \<Rightarrow> int" where
  "wrap64 x = sint (word_of_int x :: 64 word)"

lemma wrap64_id [simp]: "- (2 ^ 63) \<le> x \<Longrightarrow> x < 2 ^ 63 \<Longrightarrow> wrap64 x = x"
  by (simp add: wrap64_def sint_sbintrunc' signed_take_bit_int_eq_self)

section \<open>Slices\<close>

text \<open>Indexing and slicing, with the panic Go raises out of range.\<close>

definition go_index :: "'a list \<Rightarrow> int \<Rightarrow> 'a result" where
  "go_index xs i = (if 0 \<le> i \<and> i < int (length xs) then Inr (xs ! nat i)
     else Inl (Panic IndexOutOfRange))"

definition go_slice :: "'a list \<Rightarrow> int \<Rightarrow> int \<Rightarrow> 'a list result" where
  "go_slice xs lo hi = (if 0 \<le> lo \<and> lo \<le> hi \<and> hi \<le> int (length xs)
     then Inr (take (nat (hi - lo)) (drop (nat lo) xs)) else Inl (Panic SliceBounds))"

definition go_make :: "int \<Rightarrow> 'a \<Rightarrow> 'a list result" where
  "go_make n z = (if n < 0 then Inl (Panic MakeSlice) else Inr (replicate (nat n) z))"

lemma go_index_Inr [simp]: "0 \<le> i \<Longrightarrow> i < int (length xs) \<Longrightarrow> go_index xs i = Inr (xs ! nat i)"
  by (simp add: go_index_def)

lemma go_index_Inr_iff:
  "go_index xs i = Inr x \<longleftrightarrow> 0 \<le> i \<and> i < int (length xs) \<and> x = xs ! nat i"
  by (auto simp: go_index_def)

lemma go_slice_Inr_iff:
  "go_slice xs lo hi = Inr ys \<longleftrightarrow> 0 \<le> lo \<and> lo \<le> hi \<and> hi \<le> int (length xs)
     \<and> ys = take (nat (hi - lo)) (drop (nat lo) xs)"
  by (auto simp: go_slice_def)

lemma go_make_Inr [simp]: "0 \<le> n \<Longrightarrow> go_make n z = Inr (replicate (nat n) z)"
  by (simp add: go_make_def)

text \<open>
  \<open>copy(dst[at:], src)\<close>: overwrites from position \<open>at\<close>, never past the end.
\<close>

definition go_copy_at :: "'a list \<Rightarrow> nat \<Rightarrow> 'a list \<Rightarrow> 'a list" where
  "go_copy_at dst at src =
     take at dst @ take (length dst - at) src @ drop (at + length src) dst"

lemma length_go_copy_at [simp]: "length (go_copy_at dst at src) = length dst"
  by (auto simp: go_copy_at_def min_def)

lemma nth_go_copy_at:
  assumes "i < length dst" and "at \<le> length dst"
  shows "go_copy_at dst at src ! i
    = (if at \<le> i \<and> i < at + length src then src ! (i - at) else dst ! i)"
proof (cases "i < at")
  case True
  with assms show ?thesis by (simp add: go_copy_at_def nth_append)
next
  case False
  then have "at \<le> i" by simp
  with assms show ?thesis
    by (cases "i < at + length src") (auto simp: go_copy_at_def nth_append min_def)
qed

text \<open>
  The deletion idiom \<open>xs[i] = xs[len(xs)-1]; xs = xs[:len(xs)-1]\<close>: constant time, but the
  last element takes the place of the deleted one.
\<close>

definition swap_delete :: "nat \<Rightarrow> 'a list \<Rightarrow> 'a list" where
  "swap_delete i xs = butlast (xs[i := last xs])"

lemma length_swap_delete [simp]: "length (swap_delete i xs) = length xs - 1"
  by (simp add: swap_delete_def)

lemma mset_swap_delete:
  assumes "i < length xs"
  shows "mset (swap_delete i xs) = mset xs - {#xs ! i#}"
proof -
  from assms have ne: "xs \<noteq> []" by auto
  let ?ys = "xs[i := last xs]"
  have lst: "last ?ys = last xs"
    using assms ne by (simp add: last_conv_nth nth_list_update)
  have "?ys = butlast ?ys @ [last xs]"
    using ne lst by (metis append_butlast_last_id list_update_nonempty)
  then have "mset ?ys = add_mset (last xs) (mset (swap_delete i xs))"
    by (metis swap_delete_def mset_append mset.simps add_mset_add_single union_commute)
  moreover have "mset ?ys = add_mset (last xs) (mset xs - {#xs ! i#})"
    using assms by (simp add: mset_update)
  ultimately show ?thesis by simp
qed

lemma mset_swap_delete_add:
  "i < length xs \<Longrightarrow> add_mset (xs ! i) (mset (swap_delete i xs)) = mset xs"
  by (simp add: mset_swap_delete)

lemma set_swap_delete_subset: "i < length xs \<Longrightarrow> set (swap_delete i xs) \<subseteq> set xs"
  by (metis mset_swap_delete set_mset_mset in_diffD subsetI)

lemma sum_list_swap_delete:
  fixes f :: "'a \<Rightarrow> int"
  assumes "i < length xs"
  shows "sum_list (map f xs) = f (xs ! i) + sum_list (map f (swap_delete i xs))"
proof -
  have "sum_list (map f xs) = sum_mset (image_mset f (mset xs))"
    by (simp flip: sum_mset_sum_list)
  also have "\<dots> = f (xs ! i) + sum_mset (image_mset f (mset (swap_delete i xs)))"
    using mset_swap_delete_add [OF assms] by (metis image_mset_add_mset sum_mset.add_mset)
  also have "sum_mset (image_mset f (mset (swap_delete i xs))) = sum_list (map f (swap_delete i xs))"
    by (simp flip: sum_mset_sum_list)
  finally show ?thesis .
qed

lemma distinct_map_swap_delete:
  assumes "i < length xs" and "distinct (map f xs)"
  shows "distinct (map f (swap_delete i xs))" and "f (xs ! i) \<notin> f ` set (swap_delete i xs)"
proof -
  have "mset (map f (xs ! i # swap_delete i xs)) = mset (map f xs)"
    using mset_swap_delete_add [OF assms(1)] by (metis image_mset_add_mset mset.simps(2) mset_map)
  then have "distinct (map f (xs ! i # swap_delete i xs))"
    using assms(2) by (metis mset_eq_imp_distinct_iff)
  then show "distinct (map f (swap_delete i xs))" and "f (xs ! i) \<notin> f ` set (swap_delete i xs)"
    by auto
qed

lemma set_swap_delete:
  assumes "i < length xs" and "distinct xs"
  shows "set (swap_delete i xs) = set xs - {xs ! i}"
proof -
  have "mset (swap_delete i xs) = mset xs - {#xs ! i#}" using assms(1) by (rule mset_swap_delete)
  then have "set (swap_delete i xs) = set_mset (mset xs - {#xs ! i#})" by (metis set_mset_mset)
  also have "\<dots> = set xs - {xs ! i}"
    using assms by (simp add: set_mset_def distinct_count_atmost_1 set_eq_iff)
  finally show ?thesis .
qed

text \<open>The first position whose element satisfies a test: Go's search loops.\<close>

fun find_index :: "('a \<Rightarrow> bool) \<Rightarrow> 'a list \<Rightarrow> nat option" where
  "find_index p [] = None"
| "find_index p (x # xs) = (if p x then Some 0 else map_option Suc (find_index p xs))"

lemma find_index_Some:
  "find_index p xs = Some i \<Longrightarrow> i < length xs \<and> p (xs ! i) \<and> (\<forall>j < i. \<not> p (xs ! j))"
proof (induction xs arbitrary: i)
  case Nil
  then show ?case by simp
next
  case (Cons x xs)
  then show ?case
    by (cases "p x") (auto simp: less_Suc_eq_0_disj)
qed

lemma find_index_None: "find_index p xs = None \<longleftrightarrow> (\<forall>x \<in> set xs. \<not> p x)"
  by (induction xs) auto

end
