(* ===== verification/Go_IO.thy ===== *)
theory Go_IO
  imports Go_Prelude
begin

text \<open>
  The parts of Go's standard library that carry bytes: \<open>encoding/binary\<close>'s big-endian
  accessors, decimal formatting, readers with an arbitrary segmentation of their data into
  \<open>Read\<close> calls, \<open>io.ReadFull\<close> and \<open>io.ReadAll\<close>, writers whose calls may
  fail part way, and bounded channels as queues. The central lemmas say that
  \<open>io.ReadFull\<close> depends on the bytes and not on how they are segmented, and that a
  fixed-width big-endian integer survives being written and read back.
\<close>

unbundle bit_operations_syntax

section \<open>Big-endian integers\<close>

definition be_put32 :: "32 word \<Rightarrow> byte list" where
  "be_put32 v = [ucast (drop_bit 24 v), ucast (drop_bit 16 v), ucast (drop_bit 8 v), ucast v]"

definition be_get32 :: "byte list \<Rightarrow> 32 word result" where
  "be_get32 bs = (case bs of
     b0 # b1 # b2 # b3 # _ \<Rightarrow>
       Inr (ucast b3 OR push_bit 8 (ucast b2) OR push_bit 16 (ucast b1) OR push_bit 24 (ucast b0))
   | _ \<Rightarrow> Inl (Panic IndexOutOfRange))"

definition be_get16 :: "byte list \<Rightarrow> 16 word result" where
  "be_get16 bs = (case bs of
     b0 # b1 # _ \<Rightarrow> Inr (ucast b1 OR push_bit 8 (ucast b0))
   | _ \<Rightarrow> Inl (Panic IndexOutOfRange))"

definition be_put16 :: "16 word \<Rightarrow> byte list" where
  "be_put16 v = [ucast (drop_bit 8 v), ucast v]"

lemma length_be_put32 [simp]: "length (be_put32 v) = 4"
  by (simp add: be_put32_def)

lemma length_be_put16 [simp]: "length (be_put16 v) = 2"
  by (simp add: be_put16_def)

lemma be_put32_not_Nil [simp]: "be_put32 v \<noteq> []"
  by (simp add: be_put32_def)

lemma be_bytes32:
  "ucast (ucast v :: byte) OR push_bit 8 (ucast (ucast (drop_bit 8 v) :: byte))
     OR push_bit 16 (ucast (ucast (drop_bit 16 v) :: byte))
     OR push_bit 24 (ucast (ucast (drop_bit 24 v) :: byte)) = (v :: 32 word)"
proof (rule bit_word_eqI)
  fix n
  assume "n < LENGTH(32)"
  then have "n < 8 \<or> (8 \<le> n \<and> n < 16) \<or> (16 \<le> n \<and> n < 24) \<or> (24 \<le> n \<and> n < 32)"
    by auto
  then show "bit (ucast (ucast v :: byte) OR push_bit 8 (ucast (ucast (drop_bit 8 v) :: byte))
     OR push_bit 16 (ucast (ucast (drop_bit 16 v) :: byte))
     OR push_bit 24 (ucast (ucast (drop_bit 24 v) :: byte)) :: 32 word) n = bit v n"
    by (elim disjE) (auto simp: bit_simps)
qed

lemma be_bytes16:
  "ucast (ucast v :: byte) OR push_bit 8 (ucast (ucast (drop_bit 8 v) :: byte)) = (v :: 16 word)"
  by (rule bit_word_eqI) (auto simp: bit_simps)

lemma be_get32_put32 [simp]: "be_get32 (be_put32 v @ rest) = Inr v"
  by (simp add: be_get32_def be_put32_def be_bytes32)

lemma be_get32_put32' [simp]: "be_get32 (be_put32 v) = Inr v"
  using be_get32_put32 [of v "[]"] by simp

lemma be_get16_put16 [simp]: "be_get16 (be_put16 v @ rest) = Inr v"
  by (simp add: be_get16_def be_put16_def be_bytes16)

lemma be_get16_put16' [simp]: "be_get16 (be_put16 v) = Inr v"
  using be_get16_put16 [of v "[]"] by simp

lemma be_get32_short: "length bs < 4 \<Longrightarrow> be_get32 bs = Inl (Panic IndexOutOfRange)"
  by (auto simp: be_get32_def split: list.splits)

lemma be_get32_Inr: "4 \<le> length bs \<Longrightarrow> \<exists>v. be_get32 bs = Inr v"
  by (auto simp: be_get32_def split: list.splits)

text \<open>Reading is the inverse of writing on four bytes, so the two are a bijection.\<close>

lemma be_put32_get32:
  assumes "be_get32 bs = Inr v"
  shows "be_put32 v = take 4 bs"
proof -
  obtain b0 b1 b2 b3 r where bs: "bs = b0 # b1 # b2 # b3 # r"
    using assms by (auto simp: be_get32_def split: list.splits)
  have v: "v = ucast b3 OR push_bit 8 (ucast b2) OR push_bit 16 (ucast b1) OR push_bit 24 (ucast b0)"
    using assms by (simp add: bs be_get32_def)
  have "ucast v = b3" "ucast (drop_bit 8 v) = b2" "ucast (drop_bit 16 v) = b1"
    "ucast (drop_bit 24 v) = b0"
    unfolding v by (rule bit_word_eqI; auto simp: bit_simps dest: bit_imp_le_length)+
  then show ?thesis by (simp add: be_put32_def bs)
qed

section \<open>Decimal numbers\<close>

definition digit_char :: "nat \<Rightarrow> char" where
  "digit_char d = char_of (48 + d)"

fun dec_nat :: "nat \<Rightarrow> string" where
  "dec_nat n = (if n < 10 then [digit_char n] else dec_nat (n div 10) @ [digit_char (n mod 10)])"

declare dec_nat.simps [simp del]

text \<open>\<open>strconv.Itoa\<close> and the \<open>%d\<close> of \<open>fmt.Sprintf\<close>.\<close>

definition itoa :: "int \<Rightarrow> string" where
  "itoa i = (if i < 0 then CHR ''-'' # dec_nat (nat (- i)) else dec_nat (nat i))"

definition undec :: "string \<Rightarrow> nat" where
  "undec s = foldl (\<lambda>a c. 10 * a + (of_char c - 48)) 0 s"

lemma of_char_digit: "d < 10 \<Longrightarrow> of_char (digit_char d) = 48 + d"
  by (simp add: digit_char_def)

lemma undec_dec_nat [simp]: "undec (dec_nat n) = n"
proof (induction n rule: dec_nat.induct)
  case (1 n)
  then show ?case
    by (cases "n < 10") (simp_all add: dec_nat.simps [of n] undec_def of_char_digit)
qed

lemma dec_nat_digits: "set (dec_nat n) \<subseteq> digit_char ` {0..<10}"
proof (induction n rule: dec_nat.induct)
  case (1 n)
  then show ?case
    by (cases "n < 10") (auto simp: dec_nat.simps [of n])
qed

lemma dec_nat_inj [simp]: "dec_nat m = dec_nat n \<longleftrightarrow> m = n"
  by (metis undec_dec_nat)

lemma dash_not_digit: "d < 10 \<Longrightarrow> digit_char d \<noteq> CHR ''-''"
proof
  assume "d < 10" "digit_char d = CHR ''-''"
  then have "(of_char (CHR ''-'') :: nat) = 48 + d"
    using of_char_digit [of d] by simp
  then show False by simp
qed

lemma itoa_inj [simp]: "itoa i = itoa j \<longleftrightarrow> i = j"
proof
  have dash: "CHR ''-'' \<notin> set (dec_nat n)" for n
    using dec_nat_digits [of n] by (auto dest!: subsetD dash_not_digit)
  assume "itoa i = itoa j"
  then show "i = j"
    using dash [of "nat i"] dash [of "nat j"]
    by (auto simp: itoa_def split: if_splits; metis dash list.set_intros(1))
qed simp

section \<open>Readers\<close>

text \<open>
  An \<open>io.Reader\<close> over a connection or a file: the bytes still to come, the error once
  they are exhausted (\<open>EOF\<close> for a file or a connection closed in order, anything else for
  a broken one), and how the data is segmented: each \<open>Read\<close> returns at least one byte and
  at most as many as the next entry of \<open>rd_chunks\<close> says (no entry: as many as asked for).
  A request for no bytes returns none, as sockets and files do.
\<close>

record reader =
  rd_data :: "byte list"
  rd_end :: go_error
  rd_chunks :: "nat list"

definition rd_read :: "nat \<Rightarrow> reader \<Rightarrow> byte list result \<times> reader" where
  "rd_read n r =
     (if n = 0 then (Inr [], r)
      else if rd_data r = [] then (Inl (rd_end r), r)
      else let k = min n (case rd_chunks r of [] \<Rightarrow> n | c # _ \<Rightarrow> max 1 c)
        in (Inr (take k (rd_data r)),
            r\<lparr>rd_data := drop k (rd_data r), rd_chunks := tl (rd_chunks r)\<rparr>))"

lemma rd_read_cases:
  assumes "0 < n"
  obtains (exhausted) "rd_data r = []" and "rd_read n r = (Inl (rd_end r), r)"
  | (some) k where "0 < k" and "k \<le> n" and "rd_data r \<noteq> []"
      and "rd_read n r = (Inr (take k (rd_data r)),
            r\<lparr>rd_data := drop k (rd_data r), rd_chunks := tl (rd_chunks r)\<rparr>)"
proof (cases "rd_data r = []")
  case True
  with assms show ?thesis by (intro exhausted) (simp_all add: rd_read_def)
next
  case False
  let ?k = "min n (case rd_chunks r of [] \<Rightarrow> n | c # _ \<Rightarrow> max 1 c)"
  have "0 < ?k" and "?k \<le> n" using assms by (auto split: list.splits)
  with False assms show ?thesis
    by (intro some [of ?k]) (simp_all add: rd_read_def Let_def)
qed

lemma rd_read_progress: "(Inr bs, r') = rd_read n r \<Longrightarrow> 0 < n \<Longrightarrow> n - length bs < n"
  by (rule rd_read_cases [of n r]) auto

text \<open>
  \<open>io.ReadFull\<close>: calls \<open>Read\<close> until the buffer is full or it fails; an \<open>EOF\<close>
  after some bytes is \<open>ErrUnexpectedEOF\<close>.
\<close>

function read_full_loop :: "nat \<Rightarrow> byte list \<Rightarrow> reader \<Rightarrow> byte list result \<times> reader" where
  "read_full_loop n acc r =
     (if n = 0 then (Inr acc, r)
      else case rd_read n r of
        (Inl e, r') \<Rightarrow> (Inl (if acc \<noteq> [] \<and> e = EOF then UnexpectedEOF else e), r')
      | (Inr bs, r') \<Rightarrow> read_full_loop (n - length bs) (acc @ bs) r')"
  by pat_completeness auto
termination
  by (relation "measure (\<lambda>(n, acc, r). n)") (auto intro: rd_read_progress)

declare read_full_loop.simps [simp del]

definition read_full :: "nat \<Rightarrow> reader \<Rightarrow> byte list result \<times> reader" where
  "read_full n r = read_full_loop n [] r"

text \<open>Whatever the segmentation, the loop returns the next \<open>n\<close> bytes if there are as many.\<close>

lemma read_full_loop_spec:
  "fst (read_full_loop n acc r) =
     (if n \<le> length (rd_data r) then Inr (acc @ take n (rd_data r))
      else Inl (if acc @ rd_data r \<noteq> [] \<and> rd_end r = EOF then UnexpectedEOF else rd_end r))
   \<and> rd_data (snd (read_full_loop n acc r)) = drop n (rd_data r)
   \<and> rd_end (snd (read_full_loop n acc r)) = rd_end r"
proof (induction n acc r rule: read_full_loop.induct)
  case (1 n acc r)
  show ?case
  proof (cases "n = 0")
    case True
    then show ?thesis by (simp add: read_full_loop.simps [of 0 acc r])
  next
    case False
    then have "0 < n" by simp
    then show ?thesis
    proof (cases rule: rd_read_cases [of n r])
      case exhausted
      with False show ?thesis by (simp add: read_full_loop.simps [of n acc r])
    next
      case (some k)
      let ?r = "r\<lparr>rd_data := drop k (rd_data r), rd_chunks := tl (rd_chunks r)\<rparr>"
      let ?bs = "take k (rd_data r)"
      have step: "read_full_loop n acc r = read_full_loop (n - length ?bs) (acc @ ?bs) ?r"
        using False some(4) by (simp add: read_full_loop.simps [of n acc r])
      have bs: "?bs \<noteq> []" using some(1,3) by simp
      note IH = "1" [OF False some(4) [symmetric] refl]
      have tk: "take k (rd_data r) @ take (n - k) (drop k (rd_data r)) = take n (rd_data r)"
        using some(2) by (metis le_add_diff_inverse take_add)
      show ?thesis
        unfolding step using IH some(2,3) bs tk
        by (cases "k \<le> length (rd_data r)") (auto simp: min_def)
    qed
  qed
qed

lemma fst_read_full [go_simps]:
  "fst (read_full n r) =
     (if n \<le> length (rd_data r) then Inr (take n (rd_data r))
      else Inl (if rd_data r \<noteq> [] \<and> rd_end r = EOF then UnexpectedEOF else rd_end r))"
  using read_full_loop_spec [of n "[]" r] by (simp add: read_full_def)

lemma rd_data_read_full [simp]: "rd_data (snd (read_full n r)) = drop n (rd_data r)"
  using read_full_loop_spec [of n "[]" r] by (simp add: read_full_def)

lemma rd_end_read_full [simp]: "rd_end (snd (read_full n r)) = rd_end r"
  using read_full_loop_spec [of n "[]" r] by (simp add: read_full_def)

lemma rd_chunks_read_full_loop: "rd_chunks r = [] \<Longrightarrow> rd_chunks (snd (read_full_loop n acc r)) = []"
proof (induction n acc r rule: read_full_loop.induct)
  case (1 n acc r)
  show ?case
  proof (cases "rd_read n r")
    case (Pair x r')
    have "rd_chunks r' = []"
      using "1.prems" Pair by (auto simp: rd_read_def Let_def split: if_splits)
    with 1 Pair show ?thesis
      by (cases x) (simp_all add: read_full_loop.simps [of n acc r])
  qed
qed

lemma rd_chunks_read_full [simp]: "rd_chunks r = [] \<Longrightarrow> rd_chunks (snd (read_full n r)) = []"
  by (simp add: read_full_def rd_chunks_read_full_loop)

text \<open>The two outcomes of \<open>io.ReadFull\<close>, for case analysis.\<close>

lemma read_full_cases:
  obtains (full) r' where "n \<le> length (rd_data r)" and "read_full n r = (Inr (take n (rd_data r)), r')"
      and "rd_data r' = drop n (rd_data r)" and "rd_end r' = rd_end r"
      and "rd_chunks r = [] \<longrightarrow> rd_chunks r' = []"
  | (short) r' where "length (rd_data r) < n"
      and "read_full n r = (Inl (if rd_data r \<noteq> [] \<and> rd_end r = EOF then UnexpectedEOF else rd_end r), r')"
      and "rd_data r' = []" and "rd_end r' = rd_end r"
proof (cases "n \<le> length (rd_data r)")
  case True
  then show ?thesis
    using full [of "snd (read_full n r)"] fst_read_full [of n r] by (simp add: prod_eq_iff)
next
  case False
  then show ?thesis
    using short [of "snd (read_full n r)"] fst_read_full [of n r] by (simp add: prod_eq_iff)
qed

lemma read_full_append:
  assumes "rd_data r = xs @ rest" and "length xs = n"
  obtains r' where "read_full n r = (Inr xs, r')" and "rd_data r' = rest" and "rd_end r' = rd_end r"
    and "rd_chunks r = [] \<longrightarrow> rd_chunks r' = []"
  using assms by (cases rule: read_full_cases [of n r]) auto

text \<open>\<open>io.ReadAll\<close>: everything up to \<open>EOF\<close>, which is not an error here.\<close>

definition read_all :: "reader \<Rightarrow> byte list result \<times> reader" where
  "read_all r = ((if rd_end r = EOF then Inr (rd_data r) else Inl (rd_end r)), r\<lparr>rd_data := []\<rparr>)"

section \<open>Writers\<close>

text \<open>
  An \<open>io.Writer\<close>: the bytes written, and what happens to the coming calls (\<open>None\<close>:
  the call succeeds; \<open>Some k\<close>: it fails after at most \<open>k\<close> bytes; no entry: it succeeds).
\<close>

record wstream =
  w_out :: "byte list"
  w_script :: "nat option list"

definition w_write :: "byte list \<Rightarrow> wstream \<Rightarrow> go_error option \<times> wstream" where
  "w_write bs w = (case w_script w of
     [] \<Rightarrow> (None, w\<lparr>w_out := w_out w @ bs\<rparr>)
   | None # s \<Rightarrow> (None, w\<lparr>w_out := w_out w @ bs, w_script := s\<rparr>)
   | Some k # s \<Rightarrow> (Some IOError, w\<lparr>w_out := w_out w @ take k bs, w_script := s\<rparr>))"

abbreviation w_reliable :: "wstream \<Rightarrow> bool" where
  "w_reliable w \<equiv> w_script w = []"

lemma w_write_reliable [simp]:
  "w_reliable w \<Longrightarrow> w_write bs w = (None, w\<lparr>w_out := w_out w @ bs\<rparr>)"
  by (simp add: w_write_def)

lemma w_write_None: "w_write bs w = (None, w') \<Longrightarrow> w_out w' = w_out w @ bs"
  by (auto simp: w_write_def split: list.splits option.splits)

lemma w_write_error: "w_write bs w = (Some e, w') \<Longrightarrow> e = IOError"
  by (auto simp: w_write_def split: list.splits option.splits)

section \<open>Channels\<close>

text \<open>
  A buffered channel of Go as the queue of the values sent and not yet received. A send to
  a full channel blocks; the model lets the queue grow and the components show that it stays
  within the capacity the code gives it.
\<close>

definition ch_send :: "'a \<Rightarrow> 'a list \<Rightarrow> 'a list" where
  "ch_send x q = q @ [x]"

definition ch_try_recv :: "'a list \<Rightarrow> ('a \<times> 'a list) option" where
  "ch_try_recv q = (case q of [] \<Rightarrow> None | x # xs \<Rightarrow> Some (x, xs))"

text \<open>What the clients of a channel rely on: nothing is lost, duplicated or reordered.\<close>

locale channel =
  fixes send :: "'a \<Rightarrow> 'q \<Rightarrow> 'q"
    and try_recv :: "'q \<Rightarrow> ('a \<times> 'q) option"
    and contents :: "'q \<Rightarrow> 'a list"
  assumes contents_send: "contents (send x q) = contents q @ [x]"
    and try_recv_None: "try_recv q = None \<longleftrightarrow> contents q = []"
    and try_recv_Some: "try_recv q = Some (x, q') \<Longrightarrow> contents q = x # contents q'"
begin

lemma mset_send: "mset (contents (send x q)) = add_mset x (mset (contents q))"
  by (simp add: contents_send)

lemma mset_recv: "try_recv q = Some (x, q') \<Longrightarrow> mset (contents q) = add_mset x (mset (contents q'))"
  by (simp add: try_recv_Some)

text \<open>Taking a value and putting it back keeps what the channel holds (it moves to the back).\<close>

lemma mset_recv_send: "try_recv q = Some (x, q') \<Longrightarrow> mset (contents (send x q')) = mset (contents q)"
  by (simp add: mset_send mset_recv)

lemma recv_send_rotates: "try_recv q = Some (x, q') \<Longrightarrow> contents (send x q') = rotate1 (contents q)"
  by (simp add: contents_send try_recv_Some)

end

interpretation chan: channel ch_send ch_try_recv "\<lambda>q. q"
  by unfold_locales (auto simp: ch_send_def ch_try_recv_def split: list.splits)

section \<open>Framed streams\<close>

text \<open>
  What a reader of framed data relies on: a frame is recovered from the bytes its encoder
  writes, whatever follows, and the end of the stream at a frame boundary is \<open>EOF\<close>.
  \<open>good\<close> restricts the readers a decoder is meant for.
\<close>

locale frame_codec =
  fixes enc :: "'a \<Rightarrow> byte list"
    and dec :: "reader \<Rightarrow> 'a result \<times> reader"
    and ok :: "'a \<Rightarrow> bool"
    and good :: "reader \<Rightarrow> bool"
  assumes dec_enc: "ok x \<Longrightarrow> good r \<Longrightarrow> rd_data r = enc x @ rest \<Longrightarrow>
      \<exists>r'. dec r = (Inr x, r') \<and> rd_data r' = rest \<and> rd_end r' = rd_end r \<and> good r'"
    and dec_eof: "good r \<Longrightarrow> rd_data r = [] \<Longrightarrow> rd_end r = EOF \<Longrightarrow> fst (dec r) = Inl EOF"
begin

lemma enc_prefix_free:
  assumes "ok x" and "ok y" and "enc x @ s = enc y @ t" and "good r" and "rd_data r = enc x @ s"
  shows "x = y \<and> s = t"
  using dec_enc [OF assms(1,4,5)] dec_enc [OF assms(2,4), of t] assms(3,5) by auto

end

text \<open>A loop that decodes frames until the decoder fails, and what it makes of a stream.\<close>

locale frame_stream = frame_codec +
  fixes loop :: "reader \<Rightarrow> 'a list \<times> go_error"
  assumes loop_unfold: "loop r = (case dec r of
      (Inl e, r') \<Rightarrow> ([], e)
    | (Inr x, r') \<Rightarrow> (x # fst (loop r'), snd (loop r')))"
begin

lemma loop_frames:
  assumes "\<forall>x \<in> set xs. ok x" and "good r" and "rd_data r = concat (map enc xs)"
    and "rd_end r = EOF"
  shows "loop r = (xs, EOF)"
  using assms
proof (induction xs arbitrary: r)
  case Nil
  then have "fst (dec r) = Inl EOF" by (simp add: dec_eof)
  then show ?case by (subst loop_unfold) (auto split: prod.split)
next
  case (Cons x xs)
  then obtain r' where r': "dec r = (Inr x, r')" "rd_data r' = concat (map enc xs)"
      "rd_end r' = EOF" "good r'"
    using dec_enc [of x r "concat (map enc xs)"] by auto
  then have "loop r' = (xs, EOF)" using Cons by simp
  with r'(1) show ?case by (subst loop_unfold) simp
qed

text \<open>Frames before a broken tail are still delivered, in order.\<close>

lemma loop_frames_append:
  assumes "\<forall>x \<in> set xs. ok x" and "good r" and "rd_data r = concat (map enc xs) @ rest"
  shows "\<exists>r'. rd_data r' = rest \<and> rd_end r' = rd_end r \<and> good r'
    \<and> loop r = (xs @ fst (loop r'), snd (loop r'))"
  using assms
proof (induction xs arbitrary: r)
  case Nil
  then show ?case by auto
next
  case (Cons x xs)
  then obtain r' where r': "dec r = (Inr x, r')" "rd_data r' = concat (map enc xs) @ rest"
      "rd_end r' = rd_end r" "good r'"
    using dec_enc [of x r "concat (map enc xs) @ rest"] by auto
  have "loop r = (x # fst (loop r'), snd (loop r'))"
    using r'(1) by (subst loop_unfold) simp
  with Cons.IH [of r'] Cons.prems(1) r' show ?case by fastforce
qed

end

end
