(* ===== verification/Bitfield.thy ===== *)
theory Bitfield
  imports Go_Prelude
begin

text \<open>
  \<open>bitfield/bitfield.go\<close>: one bit per piece, most significant bit first. The record is the
  struct; \<open>bf_New\<close>, \<open>bf_NewFull\<close>, \<open>bf_FromBytes\<close>, \<open>bf_Copy\<close>,
  \<open>bf_Bytes\<close>, \<open>bf_Get\<close> and \<open>bf_Set\<close> are its functions. The abstraction
  \<open>bf_members\<close> is the set of indices whose bit is set; the locale \<open>index_set\<close> states
  what the other components rely on and \<open>bf\<close> interprets it on these definitions.
\<close>

unbundle bit_operations_syntax

record bitfield =
  bf_Length :: int
  bf_data :: "byte list"

definition bf_New :: "int \<Rightarrow> bitfield result" where
  "bf_New n = bind_result (go_make (go_div n 8 + 1) 0)
     (\<lambda>bytes. Inr \<lparr>bf_Length = n, bf_data = bytes\<rparr>)"

text \<open>\<open>1 << (7 - bitIndex)\<close>, cut to a byte: 0 when the shift leaves the byte.\<close>

definition bit_mask :: "int \<Rightarrow> byte" where
  "bit_mask bitIndex = push_bit (nat (7 - bitIndex)) 1"

definition full_last_byte :: "int \<Rightarrow> byte" where
  "full_last_byte left =
     (if left = 0 then 255
      else fold (\<lambda>i result. result OR bit_mask (int i)) [0..<nat left] 0)"

definition bf_NewFull :: "int \<Rightarrow> bitfield result" where
  "bf_NewFull n =
     (let lenBytes = go_div n 8 + (if go_mod n 8 > 0 then 1 else 0)
      in bind_result (go_make lenBytes (0 :: byte)) (\<lambda>bytes.
           if lenBytes - 1 < 0 then Inl (Panic IndexOutOfRange)
           else Inr \<lparr>bf_Length = n,
             bf_data = (fold (\<lambda>i bs. bs[i := 255]) [0..<nat (lenBytes - 1)] bytes)
               [nat (lenBytes - 1) := full_last_byte (go_mod n 8)]\<rparr>))"

definition bf_Bytes :: "bitfield \<Rightarrow> byte list" where
  "bf_Bytes f = bf_data f"

definition bf_FromBytes :: "byte list \<Rightarrow> int \<Rightarrow> bitfield" where
  "bf_FromBytes bytes n = \<lparr>bf_Length = n, bf_data = bytes\<rparr>"

definition bf_Copy :: "bitfield \<Rightarrow> bitfield" where
  "bf_Copy b = \<lparr>bf_Length = bf_Length b, bf_data = bf_data b\<rparr>"

definition bf_Get :: "bitfield \<Rightarrow> int \<Rightarrow> bool result" where
  "bf_Get f index =
     (if index \<ge> bf_Length f then Inl (Errorf ''Get: index out of bounds'')
      else bind_result (go_index (bf_data f) (go_div index 8))
        (\<lambda>b. Inr (b AND bit_mask (go_mod index 8) \<noteq> 0)))"

definition bf_Set :: "bitfield \<Rightarrow> int \<Rightarrow> bool \<Rightarrow> bitfield result" where
  "bf_Set f index val =
     (if index \<ge> bf_Length f then Inl (Errorf ''Set: index out of bounds'')
      else
        let byteIndex = go_div index 8; mask = bit_mask (go_mod index 8)
        in bind_result (go_index (bf_data f) byteIndex) (\<lambda>b.
             Inr (f\<lparr>bf_data := (bf_data f)[nat byteIndex :=
               (if val then b OR mask else b AND NOT mask)]\<rparr>)))"

section \<open>The abstraction: a set of indices\<close>

definition bf_wf :: "bitfield \<Rightarrow> bool" where
  "bf_wf f \<longleftrightarrow> 0 \<le> bf_Length f \<and> bf_Length f \<le> 8 * int (length (bf_data f))"

definition bf_bit :: "byte list \<Rightarrow> nat \<Rightarrow> bool" where
  "bf_bit bs i = bit (bs ! (i div 8)) (7 - i mod 8)"

definition bf_members :: "bitfield \<Rightarrow> int set" where
  "bf_members f = {i. 0 \<le> i \<and> i < bf_Length f \<and> bf_bit (bf_data f) (nat i)}"

lemma bit_mask_nat: "0 \<le> i \<Longrightarrow> bit_mask (i mod 8) = 2 ^ (7 - nat i mod 8)"
  by (simp add: bit_mask_def nat_diff_distrib nat_mod_distrib)

lemma byte_and_mask: "((b :: byte) AND 2 ^ k \<noteq> 0) = bit b k"
  by (simp add: and_exp_eq_0_iff_not_bit)

lemma bf_wf_index:
  assumes "bf_wf f" and "0 \<le> i" and "i < bf_Length f"
  shows "nat i div 8 < length (bf_data f)" and "go_index (bf_data f) (i div 8) = Inr (bf_data f ! (nat i div 8))"
  using assms by (auto simp: bf_wf_def go_index_def nat_div_distrib)

lemma bf_Get_in:
  assumes "bf_wf f" and "0 \<le> i" and "i < bf_Length f"
  shows "bf_Get f i = Inr (i \<in> bf_members f)"
  using assms bf_wf_index [OF assms]
  by (simp add: bf_Get_def bf_members_def bf_bit_def bit_mask_nat byte_and_mask)

lemma bf_Get_out: "bf_Length f \<le> i \<Longrightarrow> bf_Get f i = Inl (Errorf ''Get: index out of bounds'')"
  by (simp add: bf_Get_def)

lemma bit_position_eq: "(j :: nat) div 8 = i div 8 \<Longrightarrow> 7 - j mod 8 = 7 - i mod 8 \<longleftrightarrow> j = i"
proof
  assume "j div 8 = i div 8" and "7 - j mod 8 = 7 - i mod 8"
  moreover have "j mod 8 < 8" and "i mod 8 < 8" by simp_all
  ultimately have "j div 8 = i div 8" and "j mod 8 = i mod 8" by linarith+
  then show "j = i" by (metis mult_div_mod_eq)
qed simp

lemma bf_bit_update:
  assumes "i div 8 < length bs"
  shows "bf_bit (bs[i div 8 := (if v then bs ! (i div 8) OR 2 ^ (7 - i mod 8)
      else bs ! (i div 8) AND NOT (2 ^ (7 - i mod 8)))]) j
    = (if j = i then v else bf_bit bs j)"
proof (cases "j div 8 = i div 8")
  case True
  show ?thesis
    using True assms bit_position_eq [OF True]
    by (auto simp: bf_bit_def bit_or_iff bit_and_iff bit_not_iff bit_exp_iff)
next
  case False
  then have "j \<noteq> i" by auto
  with False show ?thesis by (simp add: bf_bit_def)
qed

lemma bf_Set_in:
  assumes "bf_wf f" and "0 \<le> i" and "i < bf_Length f"
  shows "\<exists>f'. bf_Set f i v = Inr f' \<and> bf_wf f' \<and> bf_Length f' = bf_Length f
    \<and> length (bf_data f') = length (bf_data f)
    \<and> bf_members f' = (if v then insert i (bf_members f) else bf_members f - {i})"
proof -
  let ?i = "nat i"
  let ?b = "bf_data f ! (?i div 8)"
  let ?f' = "f\<lparr>bf_data := (bf_data f)[?i div 8 := (if v then ?b OR 2 ^ (7 - ?i mod 8)
      else ?b AND NOT (2 ^ (7 - ?i mod 8)))]\<rparr>"
  note idx = bf_wf_index [OF assms]
  have "bf_Set f i v = Inr ?f'"
    using assms idx by (simp add: bf_Set_def Let_def nat_div_distrib bit_mask_nat)
  moreover have "bf_members ?f' = (if v then insert i (bf_members f) else bf_members f - {i})"
    using assms bf_bit_update [OF idx(1), of v]
    by (auto simp: bf_members_def eq_nat_nat_iff split: if_splits)
  ultimately show ?thesis using assms(1) by (auto simp: bf_wf_def)
qed

lemma bf_Set_out: "bf_Length f \<le> i \<Longrightarrow> bf_Set f i v = Inl (Errorf ''Set: index out of bounds'')"
  by (simp add: bf_Set_def)

section \<open>Constructors\<close>

lemma bf_New_spec:
  assumes "0 \<le> n"
  shows "\<exists>f. bf_New n = Inr f \<and> bf_wf f \<and> bf_Length f = n \<and> bf_members f = {}
    \<and> int (length (bf_data f)) = n div 8 + 1"
proof -
  let ?f = "\<lparr>bf_Length = n, bf_data = replicate (nat (n div 8 + 1)) 0\<rparr>"
  have "bf_New n = Inr ?f" using assms by (simp add: bf_New_def)
  moreover have "bf_wf ?f" using assms by (simp add: bf_wf_def)
  moreover have "nat i div 8 < nat (n div 8 + 1)" if "0 \<le> i" "i < n" for i
    using that by linarith
  then have "bf_members ?f = {}" by (auto simp: bf_members_def bf_bit_def)
  ultimately show ?thesis using assms by auto
qed

lemma bf_New_Inr:
  assumes "bf_New n = Inr f" and "0 \<le> n"
  shows "bf_wf f" and "bf_Length f = n" and "bf_members f = {}"
    and "int (length (bf_data f)) = n div 8 + 1"
  using bf_New_spec [OF assms(2)] assms(1) by auto

lemma bit_255: "bit (255 :: byte) (7 - k)"
proof -
  have "7 - k = 0 \<or> 7 - k = 1 \<or> 7 - k = 2 \<or> 7 - k = 3 \<or> 7 - k = 4 \<or> 7 - k = 5
      \<or> 7 - k = 6 \<or> 7 - k = 7"
    by arith
  then show ?thesis by (elim disjE) simp_all
qed

lemma bit_full_fold:
  "m \<le> 8 \<Longrightarrow> k < 8 \<Longrightarrow>
    bit (fold (\<lambda>i result. result OR bit_mask (int i)) [0..<m] 0) (7 - k) \<longleftrightarrow> k < m"
proof (induction m)
  case 0
  then show ?case by simp
next
  case (Suc m)
  have "bit_mask (int m) = 2 ^ (7 - m)"
    using Suc.prems by (simp add: bit_mask_def nat_diff_distrib)
  moreover have "7 - k = 7 - m \<longleftrightarrow> k = m" using Suc.prems by auto
  ultimately show ?case
    using Suc by (auto simp: bit_or_iff bit_exp_iff less_Suc_eq)
qed

lemma bit_full_last_byte:
  assumes "0 \<le> left" and "left < 8" and "k < 8"
  shows "bit (full_last_byte left) (7 - k) \<longleftrightarrow> left = 0 \<or> int k < left"
  using assms bit_full_fold [of "nat left" k] bit_255 [of k]
  by (auto simp: full_last_byte_def zless_nat_eq_int_zless)

lemma fold_update_255:
  "length (fold (\<lambda>i bs. bs[i := x]) is bs) = length bs"
  "j < length bs \<Longrightarrow> fold (\<lambda>i bs. bs[i := x]) is bs ! j = (if j \<in> set is then x else bs ! j)"
  by (induction "is" arbitrary: bs) auto

text \<open>
  The bytes of a full field: every bit below the length is set, every padding bit above it is
  clear, and there are exactly as many bytes as the protocol asks for.
\<close>

definition bf_byte_len :: "int \<Rightarrow> int" where
  "bf_byte_len n = (n + 7) div 8"

lemma bf_byte_len_alt: "bf_byte_len n = n div 8 + (if n mod 8 > 0 then 1 else 0)"
proof -
  have "(n + 7) div 8 = (n mod 8 + 7 + (n div 8) * 8) div 8" by simp
  also have "\<dots> = (n mod 8 + 7) div 8 + n div 8" by (simp only: div_mult_self1)
  also have "(n mod 8 + 7) div 8 = (if n mod 8 > 0 then 1 else 0)"
  proof (cases "n mod 8 > 0")
    case True
    then have "(n mod 8 + 7) div 8 = (n mod 8 - 1) div 8 + 1" by (simp add: div_pos_geq)
    also have "(n mod 8 - 1) div 8 = 0" using True by (intro div_pos_pos_trivial) auto
    finally show ?thesis using True by simp
  next
    case False
    then have "n mod 8 = 0" using pos_mod_sign [of 8 n] by linarith
    then show ?thesis by simp
  qed
  finally show ?thesis by (simp add: bf_byte_len_def)
qed

lemma bf_NewFull_data:
  assumes "0 < n"
  defines "L \<equiv> n div 8 + (if n mod 8 > 0 then 1 else 0)"
  defines "d \<equiv> (fold (\<lambda>i bs. bs[i := 255]) [0..<nat (L - 1)] (replicate (nat L) (0 :: byte)))
               [nat (L - 1) := full_last_byte (n mod 8)]"
  shows "bf_NewFull n = Inr \<lparr>bf_Length = n, bf_data = d\<rparr>"
    and "int (length d) = bf_byte_len n"
    and "i < 8 * length d \<Longrightarrow> bf_bit d i \<longleftrightarrow> int i < n"
proof -
  have L: "L = bf_byte_len n" unfolding L_def by (rule bf_byte_len_alt [symmetric])
  then have L: "0 < L" "L = bf_byte_len n" using assms(1) by (simp_all add: bf_byte_len_def)
  show "bf_NewFull n = Inr \<lparr>bf_Length = n, bf_data = d\<rparr>"
    using assms(1) L(1) by (simp add: bf_NewFull_def Let_def d_def L_def)
  show len: "int (length d) = bf_byte_len n"
    using L by (simp add: d_def fold_update_255)
  have split: "int i = 8 * int (i div 8) + int (i mod 8)" "n = 8 * (n div 8) + n mod 8"
    "int (i mod 8) < 8" "0 \<le> n mod 8"
    using div_mult_mod_eq [of i 8] by (linarith, simp_all)
  assume i: "i < 8 * length d"
  then have iL: "int (i div 8) < L" using len L by linarith
  show "bf_bit d i \<longleftrightarrow> int i < n"
  proof (cases "int (i div 8) = L - 1")
    case True
    then have "i div 8 = nat (L - 1)" by linarith
    then have "d ! (i div 8) = full_last_byte (n mod 8)"
      using L(1) by (simp add: d_def fold_update_255)
    moreover have "n mod 8 = 0 \<or> int (i mod 8) < n mod 8 \<longleftrightarrow> int i < n"
      using True split unfolding L_def by (simp split: if_splits; linarith)
    ultimately show ?thesis
      by (simp add: bf_bit_def bit_full_last_byte)
  next
    case False
    then have lt: "int (i div 8) < L - 1" using iL by simp
    then have "d ! (i div 8) = 255"
      using L(1) by (auto simp: d_def fold_update_255 nth_list_update)
    moreover have "int i < n"
      using lt split unfolding L_def by (simp split: if_splits; linarith)
    ultimately show ?thesis using bit_255 [of "i mod 8"] by (simp add: bf_bit_def)
  qed
qed

lemma bf_NewFull_spec:
  assumes "0 < n"
  shows "\<exists>f. bf_NewFull n = Inr f \<and> bf_wf f \<and> bf_Length f = n \<and> bf_members f = {0..<n}
    \<and> int (length (bf_data f)) = bf_byte_len n
    \<and> (\<forall>i < 8 * length (bf_data f). bf_bit (bf_data f) i \<longleftrightarrow> int i < n)"
proof -
  note full = bf_NewFull_data [OF assms]
  let ?L = "n div 8 + (if n mod 8 > 0 then 1 else 0)"
  define d where "d = (fold (\<lambda>i bs. bs[i := 255]) [0..<nat (?L - 1)] (replicate (nat ?L) (0 :: byte)))
               [nat (?L - 1) := full_last_byte (n mod 8)]"
  let ?f = "\<lparr>bf_Length = n, bf_data = d\<rparr>"
  have f: "bf_NewFull n = Inr ?f" and len: "int (length d) = bf_byte_len n"
    and bits: "i < 8 * length d \<Longrightarrow> bf_bit d i \<longleftrightarrow> int i < n" for i
    using full unfolding d_def by blast+
  have n: "n \<le> 8 * int (length d)" unfolding len bf_byte_len_def by linarith
  then have wf: "bf_wf ?f" using assms by (simp add: bf_wf_def)
  have "bf_bit d (nat i)" if "0 \<le> i" "i < n" for i
    using bits [of "nat i"] n that by simp
  then have "bf_members ?f = {0..<n}" by (auto simp: bf_members_def)
  with f wf len bits show ?thesis by auto
qed

text \<open>\<open>NewFull(0)\<close> indexes the last of no bytes: it panics.\<close>

lemma go_div_nonpos: "n \<le> 0 \<Longrightarrow> 0 < m \<Longrightarrow> go_div n m = - ((- n) div m)"
  by (cases "n = 0") (simp_all add: go_div_def)

lemma bf_NewFull_panic:
  assumes "n \<le> 0"
  shows "\<exists>p. bf_NewFull n = Inl (Panic p)"
proof -
  have "go_mod n 8 \<le> 0" "go_div n 8 \<le> 0"
    using assms by (simp_all add: go_mod_def go_div_nonpos)
  then show ?thesis
    by (simp add: bf_NewFull_def Let_def go_make_def)
qed

section \<open>The interface the other components use\<close>

text \<open>
  A set of piece indices below a size, read and written one index at a time; an index past
  the size is an error of the code, never a panic.
\<close>

locale index_set =
  fixes get :: "'s \<Rightarrow> int \<Rightarrow> bool result"
    and upd :: "'s \<Rightarrow> int \<Rightarrow> bool \<Rightarrow> 's result"
    and size :: "'s \<Rightarrow> int"
    and members :: "'s \<Rightarrow> int set"
    and invar :: "'s \<Rightarrow> bool"
  assumes members_range: "members s \<subseteq> {0..<size s}"
    and get_in: "invar s \<Longrightarrow> 0 \<le> i \<Longrightarrow> i < size s \<Longrightarrow> get s i = Inr (i \<in> members s)"
    and get_out: "size s \<le> i \<Longrightarrow> \<exists>m. get s i = Inl (Errorf m)"
    and upd_in: "invar s \<Longrightarrow> 0 \<le> i \<Longrightarrow> i < size s \<Longrightarrow>
      \<exists>s'. upd s i v = Inr s' \<and> invar s' \<and> size s' = size s
        \<and> members s' = (if v then insert i (members s) else members s - {i})"
    and upd_out: "size s \<le> i \<Longrightarrow> \<exists>m. upd s i v = Inl (Errorf m)"
begin

lemma get_upd:
  assumes "invar s" and "0 \<le> i" and "i < size s" and "0 \<le> j" and "j < size s"
  shows "\<exists>s'. upd s i v = Inr s' \<and> get s' j = (if j = i then Inr v else get s j)"
  using upd_in [OF assms(1-3), of v] get_in assms by fastforce

lemma upd_Inr:
  assumes "invar s" and "0 \<le> i" and "upd s i v = Inr s'"
  shows "i < size s" and "invar s'" and "size s' = size s"
    and "members s' = (if v then insert i (members s) else members s - {i})"
proof -
  show "i < size s" using upd_out [of s i v] assms(3) by (cases "i < size s") auto
  then show "invar s'" "size s' = size s"
    "members s' = (if v then insert i (members s) else members s - {i})"
    using upd_in [OF assms(1,2), of v] assms(3) by auto
qed

lemma get_Inr:
  assumes "invar s" and "0 \<le> i" and "get s i = Inr b"
  shows "i < size s" and "b \<longleftrightarrow> i \<in> members s"
proof -
  show "i < size s" using get_out [of s i] assms(3) by (cases "i < size s") auto
  then show "b \<longleftrightarrow> i \<in> members s" using get_in [OF assms(1,2)] assms(3) by simp
qed

lemma get_no_panic: "invar s \<Longrightarrow> 0 \<le> i \<Longrightarrow> get s i \<noteq> Inl (Panic p)"
  using get_in [of s i] get_out [of s i] by (cases "i < size s") auto

lemma upd_no_panic: "invar s \<Longrightarrow> 0 \<le> i \<Longrightarrow> upd s i v \<noteq> Inl (Panic p)"
  using upd_in [of s i v] upd_out [of s i v] by (cases "i < size s") auto

lemma finite_members: "finite (members s)"
  using members_range finite_subset by blast

lemma card_members_le: "int (card (members s)) \<le> max 0 (size s)"
proof -
  have "card (members s) \<le> card {0..<size s}" using members_range by (intro card_mono) auto
  then show ?thesis by simp
qed

end

interpretation bf: index_set bf_Get bf_Set bf_Length bf_members bf_wf
proof unfold_locales
  show "bf_members f \<subseteq> {0..<bf_Length f}" for f
    by (auto simp: bf_members_def)
qed (use bf_Get_in bf_Get_out bf_Set_in bf_Set_out in blast)+

end
