(* ===== verification/Torrent_Types.thy ===== *)
theory Torrent_Types
  imports Go_IO Bitfield
begin

text \<open>
  \<open>types/types.go\<close>: the data the components exchange (torrent metadata, pieces, orders,
  peers, the shared results) and its operations: \<open>GetNumberOfPieces\<close> and the
  \<open>Serialize\<close> and \<open>Deserialize\<close> of a piece in a partial file, with their round trip
  and what \<open>Deserialize\<close> makes of a truncated file. Go's fixed arrays \<open>[20]byte\<close> are
  byte lists; the mutex of \<open>Results\<close> has no counterpart, an operation on it is one step.
\<close>

section \<open>Addresses and URLs of the standard library\<close>

text \<open>
  A \<open>net.Addr\<close> is a pointer to an address object. The number identifies the object:
  Go's \<open>==\<close> on two such interface values compares the pointers.
\<close>

datatype addr = TCPAddr nat string int | OtherAddr nat string

fun addr_ref :: "addr \<Rightarrow> nat" where
  "addr_ref (TCPAddr n ip port) = n"
| "addr_ref (OtherAddr n s) = n"

definition addr_same :: "addr \<Rightarrow> addr \<Rightarrow> bool" where
  "addr_same a b \<longleftrightarrow> addr_ref a = addr_ref b"

text \<open>The parts of \<open>url.URL\<close> the program looks at or writes.\<close>

record url =
  url_Scheme :: string
  url_base :: string
  url_ForceQuery :: bool
  url_RawQuery :: string
  url_fragment :: string

definition url_String :: "url \<Rightarrow> string" where
  "url_String u = url_base u
     @ (if url_ForceQuery u \<or> url_RawQuery u \<noteq> [] then CHR ''?'' # url_RawQuery u else [])
     @ (if url_fragment u \<noteq> [] then CHR ''#'' # url_fragment u else [])"

section \<open>The records\<close>

type_synonym hash = "byte list"

record torrent_file =
  tf_Announce :: string
  tf_Name :: string
  tf_Comment :: string
  tf_CreatedBy :: string
  tf_CreationDate :: int
  tf_Length :: int
  tf_PieceLength :: int
  tf_PieceHashes :: "hash list"
  tf_InfoHash :: hash
  tf_AnnounceList :: "string list list"

abbreviation num_hashes :: "torrent_file \<Rightarrow> int" where
  "num_hashes t \<equiv> int (length (tf_PieceHashes t))"

definition GetNumberOfPieces :: "torrent_file \<Rightarrow> int result" where
  "GetNumberOfPieces t =
     (if tf_PieceLength t = 0 then Inl (Panic DivideByZero)
      else if go_mod (tf_Length t) (tf_PieceLength t) \<noteq> 0
      then Inl (Panic (Explicit ''incorrect torrent file loaded''))
      else Inr (go_div (tf_Length t) (tf_PieceLength t)))"

record tracker_information =
  ti_Tracker :: "url option"
  ti_Interval :: int
  ti_IPs :: "byte list list"
  ti_Ports :: "16 word list"

record peer =
  pr_Downloaded :: "32 word"
  pr_ChokedBy :: bool
  pr_Choking :: bool
  pr_Interested :: bool
  pr_InterestedSent :: bool
  pr_Bitfield :: bitfield
  pr_ID :: string
  pr_Addr :: addr

record piece_order =
  po_Index :: int
  po_Length :: int
  po_Hash :: hash

record piece =
  pc_Index :: int
  pc_Length :: int
  pc_Data :: "byte list"
  pc_From :: string

record communication =
  cm_Orders :: "piece_order list"
  cm_Results :: "piece list"
  cm_PeerInterested :: "(string \<times> bool) list"
  cm_ConnectionEnded :: "(string \<times> addr) list"
  cm_Uploaded :: "int list"

record results =
  rs_Pieces :: "piece option list"
  rs_PiecesDone :: int
  rs_TotalLength :: int
  rs_Bitfield :: bitfield

section \<open>Pieces in a partial file\<close>

definition piece_zero :: piece where
  "piece_zero = \<lparr>pc_Index = 0, pc_Length = 0, pc_Data = [], pc_From = ''''\<rparr>"

definition Serialize :: "piece \<Rightarrow> byte list result" where
  "Serialize p =
     (if pc_Length p < 0 then Inl (Panic MakeSlice)
      else Inr (be_put32 (uint32_of (pc_Index p)) @ be_put32 (uint32_of (pc_Length p)) @ pc_Data p))"

text \<open>
  \<open>Deserialize\<close> reads the header with \<open>io.ReadFull\<close> but the data with one call of
  \<open>Read\<close>: what that call does not deliver stays zero.
\<close>

definition Deserialize :: "piece \<Rightarrow> reader \<Rightarrow> go_error option \<times> piece \<times> reader" where
  "Deserialize p r =
     (case read_full 8 r of
        (Inl e, r1) \<Rightarrow>
          (Some (if e = EOF then EOF else Errorf ''error deserializing piece''), p, r1)
      | (Inr buf, r1) \<Rightarrow>
          (case (be_get32 (take 4 buf), be_get32 (drop 4 buf)) of
             (Inr index, Inr len) \<Rightarrow>
               let n = unat len;
                   p1 = p\<lparr>pc_Index := uint index, pc_Length := uint len, pc_Data := replicate n 0\<rparr>
               in (case rd_read n r1 of
                     (Inl e, r2) \<Rightarrow> (Some (Errorf ''error deserializing pieces data''), p1, r2)
                   | (Inr bs, r2) \<Rightarrow>
                       (None, p1\<lparr>pc_Data := go_copy_at (replicate n 0) 0 bs\<rparr>, r2))
           | _ \<Rightarrow> (Some (Panic IndexOutOfRange), p, r1)))"

text \<open>The pieces a partial file can hold, and the files read without short reads.\<close>

definition piece_storable :: "piece \<Rightarrow> bool" where
  "piece_storable p \<longleftrightarrow> 0 \<le> pc_Index p \<and> pc_Index p < 2 ^ 32 \<and> pc_Length p < 2 ^ 32
     \<and> pc_Length p = int (length (pc_Data p)) \<and> pc_From p = ''''"

definition plain_reader :: "reader \<Rightarrow> bool" where
  "plain_reader r \<longleftrightarrow> rd_chunks r = []"

definition piece_frame :: "piece \<Rightarrow> byte list" where
  "piece_frame p = be_put32 (uint32_of (pc_Index p)) @ be_put32 (uint32_of (pc_Length p)) @ pc_Data p"

lemma Serialize_frame: "0 \<le> pc_Length p \<Longrightarrow> Serialize p = Inr (piece_frame p)"
  by (simp add: Serialize_def piece_frame_def)

lemma length_piece_frame [simp]: "length (piece_frame p) = 8 + length (pc_Data p)"
  by (simp add: piece_frame_def)

lemma uint_unat_eq: "0 \<le> x \<Longrightarrow> x < 2 ^ 32 \<Longrightarrow> unat (uint32_of x) = nat x"
  by (simp add: unat_eq_nat_uint)

lemma rd_read_plain:
  assumes "plain_reader r" and "0 < n" and "rd_data r \<noteq> []"
  shows "rd_read n r = (Inr (take n (rd_data r)), r\<lparr>rd_data := drop n (rd_data r)\<rparr>)"
proof -
  have "r\<lparr>rd_data := drop n (rd_data r), rd_chunks := []\<rparr> = r\<lparr>rd_data := drop n (rd_data r)\<rparr>"
    using assms(1) by (cases r) (simp add: plain_reader_def)
  with assms show ?thesis by (simp add: rd_read_def plain_reader_def Let_def)
qed

text \<open>
  Reading one frame whose data may be cut short by the end of the file. All data present: the
  piece comes back. Only a prefix (but not nothing): the rest of the buffer stays zero and there is
  \<^emph>\<open>no\<close> error.
\<close>

lemma Deserialize_header:
  assumes "plain_reader r" and "0 \<le> i" "i < 2 ^ 32" and "0 \<le> n" "n < 2 ^ 32"
    and "rd_data r = be_put32 (uint32_of i) @ be_put32 (uint32_of n) @ d"
  obtains r1 where "plain_reader r1" and "rd_data r1 = d" and "rd_end r1 = rd_end r"
    and "Deserialize p r = (let p1 = p\<lparr>pc_Index := i, pc_Length := n, pc_Data := replicate (nat n) 0\<rparr>
       in case rd_read (nat n) r1 of
            (Inl e, r2) \<Rightarrow> (Some (Errorf ''error deserializing pieces data''), p1, r2)
          | (Inr bs, r2) \<Rightarrow> (None, p1\<lparr>pc_Data := go_copy_at (replicate (nat n) 0) 0 bs\<rparr>, r2))"
proof -
  let ?h = "be_put32 (uint32_of i) @ be_put32 (uint32_of n)"
  have "rd_data r = ?h @ d" "length ?h = 8" using assms(6) by simp_all
  then obtain r1 where r1: "read_full 8 r = (Inr ?h, r1)" "rd_data r1 = d" "rd_end r1 = rd_end r"
      "rd_chunks r = [] \<longrightarrow> rd_chunks r1 = []"
    by (rule read_full_append)
  show ?thesis
  proof (rule that [of r1])
    show "plain_reader r1" using assms(1) r1(4) by (simp add: plain_reader_def)
  qed (use r1 assms uint_unat_eq in \<open>simp_all add: Deserialize_def Let_def\<close>)
qed

lemma Deserialize_data:
  assumes "plain_reader r" and "0 \<le> i" "i < 2 ^ 32" and "0 \<le> n" "n < 2 ^ 32"
    and "rd_data r = be_put32 (uint32_of i) @ be_put32 (uint32_of n) @ d" and "n = 0 \<or> d \<noteq> []"
  shows "\<exists>r'. Deserialize p r =
      (None, p\<lparr>pc_Index := i, pc_Length := n,
         pc_Data := take (nat n) d @ replicate (nat n - length d) 0\<rparr>, r')
    \<and> rd_data r' = drop (nat n) d \<and> rd_end r' = rd_end r \<and> plain_reader r'"
proof (rule Deserialize_header [OF assms(1-6), of p])
  fix r1
  assume r1: "plain_reader r1" "rd_data r1 = d" "rd_end r1 = rd_end r"
    and eq: "Deserialize p r = (let p1 = p\<lparr>pc_Index := i, pc_Length := n, pc_Data := replicate (nat n) 0\<rparr>
       in case rd_read (nat n) r1 of
            (Inl e, r2) \<Rightarrow> (Some (Errorf ''error deserializing pieces data''), p1, r2)
          | (Inr bs, r2) \<Rightarrow> (None, p1\<lparr>pc_Data := go_copy_at (replicate (nat n) 0) 0 bs\<rparr>, r2))"
  show ?thesis
  proof (cases "n = 0")
    case True
    with r1 eq show ?thesis by (simp add: rd_read_def go_copy_at_def)
  next
    case False
    with assms(4,7) have "0 < nat n" and "d \<noteq> []" by auto
    with r1 have "rd_read (nat n) r1 = (Inr (take (nat n) d), r1\<lparr>rd_data := drop (nat n) d\<rparr>)"
      using rd_read_plain [of r1 "nat n"] by simp
    with r1 eq show ?thesis
      by (auto simp: go_copy_at_def plain_reader_def min_def)
  qed
qed

lemma Deserialize_frame:
  assumes "piece_storable q" and "plain_reader r" and "rd_data r = piece_frame q @ rest"
  shows "\<exists>r'. Deserialize piece_zero r = (None, q, r') \<and> rd_data r' = rest
    \<and> rd_end r' = rd_end r \<and> plain_reader r'"
proof -
  have "pc_Length q = 0 \<or> pc_Data q @ rest \<noteq> []"
    using assms(1) by (auto simp: piece_storable_def)
  moreover have "rd_data r = be_put32 (uint32_of (pc_Index q)) @ be_put32 (uint32_of (pc_Length q))
      @ (pc_Data q @ rest)"
    using assms(3) by (simp add: piece_frame_def)
  ultimately obtain r' where r': "Deserialize piece_zero r =
      (None, piece_zero\<lparr>pc_Index := pc_Index q, pc_Length := pc_Length q,
         pc_Data := take (nat (pc_Length q)) (pc_Data q @ rest)
           @ replicate (nat (pc_Length q) - length (pc_Data q @ rest)) 0\<rparr>, r')"
     "rd_data r' = drop (nat (pc_Length q)) (pc_Data q @ rest)" "rd_end r' = rd_end r" "plain_reader r'"
    using Deserialize_data [OF assms(2), of "pc_Index q" "pc_Length q" "pc_Data q @ rest" piece_zero]
      assms(1) by (auto simp: piece_storable_def)
  have "nat (pc_Length q) = length (pc_Data q)" "pc_From q = ''''"
    using assms(1) by (simp_all add: piece_storable_def)
  with r' show ?thesis by (simp add: piece_zero_def)
qed

lemma Deserialize_eof:
  "rd_data r = [] \<Longrightarrow> rd_end r = EOF \<Longrightarrow> fst (Deserialize p r) = Some EOF"
  by (cases rule: read_full_cases [of 8 r]) (simp_all add: Deserialize_def)

text \<open>\<open>Deserialize\<close> as a decoder of frames: the fresh piece it fills, or its error.\<close>

definition piece_dec :: "reader \<Rightarrow> piece result \<times> reader" where
  "piece_dec r = (case Deserialize piece_zero r of
     (None, p, r') \<Rightarrow> (Inr p, r')
   | (Some e, p, r') \<Rightarrow> (Inl e, r'))"

interpretation piece_codec: frame_codec piece_frame piece_dec piece_storable plain_reader
proof unfold_locales
  show "\<exists>r'. piece_dec r = (Inr q, r') \<and> rd_data r' = rest \<and> rd_end r' = rd_end r \<and> plain_reader r'"
    if "piece_storable q" "plain_reader r" "rd_data r = piece_frame q @ rest" for q r rest
    using Deserialize_frame [OF that] by (auto simp: piece_dec_def)
  show "fst (piece_dec r) = Inl EOF"
    if "plain_reader r" "rd_data r = []" "rd_end r = EOF" for r
    using Deserialize_eof [OF that(2,3), of piece_zero] by (auto simp: piece_dec_def split: prod.split)
qed

text \<open>Every successful call consumes at least the header.\<close>

lemma Deserialize_consumes:
  assumes "Deserialize p r = (None, q, r')"
  shows "length (rd_data r') + 8 \<le> length (rd_data r)"
proof (cases rule: read_full_cases [of 8 r])
  case (full r1)
  have mono: "length (rd_data r2) + 8 \<le> length (rd_data r)" if "rd_read n r1 = (x, r2)" for n x r2
    using that full(1,3) by (auto simp: rd_read_def Let_def split: if_splits)
  show ?thesis
    using full(2) assms
    by (auto simp: Deserialize_def Let_def split: sum.splits prod.splits dest!: mono)
next
  case (short r1)
  with assms show ?thesis by (simp add: Deserialize_def)
qed

lemma piece_dec_consumes: "piece_dec r = (Inr q, r') \<Longrightarrow> length (rd_data r') + 8 \<le> length (rd_data r)"
  by (auto simp: piece_dec_def split: prod.splits option.splits intro: Deserialize_consumes)

section \<open>The number of pieces\<close>

lemma GetNumberOfPieces_Inr:
  assumes "0 \<le> tf_Length t" and "0 \<le> tf_PieceLength t"
  shows "GetNumberOfPieces t = Inr n \<longleftrightarrow>
    0 < tf_PieceLength t \<and> tf_Length t = n * tf_PieceLength t"
  using assms by (auto simp: GetNumberOfPieces_def mod_eq_0_iff_dvd)

end
