(* ===== verification/Piece_Files.thy ===== *)
theory Piece_Files
  imports Torrent_Types
begin

text \<open>
  \<open>file/file.go\<close> and \<open>file/partial_file.go\<close>: the complete file as the concatenation
  of the pieces (\<open>Read\<close>, \<open>Save\<close>) and partial files as streams of piece frames, a
  thousand piece indices per file (\<open>ReadPartialFile\<close>, \<open>WritePartialFiles\<close>). The lemmas
  give each operation's effect on every outcome and the two round trips.
\<close>

section \<open>The complete file\<close>

fun read_leading :: "nat \<Rightarrow> int \<Rightarrow> int \<Rightarrow> reader \<Rightarrow> piece list result \<times> reader" where
  "read_leading 0 i pieceLength r = (Inr [], r)"
| "read_leading (Suc n) i pieceLength r =
     (if pieceLength < 0 then (Inl (Panic MakeSlice), r)
      else case read_full (nat pieceLength) r of
        (Inl e, r1) \<Rightarrow> (Inl (Errorf ''encountered error while reading piece number''), r1)
      | (Inr d, r1) \<Rightarrow> (case read_leading n (i + 1) pieceLength r1 of
            (Inl e, r2) \<Rightarrow> (Inl e, r2)
          | (Inr ps, r2) \<Rightarrow>
              (Inr (\<lparr>pc_Index = i, pc_Length = pieceLength, pc_Data = d, pc_From = ''local''\<rparr> # ps), r2)))"

definition Read :: "reader \<Rightarrow> int \<Rightarrow> int \<Rightarrow> piece list result \<times> reader" where
  "Read r num pieceLength =
     (case read_leading (nat (num - 1)) 0 pieceLength r of
        (Inl e, r1) \<Rightarrow> (Inl e, r1)
      | (Inr ps, r1) \<Rightarrow> (case read_all r1 of
          (Inl e, r2) \<Rightarrow> (Inl (Errorf ''encountered error while reading last piece''), r2)
        | (Inr d, r2) \<Rightarrow> (Inr (ps @ [\<lparr>pc_Index = num - 1, pc_Length = int (length d), pc_Data = d,
              pc_From = ''local''\<rparr>]), r2)))"

text \<open>\<open>Save\<close> panics on a piece out of place, and on a missing one (a nil pointer).\<close>

fun Save_from :: "int \<Rightarrow> wstream \<Rightarrow> piece option list \<Rightarrow> go_error option \<times> wstream" where
  "Save_from i w [] = (None, w)"
| "Save_from i w (None # ps) = (Some (Panic NilDereference), w)"
| "Save_from i w (Some p # ps) =
     (if i \<noteq> pc_Index p then (Some (Panic (Explicit ''data on index has piece with a different index'')), w)
      else case w_write (pc_Data p) w of
        (Some e, w1) \<Rightarrow> (Some (Errorf ''encountered error while writing piece index''), w1)
      | (None, w1) \<Rightarrow> Save_from (i + 1) w1 ps)"

definition Save :: "wstream \<Rightarrow> piece option list \<Rightarrow> go_error option \<times> wstream" where
  "Save w ps = Save_from 0 w ps"

text \<open>A complete download: piece \<open>i\<close> stands at position \<open>i\<close>.\<close>

definition in_order :: "int \<Rightarrow> piece list \<Rightarrow> bool" where
  "in_order i ps \<longleftrightarrow> map pc_Index ps = map (\<lambda>j. i + int j) [0..<length ps]"

lemma in_order_Nil [simp]: "in_order i []"
  by (simp add: in_order_def)

lemma in_order_Cons [simp]: "in_order i (p # ps) \<longleftrightarrow> pc_Index p = i \<and> in_order (i + 1) ps"
proof -
  have "map (\<lambda>j. i + int j) [0..<Suc (length ps)] = i # map (\<lambda>j. i + 1 + int j) [0..<length ps]"
    by (simp add: upt_conv_Cons map_Suc_upt [symmetric] del: upt_Suc)
  then show ?thesis by (auto simp: in_order_def simp del: upt_Suc)
qed

lemma in_order_nth: "in_order i ps \<Longrightarrow> k < length ps \<Longrightarrow> pc_Index (ps ! k) = i + int k"
proof -
  assume o: "in_order i ps" and k: "k < length ps"
  have "pc_Index (ps ! k) = map pc_Index ps ! k" using k by simp
  also have "\<dots> = i + int k" using o k by (simp add: in_order_def)
  finally show ?thesis .
qed

lemma Save_from_reliable:
  "in_order i ps \<Longrightarrow> w_reliable w \<Longrightarrow>
    Save_from i w (map Some ps) = (None, w\<lparr>w_out := w_out w @ concat (map pc_Data ps)\<rparr>)"
  by (induction ps arbitrary: i w) simp_all

text \<open>Whatever the writer does, no error of \<open>Save\<close> means that every byte was written.\<close>

lemma Save_from_ok:
  "Save_from i w ps = (None, w') \<Longrightarrow>
    \<exists>qs. ps = map Some qs \<and> in_order i qs \<and> w_out w' = w_out w @ concat (map pc_Data qs)"
proof (induction ps arbitrary: i w)
  case Nil
  then show ?case by simp
next
  case (Cons x ps)
  from Cons.prems obtain p w1 where w1: "x = Some p" "pc_Index p = i" "w_write (pc_Data p) w = (None, w1)"
      "Save_from (i + 1) w1 ps = (None, w')"
    by (cases x) (auto split: if_splits prod.splits option.splits)
  with Cons.IH obtain qs where "ps = map Some qs" "in_order (i + 1) qs" "w_out w' = w_out w1 @ concat (map pc_Data qs)"
    by blast
  with w1 w_write_None [OF w1(3)] show ?case
    by (intro exI [of _ "p # qs"]) simp
qed

definition local_piece :: "int \<Rightarrow> byte list \<Rightarrow> piece" where
  "local_piece i d = \<lparr>pc_Index = i, pc_Length = int (length d), pc_Data = d, pc_From = ''local''\<rparr>"

fun local_pieces :: "int \<Rightarrow> byte list list \<Rightarrow> piece list" where
  "local_pieces i [] = []"
| "local_pieces i (d # ds) = local_piece i d # local_pieces (i + 1) ds"

lemma local_pieces_append:
  "local_pieces i (ds @ es) = local_pieces i ds @ local_pieces (i + int (length ds)) es"
  by (induction ds arbitrary: i) (simp_all add: algebra_simps)

lemma in_order_local_pieces [simp]: "in_order i (local_pieces i ds)"
  by (induction ds arbitrary: i) (simp_all add: local_piece_def)

lemma length_local_pieces [simp]: "length (local_pieces i ds) = length ds"
  by (induction ds arbitrary: i) simp_all

lemma map_Data_local_pieces [simp]: "map pc_Data (local_pieces i ds) = ds"
  by (induction ds arbitrary: i) (simp_all add: local_piece_def)

lemma map_Length_local_pieces [simp]: "map pc_Length (local_pieces i ds) = map (int \<circ> length) ds"
  by (induction ds arbitrary: i) (simp_all add: local_piece_def)

lemma read_leading_blocks:
  assumes "\<forall>d \<in> set ds. int (length d) = L" and "0 \<le> L" and "rd_data r = concat ds @ rest"
  shows "\<exists>r'. read_leading (length ds) i L r = (Inr (local_pieces i ds), r')
    \<and> rd_data r' = rest \<and> rd_end r' = rd_end r"
  using assms
proof (induction ds arbitrary: i r)
  case Nil
  then show ?case by simp
next
  case (Cons d ds)
  have "rd_data r = d @ (concat ds @ rest)" "length d = nat L" using Cons.prems by auto
  then obtain r1 where r1: "read_full (nat L) r = (Inr d, r1)" "rd_data r1 = concat ds @ rest"
      "rd_end r1 = rd_end r"
    by (rule read_full_append)
  from Cons.IH [of r1 "i + 1"] Cons.prems r1 obtain r2 where
      "read_leading (length ds) (i + 1) L r1 = (Inr (local_pieces (i + 1) ds), r2)"
      "rd_data r2 = rest" "rd_end r2 = rd_end r"
    by auto
  with Cons.prems r1 show ?case by (simp add: local_piece_def)
qed

text \<open>Reading a file back cuts it into blocks of the piece length, the rest being the last piece.\<close>

lemma Read_blocks:
  assumes "\<forall>d \<in> set ds. int (length d) = L" and "0 \<le> L"
    and "rd_data r = concat ds @ d" and "rd_end r = EOF"
  shows "fst (Read r (int (length ds) + 1) L) = Inr (local_pieces 0 (ds @ [d]))"
proof -
  obtain r' where r': "read_leading (length ds) 0 L r = (Inr (local_pieces 0 ds), r')"
      "rd_data r' = d" "rd_end r' = EOF"
    using read_leading_blocks [OF assms(1-3), of 0] assms(4) by auto
  then show ?thesis
    by (simp add: Read_def read_all_def local_pieces_append local_piece_def)
qed

lemma read_leading_short:
  assumes "0 < L" and "length (rd_data r) < n * nat L"
  shows "\<exists>m r'. read_leading n i L r = (Inl (Errorf m), r')"
  using assms(2)
proof (induction n arbitrary: i r)
  case 0
  then show ?case by simp
next
  case (Suc n)
  show ?case
  proof (cases rule: read_full_cases [of "nat L" r])
    case (full r1)
    with Suc.prems have "length (rd_data r1) < n * nat L" by simp
    from Suc.IH [OF this, of "i + 1"] full assms(1) show ?thesis by auto
  next
    case (short r1)
    with assms(1) show ?thesis by simp
  qed
qed

text \<open>What \<open>Read\<close> returns is always as many pieces as asked for, in order.\<close>

lemma read_leading_in_order:
  "read_leading n i L r = (Inr ps, r') \<Longrightarrow> length ps = n \<and> in_order i ps
    \<and> (\<forall>p \<in> set ps. pc_Length p = L \<and> int (length (pc_Data p)) = L)"
proof (induction n arbitrary: i r ps)
  case 0
  then show ?case by simp
next
  case (Suc n)
  from Suc.prems obtain d r1 ps' where
      L: "0 \<le> L" and d: "read_full (nat L) r = (Inr d, r1)"
      and rest: "read_leading n (i + 1) L r1 = (Inr ps', r')"
      and ps: "ps = \<lparr>pc_Index = i, pc_Length = L, pc_Data = d, pc_From = ''local''\<rparr> # ps'"
    by (auto split: if_splits sum.splits prod.splits)
  have "int (length d) = L"
    using d L by (cases rule: read_full_cases [of "nat L" r]) auto
  with Suc.IH [OF rest] ps show ?case by simp
qed

lemma Read_in_order:
  assumes "Read r num L = (Inr ps, r')" and "1 \<le> num"
  shows "int (length ps) = num" and "in_order 0 ps" and "\<forall>p \<in> set ps. pc_Length p = int (length (pc_Data p))"
proof -
  from assms(1) obtain ps' r1 d where
      l: "read_leading (nat (num - 1)) 0 L r = (Inr ps', r1)"
      and ps: "ps = ps' @ [\<lparr>pc_Index = num - 1, pc_Length = int (length d), pc_Data = d, pc_From = ''local''\<rparr>]"
    by (auto simp: Read_def split: sum.splits prod.splits)
  note lead = read_leading_in_order [OF l]
  then show "int (length ps) = num" using ps assms(2) by simp
  show "in_order 0 ps"
    using lead ps assms(2) by (simp add: in_order_def)
  show "\<forall>p \<in> set ps. pc_Length p = int (length (pc_Data p))"
    using lead ps by auto
qed

section \<open>Partial files\<close>

text \<open>
  The loop of \<open>ReadPartialFile\<close>: a clean \<open>EOF\<close> ends it, any other error discards the
  pieces (not the bits already set); an index outside the bit field is ignored.
\<close>

function ReadPartial_loop :: "reader \<Rightarrow> bitfield \<Rightarrow> piece list \<Rightarrow> piece list result \<times> bitfield \<times> reader" where
  "ReadPartial_loop r b acc =
     (case piece_dec r of
        (Inl e, r1) \<Rightarrow>
          ((if e = EOF then Inr acc else if is_panic e then Inl e
            else Inl (Errorf ''error while loading PartialFile'')), b, r1)
      | (Inr p, r1) \<Rightarrow> (case bf_Set b (pc_Index p) True of
            Inl (Panic q) \<Rightarrow> (Inl (Panic q), b, r1)
          | Inl e \<Rightarrow> ReadPartial_loop r1 b (acc @ [p])
          | Inr b1 \<Rightarrow> ReadPartial_loop r1 b1 (acc @ [p])))"
  by pat_completeness auto
termination
proof (relation "measure (\<lambda>(r, b, acc). length (rd_data r))", goal_cases)
  case 1
  show ?case by simp
qed (auto dest!: sym [THEN piece_dec_consumes])

declare ReadPartial_loop.simps [simp del]

definition ReadPartialFile :: "reader \<Rightarrow> bitfield \<Rightarrow> piece list result \<times> bitfield \<times> reader" where
  "ReadPartialFile r b = ReadPartial_loop r b []"

fun WritePartialFiles ::
    "wstream list \<Rightarrow> piece option list \<Rightarrow> bitfield \<Rightarrow> go_error option \<times> wstream list" where
  "WritePartialFiles ws [] saved = (None, ws)"
| "WritePartialFiles ws (None # ps) saved = WritePartialFiles ws ps saved"
| "WritePartialFiles ws (Some p # ps) saved =
     (case bf_Get saved (pc_Index p) of
        Inl e \<Rightarrow> (Some (if is_panic e then e else Errorf ''error while verifying piece index in bitfield''), ws)
      | Inr True \<Rightarrow> WritePartialFiles ws ps saved
      | Inr False \<Rightarrow>
          (let fileIndex = go_div (pc_Index p) 1000
           in if fileIndex \<ge> int (length ws)
              then (Some (Errorf ''error while writing partial files, piece index''), ws)
              else case go_index ws fileIndex of
                Inl e \<Rightarrow> (Some e, ws)
              | Inr w \<Rightarrow> (case Serialize p of
                    Inl e \<Rightarrow> (Some e, ws)
                  | Inr bs \<Rightarrow> (case w_write bs w of
                      (Some e, w1) \<Rightarrow>
                        (Some (Errorf ''error while writing partial file''), ws[nat fileIndex := w1])
                    | (None, w1) \<Rightarrow>
                        WritePartialFiles (ws[nat fileIndex := w1]) ps saved))))"

text \<open>The pieces of \<open>data\<close> a call writes to file \<open>k\<close>, in order.\<close>

definition in_part :: "nat \<Rightarrow> piece \<Rightarrow> bool" where
  "in_part k p \<longleftrightarrow> pc_Index p div 1000 = int k"

definition unsaved :: "bitfield \<Rightarrow> piece option list \<Rightarrow> piece list" where
  "unsaved saved ps = filter (\<lambda>p. pc_Index p \<notin> bf_members saved) (concat (map (\<lambda>x. case x of None \<Rightarrow> [] | Some p \<Rightarrow> [p]) ps))"

lemma unsaved_simps [simp]:
  "unsaved saved [] = []"
  "unsaved saved (None # ps) = unsaved saved ps"
  "unsaved saved (Some p # ps) =
    (if pc_Index p \<in> bf_members saved then unsaved saved ps else p # unsaved saved ps)"
  by (simp_all add: unsaved_def)

text \<open>
  With writers that do not fail and indices inside the bit field and the files, the call
  succeeds and appends to every file the frames of its unsaved pieces, and nothing else.
\<close>

lemma WritePartialFiles_reliable:
  assumes "bf_wf saved" and "\<forall>w \<in> set ws. w_reliable w"
    and "\<forall>p. Some p \<in> set ps \<longrightarrow> 0 \<le> pc_Index p \<and> pc_Index p < bf_Length saved
      \<and> pc_Index p div 1000 < int (length ws) \<and> 0 \<le> pc_Length p"
  shows "\<exists>ws'. WritePartialFiles ws ps saved = (None, ws') \<and> length ws' = length ws
    \<and> (\<forall>w \<in> set ws'. w_reliable w)
    \<and> (\<forall>k < length ws. w_out (ws' ! k) = w_out (ws ! k)
        @ concat (map piece_frame (filter (in_part k) (unsaved saved ps))))"
  using assms(2,3)
proof (induction ps arbitrary: ws)
  case Nil
  then show ?case by simp
next
  case (Cons x ps)
  show ?case
  proof (cases "x = None \<or> (\<exists>p. x = Some p \<and> pc_Index p \<in> bf_members saved)")
    case True
    with Cons show ?thesis
      by (auto simp: bf.get_in [OF assms(1)])
  next
    case False
    then obtain p where x: "x = Some p" and new: "pc_Index p \<notin> bf_members saved" by auto
    have p: "0 \<le> pc_Index p" "pc_Index p < bf_Length saved" "pc_Index p div 1000 < int (length ws)"
        "0 \<le> pc_Length p"
      using Cons.prems(2) x by auto
    let ?k = "nat (pc_Index p div 1000)"
    let ?w = "(ws ! ?k)\<lparr>w_out := w_out (ws ! ?k) @ piece_frame p\<rparr>"
    have k: "?k < length ws" "int ?k = pc_Index p div 1000" using p by auto
    have rel: "w_reliable (ws ! ?k)" using k Cons.prems(1) by simp
    have step: "WritePartialFiles ws (x # ps) saved = WritePartialFiles (ws[?k := ?w]) ps saved"
      using p new rel by (simp add: x bf.get_in [OF assms(1)] Serialize_frame Let_def)
    have "\<forall>w \<in> set (ws[?k := ?w]). w_reliable w"
      using Cons.prems(1) rel by (auto dest!: set_update_subset_insert [THEN subsetD])
    then obtain ws' where ws': "WritePartialFiles (ws[?k := ?w]) ps saved = (None, ws')"
        "length ws' = length ws" "\<forall>w \<in> set ws'. w_reliable w"
        "\<forall>j < length ws. w_out (ws' ! j) = w_out (ws[?k := ?w] ! j)
          @ concat (map piece_frame (filter (in_part j) (unsaved saved ps)))"
      using Cons.IH [of "ws[?k := ?w]"] Cons.prems(2) by auto
    have "w_out (ws[?k := ?w] ! j) = w_out (ws ! j) @ (if in_part j p then piece_frame p else [])"
      if "j < length ws" for j
      using that k by (cases "j = ?k") (auto simp: in_part_def)
    with ws' step new show ?thesis by (auto simp: x)
  qed
qed

text \<open>Setting the bits of a list of indices, as the reading loop does.\<close>

fun set_bits :: "bitfield \<Rightarrow> int list \<Rightarrow> bitfield" where
  "set_bits b [] = b"
| "set_bits b (i # is) = (case bf_Set b i True of Inr b1 \<Rightarrow> set_bits b1 is | Inl e \<Rightarrow> set_bits b is)"

lemma set_bits_spec:
  assumes "bf_wf b" and "\<forall>i \<in> set is. 0 \<le> i"
  shows "bf_wf (set_bits b is) \<and> bf_Length (set_bits b is) = bf_Length b
    \<and> bf_members (set_bits b is) = bf_members b \<union> {i \<in> set is. i < bf_Length b}"
  using assms
proof (induction "is" arbitrary: b)
  case Nil
  then show ?case by simp
next
  case (Cons i "is")
  show ?case
  proof (cases "bf_Set b i True")
    case (Inl e)
    then have "\<not> i < bf_Length b" using bf.upd_in [of b i True] Cons.prems by auto
    with Inl Cons show ?thesis by auto
  next
    case (Inr b1)
    note b1 = bf.upd_Inr [OF Cons.prems(1) _ Inr]
    from Cons.prems b1 Cons.IH [of b1] Inr show ?thesis by auto
  qed
qed

text \<open>The round trip: a partial file of frames is read back as its pieces, whose bits get set.\<close>

lemma ReadPartial_loop_frames:
  assumes "\<forall>p \<in> set ps. piece_storable p" and "plain_reader r"
    and "rd_data r = concat (map piece_frame ps)" and "rd_end r = EOF" and "bf_wf b"
  shows "\<exists>r'. ReadPartial_loop r b acc = (Inr (acc @ ps), set_bits b (map pc_Index ps), r')"
  using assms
proof (induction ps arbitrary: r b acc)
  case Nil
  then have "fst (piece_dec r) = Inl EOF" by (simp add: piece_codec.dec_eof)
  then show ?case by (subst ReadPartial_loop.simps) (auto split: prod.split)
next
  case (Cons p ps)
  then obtain r1 where r1: "piece_dec r = (Inr p, r1)" "rd_data r1 = concat (map piece_frame ps)"
      "rd_end r1 = EOF" "plain_reader r1"
    using piece_codec.dec_enc [of p r "concat (map piece_frame ps)"] by auto
  have ix: "0 \<le> pc_Index p" using Cons.prems(1) by (simp add: piece_storable_def)
  show ?case
  proof (cases "bf_Set b (pc_Index p) True")
    case (Inl e)
    then have "\<not> is_panic e"
      using bf.upd_no_panic [OF Cons.prems(5) ix, of True] by (cases e) auto
    then have "ReadPartial_loop r b acc = ReadPartial_loop r1 b (acc @ [p])"
      using r1(1) Inl by (subst ReadPartial_loop.simps) (cases e; simp)
    with Cons.IH [of r1 b "acc @ [p]"] Cons.prems r1 Inl show ?thesis by simp
  next
    case (Inr b1)
    then have "ReadPartial_loop r b acc = ReadPartial_loop r1 b1 (acc @ [p])"
      using r1(1) by (subst ReadPartial_loop.simps) simp
    with Cons.IH [of r1 b1 "acc @ [p]"] Cons.prems r1 Inr bf.upd_Inr(2) [OF Cons.prems(5) ix Inr]
    show ?thesis by simp
  qed
qed

lemma ReadPartialFile_frames:
  assumes "\<forall>p \<in> set ps. piece_storable p" and "plain_reader r"
    and "rd_data r = concat (map piece_frame ps)" and "rd_end r = EOF" and "bf_wf b"
  shows "\<exists>r'. ReadPartialFile r b = (Inr ps, set_bits b (map pc_Index ps), r')"
  using ReadPartial_loop_frames [OF assms, of "[]"] by (simp add: ReadPartialFile_def)

text \<open>A partial file does not keep which peer a piece came from.\<close>

definition on_disk :: "piece \<Rightarrow> piece" where
  "on_disk p = p\<lparr>pc_From := ''''\<rparr>"

lemma on_disk_simps [simp]:
  "piece_frame (on_disk p) = piece_frame p"
  "pc_Index (on_disk p) = pc_Index p" "pc_Data (on_disk p) = pc_Data p" "pc_Length (on_disk p) = pc_Length p"
  by (simp_all add: on_disk_def piece_frame_def)

lemma map_frame_on_disk [simp]: "map piece_frame (map on_disk ps) = map piece_frame ps"
  by simp

lemma set_unsaved: "p \<in> set (unsaved saved ps) \<longleftrightarrow> Some p \<in> set ps \<and> pc_Index p \<notin> bf_members saved"
  by (force simp: unsaved_def split: option.splits)

end
