(* ===== verification/Peer_Protocol.thy ===== *)
theory Peer_Protocol
  imports Torrent_Types
begin

text \<open>
  \<open>bittorrent/peer_protocol.go\<close>: the handshake, the messages and their payloads, and the
  two ways to open a connection. Each function is a definition of the same name; a connection
  is a reader, a writer and an address. \<open>DeserializeMessage\<close> and \<open>deserializeHandshake\<close>
  are interpreted as decoders of framed streams, for every segmentation of the bytes.
\<close>

section \<open>Connections and byte strings\<close>

record conn =
  c_rd :: reader
  c_wr :: wstream
  c_addr :: addr

definition bytes_of_string :: "string \<Rightarrow> byte list" where
  "bytes_of_string s = map of_char s"

definition string_of_bytes :: "byte list \<Rightarrow> string" where
  "string_of_bytes bs = map (\<lambda>b. char_of (unat b)) bs"

lemma length_bytes_of_string [simp]: "length (bytes_of_string s) = length s"
  by (simp add: bytes_of_string_def)

lemma length_string_of_bytes [simp]: "length (string_of_bytes s) = length s"
  by (simp add: string_of_bytes_def)

lemma unat_of_char: "unat (of_char c :: byte) = of_char c"
proof -
  have "(of_char c :: nat) < 2 ^ 8" using nat_of_char_less_256 [of c] by simp
  moreover have "(of_char c :: byte) = of_nat (of_char c)" by (simp only: of_nat_of_char)
  ultimately show ?thesis by (simp add: unat_of_nat take_bit_nat_eq_self)
qed

lemma string_of_bytes_of_string [simp]: "string_of_bytes (bytes_of_string s) = s"
  by (simp add: string_of_bytes_def bytes_of_string_def unat_of_char o_def)

section \<open>The handshake\<close>

definition ProtocolNumber :: nat where "ProtocolNumber = 19"
definition ProtocolLength :: nat where "ProtocolLength = 48"
definition ProtocolString :: string where "ProtocolString = ''BitTorrent protocol''"

record handshake =
  hs_Extensions :: "byte list"
  hs_InfoHash :: hash
  hs_PeerId :: "byte list"

definition serializeHandshake :: "handshake \<Rightarrow> byte list result" where
  "serializeHandshake h =
     (if length ProtocolString \<noteq> ProtocolNumber then Inl (Errorf ''error while writing into buffer'')
      else if length (hs_Extensions h) \<noteq> 8 then Inl (Errorf ''error while writing into buffer'')
      else Inr (of_nat ProtocolNumber # bytes_of_string ProtocolString
        @ hs_Extensions h @ hs_InfoHash h @ hs_PeerId h))"

definition deserializeHandshake :: "reader \<Rightarrow> handshake result \<times> reader" where
  "deserializeHandshake r =
     (case read_full 1 r of
        (Inl e, r1) \<Rightarrow> (Inl (Errorf ''handshake first byte read failed''), r1)
      | (Inr lenBuf, r1) \<Rightarrow>
          if unat (lenBuf ! 0) \<noteq> ProtocolNumber
          then (Inl (Errorf ''handshake is not the BitTorrent protocol''), r1)
          else (case read_full (ProtocolNumber + ProtocolLength) r1 of
             (Inl e, r2) \<Rightarrow> (Inl (Errorf ''hanshake data read failed''), r2)
           | (Inr buf, r2) \<Rightarrow>
               if string_of_bytes (take ProtocolNumber buf) \<noteq> ProtocolString
               then (Inl (Errorf ''hanshake does not contain the correct string''), r2)
               else (Inr \<lparr>hs_Extensions = take 8 (drop ProtocolNumber buf),
                          hs_InfoHash = take 20 (drop (ProtocolNumber + 8) buf),
                          hs_PeerId = take 20 (drop (ProtocolNumber + 28) buf)\<rparr>, r2)))"

definition acceptHandshake :: "conn \<Rightarrow> hash \<Rightarrow> peer result \<times> conn" where
  "acceptHandshake c infoHash =
     (case deserializeHandshake (c_rd c) of
        (Inl e, r) \<Rightarrow> (Inl (Errorf ''error getting handshake''), c\<lparr>c_rd := r\<rparr>)
      | (Inr h, r) \<Rightarrow>
          if hs_InfoHash h \<noteq> infoHash
          then (Inl (Errorf ''handshake refused, got incorrect info-hash''), c\<lparr>c_rd := r\<rparr>)
          else (Inr \<lparr>pr_Downloaded = 0, pr_ChokedBy = True, pr_Choking = True,
                  pr_Interested = False, pr_InterestedSent = False,
                  pr_Bitfield = \<lparr>bf_Length = 0, bf_data = []\<rparr>,
                  pr_ID = string_of_bytes (hs_PeerId h), pr_Addr = c_addr c\<rparr>, c\<lparr>c_rd := r\<rparr>))"

text \<open>\<open>[20]byte([]byte(peerId))\<close> panics when the identifier has fewer than 20 bytes.\<close>

definition sendHandshake :: "conn \<Rightarrow> string \<Rightarrow> hash \<Rightarrow> go_error option \<times> conn" where
  "sendHandshake c peerId infoHash =
     (if length peerId < 20 then (Some (Panic SliceBounds), c)
      else case serializeHandshake \<lparr>hs_Extensions = replicate 8 0, hs_InfoHash = infoHash,
                   hs_PeerId = take 20 (bytes_of_string peerId)\<rparr> of
        Inl e \<Rightarrow> (Some (if is_panic e then e else Errorf ''error serializing handshake''), c)
      | Inr bs \<Rightarrow> (case w_write bs (c_wr c) of
            (Some e, w) \<Rightarrow> (Some (Errorf ''error sending handshake over TCP''), c\<lparr>c_wr := w\<rparr>)
          | (None, w) \<Rightarrow> (None, c\<lparr>c_wr := w\<rparr>)))"

section \<open>Messages\<close>

definition MsgChoke :: byte where "MsgChoke = 0"
definition MsgUnchoke :: byte where "MsgUnchoke = 1"
definition MsgInterested :: byte where "MsgInterested = 2"
definition MsgNotInterested :: byte where "MsgNotInterested = 3"
definition MsgHave :: byte where "MsgHave = 4"
definition MsgBitfield :: byte where "MsgBitfield = 5"
definition MsgRequest :: byte where "MsgRequest = 6"
definition MsgPiece :: byte where "MsgPiece = 7"
definition MsgCancel :: byte where "MsgCancel = 8"

lemmas msg_codes [simp] = MsgChoke_def MsgUnchoke_def MsgInterested_def MsgNotInterested_def
  MsgHave_def MsgBitfield_def MsgRequest_def MsgPiece_def MsgCancel_def

definition CodeToString :: "byte \<Rightarrow> string" where
  "CodeToString code =
     (if code = MsgChoke then ''CHOKE''
      else if code = MsgUnchoke then ''UNCHOKE''
      else if code = MsgInterested then ''INTERESTED''
      else if code = MsgNotInterested then ''NOT INTERESTED''
      else if code = MsgHave then ''HAVE''
      else if code = MsgBitfield then ''BITFIELD''
      else if code = MsgRequest then ''REQUEST''
      else if code = MsgPiece then ''PIECE''
      else if code = MsgCancel then ''CANCEL''
      else ''UNKNOWN'')"

record peer_message =
  pm_KeepAlive :: bool
  pm_Code :: byte
  pm_Data :: "byte list"

text \<open>
  The length prefix and the size of the buffer are \<open>uint32\<close>: both wrap around for data of
  four gigabytes.
\<close>

definition SerializeMessage :: "peer_message \<Rightarrow> byte list result" where
  "SerializeMessage msg =
     (let payloadLength = uint32_of (1 + int (length (pm_Data msg)));
          size = unat (4 + payloadLength)
      in if size < 4 then Inl (Panic SliceBounds)
         else if size < 5 then Inl (Panic IndexOutOfRange)
         else let copied = min (size - 5) (length (pm_Data msg))
              in if copied \<noteq> length (pm_Data msg)
                 then Inl (Errorf ''did not copy the whole message'')
                 else Inr (be_put32 payloadLength @ [pm_Code msg] @ take copied (pm_Data msg)
                   @ replicate (size - 5 - copied) 0))"

definition DeserializeMessage :: "reader \<Rightarrow> peer_message result \<times> reader" where
  "DeserializeMessage r =
     (case read_full 4 r of
        (Inl e, r1) \<Rightarrow>
          (Inl (if e = EOF then EOF else Errorf ''error while reading message length''), r1)
      | (Inr lengthBuf, r1) \<Rightarrow>
          (case be_get32 lengthBuf of
             Inl e \<Rightarrow> (Inl e, r1)
           | Inr len \<Rightarrow>
             if len = 0 then (Inr \<lparr>pm_KeepAlive = True, pm_Code = 0, pm_Data = []\<rparr>, r1)
             else (case read_full 1 r1 of
                (Inl e, r2) \<Rightarrow>
                  (Inl (if e = EOF then EOF else Errorf ''error while reading message code''), r2)
              | (Inr codeBuf, r2) \<Rightarrow>
                  if len - 1 > 0
                  then (case read_full (unat (len - 1)) r2 of
                     (Inl e, r3) \<Rightarrow>
                       (Inl (if e = EOF then EOF else Errorf ''error while reading message data''), r3)
                   | (Inr dataBuf, r3) \<Rightarrow>
                       (Inr \<lparr>pm_KeepAlive = False, pm_Code = codeBuf ! 0, pm_Data = dataBuf\<rparr>, r3))
                  else (Inr \<lparr>pm_KeepAlive = False, pm_Code = codeBuf ! 0, pm_Data = []\<rparr>, r2))))"

definition SerializePieceMsg :: "peer_message \<Rightarrow> int \<Rightarrow> int \<Rightarrow> byte list \<Rightarrow> peer_message" where
  "SerializePieceMsg msg index begin piece =
     msg\<lparr>pm_Data := be_put32 (uint32_of index) @ be_put32 (uint32_of begin) @ piece\<rparr>"

definition DeserializePieceMsg :: "peer_message \<Rightarrow> (int \<times> int \<times> byte list) result" where
  "DeserializePieceMsg msg =
     (if pm_Code msg \<noteq> MsgPiece
      then Inl (Errorf ''cannot deserialize piece message on a non-piece message'')
      else if length (pm_Data msg) \<le> 8 then Inl (Errorf ''malformed piece message, too short'')
      else bind_result (be_get32 (take 4 (pm_Data msg))) (\<lambda>index.
           bind_result (be_get32 (take 4 (drop 4 (pm_Data msg)))) (\<lambda>begin.
             Inr (uint index, uint begin, drop 8 (pm_Data msg)))))"

definition SerializeRequestMsg :: "peer_message \<Rightarrow> int \<Rightarrow> int \<Rightarrow> int \<Rightarrow> peer_message" where
  "SerializeRequestMsg msg index begin len =
     msg\<lparr>pm_Data := be_put32 (uint32_of index) @ be_put32 (uint32_of begin) @ be_put32 (uint32_of len)\<rparr>"

definition DeserializeRequestMsg :: "peer_message \<Rightarrow> (int \<times> int \<times> int) result" where
  "DeserializeRequestMsg msg =
     (if length (pm_Data msg) < 12 then Inl (Errorf ''message data too short, expected 12B'')
      else bind_result (be_get32 (take 4 (pm_Data msg))) (\<lambda>index.
           bind_result (be_get32 (take 4 (drop 4 (pm_Data msg)))) (\<lambda>begin.
           bind_result (be_get32 (take 4 (drop 8 (pm_Data msg)))) (\<lambda>len.
             Inr (uint index, uint begin, uint len)))))"

section \<open>Opening a connection\<close>

definition sendBitfield :: "conn \<Rightarrow> results \<Rightarrow> go_error option \<times> conn" where
  "sendBitfield c res =
     (case SerializeMessage \<lparr>pm_KeepAlive = False, pm_Code = MsgBitfield,
                pm_Data = bf_Bytes (rs_Bitfield res)\<rparr> of
        Inl e \<Rightarrow> (Some (if is_panic e then e else Errorf ''error while serializing bitfield message''), c)
      | Inr bs \<Rightarrow> (case w_write bs (c_wr c) of
            (Some e, w) \<Rightarrow> (Some (Errorf ''error while sending bitfield message''), c\<lparr>c_wr := w\<rparr>)
          | (None, w) \<Rightarrow> (None, c\<lparr>c_wr := w\<rparr>)))"



definition AcceptConnection ::
    "conn \<Rightarrow> torrent_file \<Rightarrow> results \<Rightarrow> string \<Rightarrow> peer result \<times> conn" where
  "AcceptConnection c t res peerId =
     (case acceptHandshake c (tf_InfoHash t) of
        (Inl e, c1) \<Rightarrow> (Inl (rewrap ''error while getting handshake'' e), c1)
      | (Inr p, c1) \<Rightarrow> (case sendHandshake c1 peerId (tf_InfoHash t) of
          (Some e, c2) \<Rightarrow> (Inl (rewrap ''error while sending handshake'' e), c2)
        | (None, c2) \<Rightarrow> (case sendBitfield c2 res of
            (Some e, c3) \<Rightarrow> (Inl (rewrap ''error while sending bitfield'' e), c3)
          | (None, c3) \<Rightarrow> (Inr p, c3))))"

definition InitiateConnection ::
    "conn \<Rightarrow> torrent_file \<Rightarrow> results \<Rightarrow> string \<Rightarrow> peer result \<times> conn" where
  "InitiateConnection c t res peerId =
     (case sendHandshake c peerId (tf_InfoHash t) of
        (Some e, c1) \<Rightarrow> (Inl (rewrap ''error while sending handshake'' e), c1)
      | (None, c1) \<Rightarrow> (case acceptHandshake c1 (tf_InfoHash t) of
          (Inl e, c2) \<Rightarrow> (Inl (rewrap ''error while getting handshake'' e), c2)
        | (Inr p, c2) \<Rightarrow> (case sendBitfield c2 res of
            (Some e, c3) \<Rightarrow> (Inl (rewrap ''error while sending bitfield'' e), c3)
          | (None, c3) \<Rightarrow> (Inr p, c3))))"

section \<open>Messages as frames\<close>

definition message_ok :: "peer_message \<Rightarrow> bool" where
  "message_ok m \<longleftrightarrow> (if pm_KeepAlive m then pm_Code m = 0 \<and> pm_Data m = []
     else length (pm_Data m) + 5 < 2 ^ 32)"

definition message_frame :: "peer_message \<Rightarrow> byte list" where
  "message_frame m = (if pm_KeepAlive m then be_put32 0
     else be_put32 (uint32_of (1 + int (length (pm_Data m)))) @ pm_Code m # pm_Data m)"

lemma SerializeMessage_frame:
  assumes "message_ok m" and "\<not> pm_KeepAlive m"
  shows "SerializeMessage m = Inr (message_frame m)"
proof -
  let ?n = "length (pm_Data m)"
  have n: "?n + 5 < 2 ^ 32" using assms by (simp add: message_ok_def)
  have "(4 :: 32 word) + uint32_of (1 + int ?n) = word_of_nat (?n + 5)"
    by (simp add: uint32_of_def)
  then have "unat (4 + uint32_of (1 + int ?n)) = ?n + 5"
    using n by (simp only: unat_of_nat) (simp add: take_bit_nat_eq_self)
  then show ?thesis
    using assms(2) by (simp add: SerializeMessage_def Let_def message_frame_def)
qed

lemma DeserializeMessage_frame:
  assumes "message_ok m" and "rd_data r = message_frame m @ rest"
  shows "\<exists>r'. DeserializeMessage r = (Inr m, r') \<and> rd_data r' = rest \<and> rd_end r' = rd_end r"
proof (cases "pm_KeepAlive m")
  case True
  then have m: "m = \<lparr>pm_KeepAlive = True, pm_Code = 0, pm_Data = []\<rparr>"
    using assms(1) by (cases m) (simp add: message_ok_def)
  have "rd_data r = be_put32 0 @ rest" using assms(2) True by (simp add: message_frame_def)
  then obtain r1 where "read_full 4 r = (Inr (be_put32 0), r1)" "rd_data r1 = rest" "rd_end r1 = rd_end r"
    by (rule read_full_append) simp_all
  then show ?thesis by (simp add: DeserializeMessage_def m)
next
  case False
  define n where "n = length (pm_Data m)"
  define len where "len = uint32_of (1 + int n)"
  have n: "n + 5 < 2 ^ 32" using assms(1) False by (simp add: message_ok_def n_def)
  have m: "m = \<lparr>pm_KeepAlive = False, pm_Code = pm_Code m, pm_Data = pm_Data m\<rparr>"
    using False by (cases m) simp
  have len1: "len - 1 = word_of_nat n" by (simp add: len_def uint32_of_def)
  have ulen1: "unat (len - 1) = n" unfolding len1 using n by (simp add: unat_of_nat take_bit_nat_eq_self)
  have "unat len = n + 1" using n by (simp add: len_def uint_unat_eq nat_add_distrib)
  then have len0: "len \<noteq> 0" by auto
  have pos: "len - 1 > 0 \<longleftrightarrow> n > 0" using ulen1 by (metis unat_gt_0 word_greater_zero_iff gr0I less_irrefl)
  have "rd_data r = be_put32 len @ (pm_Code m # pm_Data m @ rest)"
    using assms(2) False by (simp add: message_frame_def len_def n_def)
  then obtain r1 where r1: "read_full 4 r = (Inr (be_put32 len), r1)"
      "rd_data r1 = [pm_Code m] @ (pm_Data m @ rest)" "rd_end r1 = rd_end r"
    by (rule read_full_append) simp_all
  obtain r2 where r2: "read_full 1 r1 = (Inr [pm_Code m], r2)"
      "rd_data r2 = pm_Data m @ rest" "rd_end r2 = rd_end r1"
    using r1(2) by (rule read_full_append) simp_all
  show ?thesis
  proof (cases "n = 0")
    case True
    then have "pm_Data m = []" by (simp add: n_def)
    with True r1 r2 len0 pos m show ?thesis by (simp add: DeserializeMessage_def)
  next
    case n0: False
    obtain r3 where r3: "read_full n r2 = (Inr (pm_Data m), r3)" "rd_data r3 = rest" "rd_end r3 = rd_end r2"
      using r2(2) by (rule read_full_append) (simp_all add: n_def)
    with n0 r1 r2 len0 pos m ulen1 show ?thesis by (simp add: DeserializeMessage_def)
  qed
qed

lemma DeserializeMessage_eof:
  "rd_data r = [] \<Longrightarrow> rd_end r = EOF \<Longrightarrow> fst (DeserializeMessage r) = Inl EOF"
  by (cases rule: read_full_cases [of 4 r]) (simp_all add: DeserializeMessage_def)

interpretation message_codec: frame_codec message_frame DeserializeMessage message_ok "\<lambda>r. True"
  by unfold_locales (use DeserializeMessage_frame DeserializeMessage_eof in auto)

text \<open>Every message read consumes at least its length prefix.\<close>

lemma read_full_data_le: "read_full n r = (x, r') \<Longrightarrow> length (rd_data r') \<le> length (rd_data r)"
  using rd_data_read_full [of n r] by simp

lemma DeserializeMessage_consumes:
  assumes "DeserializeMessage r = (Inr m, r')"
  shows "length (rd_data r') + 4 \<le> length (rd_data r)"
proof (cases rule: read_full_cases [of 4 r])
  case (full r1)
  then have r1: "length (rd_data r1) + 4 \<le> length (rd_data r)" by simp
  moreover have "length (rd_data r') \<le> length (rd_data r1)"
    using assms full(2)
    by (auto simp: DeserializeMessage_def split: sum.splits prod.splits if_splits
        dest!: read_full_data_le)
  ultimately show ?thesis by simp
next
  case (short r1)
  with assms show ?thesis by (simp add: DeserializeMessage_def)
qed

section \<open>Payloads\<close>

lemma DeserializeMessage_no_panic:
  assumes "DeserializeMessage r = (Inl e, r')"
  shows "\<not> is_panic e"
proof (cases rule: read_full_cases [of 4 r])
  case (full r1)
  then obtain v where "be_get32 (take 4 (rd_data r)) = Inr v" using be_get32_Inr by fastforce
  with full assms show ?thesis
    by (auto simp: DeserializeMessage_def split: sum.splits prod.splits if_splits)
next
  case (short r1)
  with assms show ?thesis by (auto simp: DeserializeMessage_def split: if_splits)
qed

lemma DeserializePieceMsg_Serialize:
  assumes "pm_Code msg = MsgPiece" and "0 \<le> index" "index < 2 ^ 32" and "0 \<le> begin" "begin < 2 ^ 32"
    and "piece \<noteq> []"
  shows "DeserializePieceMsg (SerializePieceMsg msg index begin piece) = Inr (index, begin, piece)"
  using assms by (cases piece) (simp_all add: DeserializePieceMsg_def SerializePieceMsg_def)

lemma DeserializeRequestMsg_Serialize:
  assumes "0 \<le> index" "index < 2 ^ 32" and "0 \<le> begin" "begin < 2 ^ 32" and "0 \<le> len" "len < 2 ^ 32"
  shows "DeserializeRequestMsg (SerializeRequestMsg msg index begin len) = Inr (index, begin, len)"
  using assms by (simp add: DeserializeRequestMsg_def SerializeRequestMsg_def)

text \<open>The payload parsers never panic, whatever the peer sent, and their integers are \<open>uint32\<close>.\<close>

lemma DeserializeRequestMsg_total:
  "DeserializeRequestMsg msg = Inl e \<Longrightarrow> \<not> is_panic e"
  "DeserializeRequestMsg msg = Inr (i, b, l) \<Longrightarrow>
     0 \<le> i \<and> i < 2 ^ 32 \<and> 0 \<le> b \<and> b < 2 ^ 32 \<and> 0 \<le> l \<and> l < 2 ^ 32"
proof -
  have u: "0 \<le> uint w \<and> uint w < 2 ^ 32" for w :: "32 word"
    using uint_lt2p [of w] by simp
  obtain v1 v2 v3 where v: "12 \<le> length (pm_Data msg) \<Longrightarrow>
      be_get32 (take 4 (pm_Data msg)) = Inr v1 \<and> be_get32 (take 4 (drop 4 (pm_Data msg))) = Inr v2
      \<and> be_get32 (take 4 (drop 8 (pm_Data msg))) = Inr v3"
    using be_get32_Inr [of "take 4 (pm_Data msg)"] be_get32_Inr [of "take 4 (drop 4 (pm_Data msg))"]
      be_get32_Inr [of "take 4 (drop 8 (pm_Data msg))"] by fastforce
  show "DeserializeRequestMsg msg = Inl e \<Longrightarrow> \<not> is_panic e"
    using v by (auto simp: DeserializeRequestMsg_def split: if_splits)
  show "DeserializeRequestMsg msg = Inr (i, b, l) \<Longrightarrow>
     0 \<le> i \<and> i < 2 ^ 32 \<and> 0 \<le> b \<and> b < 2 ^ 32 \<and> 0 \<le> l \<and> l < 2 ^ 32"
    using u by (auto simp: DeserializeRequestMsg_def split: if_splits)
qed

lemma DeserializePieceMsg_total:
  "DeserializePieceMsg msg = Inl e \<Longrightarrow> \<not> is_panic e"
  "DeserializePieceMsg msg = Inr (i, b, d) \<Longrightarrow>
     0 \<le> i \<and> i < 2 ^ 32 \<and> 0 \<le> b \<and> b < 2 ^ 32 \<and> d \<noteq> []"
proof -
  have u: "0 \<le> uint w \<and> uint w < 2 ^ 32" for w :: "32 word"
    using uint_lt2p [of w] by simp
  obtain v1 v2 where v: "8 < length (pm_Data msg) \<Longrightarrow>
      be_get32 (take 4 (pm_Data msg)) = Inr v1 \<and> be_get32 (take 4 (drop 4 (pm_Data msg))) = Inr v2"
    using be_get32_Inr [of "take 4 (pm_Data msg)"] be_get32_Inr [of "take 4 (drop 4 (pm_Data msg))"]
    by fastforce
  show "DeserializePieceMsg msg = Inl e \<Longrightarrow> \<not> is_panic e"
    using v by (auto simp: DeserializePieceMsg_def split: if_splits)
  show "DeserializePieceMsg msg = Inr (i, b, d) \<Longrightarrow>
     0 \<le> i \<and> i < 2 ^ 32 \<and> 0 \<le> b \<and> b < 2 ^ 32 \<and> d \<noteq> []"
    using u by (auto simp: DeserializePieceMsg_def split: if_splits)
qed

section \<open>The handshake as a frame\<close>

definition handshake_ok :: "handshake \<Rightarrow> bool" where
  "handshake_ok h \<longleftrightarrow> length (hs_Extensions h) = 8 \<and> length (hs_InfoHash h) = 20
     \<and> length (hs_PeerId h) = 20"

definition handshake_frame :: "handshake \<Rightarrow> byte list" where
  "handshake_frame h = 19 # bytes_of_string ProtocolString
     @ hs_Extensions h @ hs_InfoHash h @ hs_PeerId h"

lemma length_ProtocolString: "length ProtocolString = ProtocolNumber"
  by (simp add: ProtocolString_def ProtocolNumber_def)

lemma serializeHandshake_frame:
  "length (hs_Extensions h) = 8 \<Longrightarrow> serializeHandshake h = Inr (handshake_frame h)"
  by (simp add: serializeHandshake_def handshake_frame_def length_ProtocolString)
     (simp add: ProtocolNumber_def)

lemma length_handshake_frame: "handshake_ok h \<Longrightarrow> length (handshake_frame h) = 68"
  by (simp add: handshake_frame_def handshake_ok_def length_ProtocolString ProtocolNumber_def)

lemma deserializeHandshake_frame:
  assumes "handshake_ok h" and "rd_data r = handshake_frame h @ rest"
  shows "\<exists>r'. deserializeHandshake r = (Inr h, r') \<and> rd_data r' = rest \<and> rd_end r' = rd_end r"
proof -
  let ?body = "bytes_of_string ProtocolString @ hs_Extensions h @ hs_InfoHash h @ hs_PeerId h"
  have len: "length ?body = ProtocolNumber + ProtocolLength"
    using assms(1) by (simp add: handshake_ok_def length_ProtocolString ProtocolLength_def)
  have "rd_data r = [19] @ (?body @ rest)" using assms(2) by (simp add: handshake_frame_def)
  then obtain r1 where r1: "read_full 1 r = (Inr [19], r1)" "rd_data r1 = ?body @ rest" "rd_end r1 = rd_end r"
    by (rule read_full_append) simp_all
  obtain r2 where r2: "read_full (ProtocolNumber + ProtocolLength) r1 = (Inr ?body, r2)"
      "rd_data r2 = rest" "rd_end r2 = rd_end r1"
    using r1(2) len by (rule read_full_append)
  have take: "take ProtocolNumber ?body = bytes_of_string ProtocolString"
    by (simp add: length_ProtocolString)
  have "h = \<lparr>hs_Extensions = take 8 (drop ProtocolNumber ?body),
      hs_InfoHash = take 20 (drop (ProtocolNumber + 8) ?body),
      hs_PeerId = take 20 (drop (ProtocolNumber + 28) ?body)\<rparr>"
    using assms(1) by (cases h) (simp add: handshake_ok_def length_ProtocolString)
  then show ?thesis
    using r1 r2 take by (simp add: deserializeHandshake_def) (simp add: ProtocolNumber_def)
qed

lemma deserializeHandshake_empty:
  "rd_data r = [] \<Longrightarrow> \<exists>m r'. deserializeHandshake r = (Inl (Errorf m), r')"
  by (cases rule: read_full_cases [of 1 r]) (auto simp: deserializeHandshake_def)

text \<open>What a successful parse tells about the bytes: exactly the 68 of a handshake were read.\<close>

lemma deserializeHandshake_Inr:
  assumes "deserializeHandshake r = (Inr h, r')"
  shows "handshake_ok h \<and> rd_data r' = drop 68 (rd_data r) \<and> 68 \<le> length (rd_data r)"
proof -
  obtain b r1 where r1: "read_full 1 r = (Inr b, r1)" "unat (b ! 0) = ProtocolNumber"
    using assms by (auto simp: deserializeHandshake_def split: sum.splits prod.splits if_splits)
  obtain buf r2 where r2: "read_full 67 r1 = (Inr buf, r2)" "r2 = r'"
      "h = \<lparr>hs_Extensions = take 8 (drop 19 buf), hs_InfoHash = take 20 (drop 27 buf),
            hs_PeerId = take 20 (drop 47 buf)\<rparr>"
    using assms r1 by (auto simp: deserializeHandshake_def ProtocolNumber_def ProtocolLength_def
        split: sum.splits prod.splits if_splits)
  have "1 \<le> length (rd_data r)" "rd_data r1 = drop 1 (rd_data r)"
    using r1(1) by (cases rule: read_full_cases [of 1 r]; simp)+
  moreover have "67 \<le> length (rd_data r1)" "rd_data r2 = drop 67 (rd_data r1)" "length buf = 67"
    using r2(1) by (cases rule: read_full_cases [of 67 r1]; auto)+
  ultimately show ?thesis using r2(2,3) by (simp add: handshake_ok_def)
qed

section \<open>Both sides of an opening connection\<close>

definition own_handshake :: "string \<Rightarrow> hash \<Rightarrow> handshake" where
  "own_handshake peerId infoHash = \<lparr>hs_Extensions = replicate 8 0, hs_InfoHash = infoHash,
     hs_PeerId = take 20 (bytes_of_string peerId)\<rparr>"

definition bitfield_message :: "results \<Rightarrow> peer_message" where
  "bitfield_message res = \<lparr>pm_KeepAlive = False, pm_Code = MsgBitfield, pm_Data = bf_Bytes (rs_Bitfield res)\<rparr>"

definition fresh_peer :: "string \<Rightarrow> addr \<Rightarrow> peer" where
  "fresh_peer ident a = \<lparr>pr_Downloaded = 0, pr_ChokedBy = True, pr_Choking = True,
     pr_Interested = False, pr_InterestedSent = False,
     pr_Bitfield = \<lparr>bf_Length = 0, bf_data = []\<rparr>, pr_ID = ident, pr_Addr = a\<rparr>"

lemma sendHandshake_reliable:
  assumes "20 \<le> length peerId" and "w_reliable (c_wr c)"
  shows "sendHandshake c peerId infoHash = (None, c\<lparr>c_wr := (c_wr c)
    \<lparr>w_out := w_out (c_wr c) @ handshake_frame (own_handshake peerId infoHash)\<rparr>\<rparr>)"
  using assms by (simp add: sendHandshake_def serializeHandshake_frame own_handshake_def)

lemma sendBitfield_reliable:
  assumes "w_reliable (c_wr c)" and "length (bf_data (rs_Bitfield res)) + 5 < 2 ^ 32"
  shows "sendBitfield c res = (None, c\<lparr>c_wr := (c_wr c)
    \<lparr>w_out := w_out (c_wr c) @ message_frame (bitfield_message res)\<rparr>\<rparr>)"
proof -
  have "SerializeMessage (bitfield_message res) = Inr (message_frame (bitfield_message res))"
    by (rule SerializeMessage_frame) (use assms(2) in \<open>simp_all add: bitfield_message_def message_ok_def bf_Bytes_def\<close>)
  with assms(1) show ?thesis by (simp add: sendBitfield_def bitfield_message_def)
qed

lemma acceptHandshake_frame:
  assumes "handshake_ok h" and "rd_data (c_rd c) = handshake_frame h @ rest"
  shows "\<exists>r. rd_data r = rest \<and> rd_end r = rd_end (c_rd c) \<and>
    acceptHandshake c infoHash =
      (if hs_InfoHash h = infoHash then Inr (fresh_peer (string_of_bytes (hs_PeerId h)) (c_addr c))
       else Inl (Errorf ''handshake refused, got incorrect info-hash''), c\<lparr>c_rd := r\<rparr>)"
  using deserializeHandshake_frame [OF assms]
  by (auto simp: acceptHandshake_def fresh_peer_def)

lemma own_handshake_ok:
  "20 \<le> length peerId \<Longrightarrow> length infoHash = 20 \<Longrightarrow> handshake_ok (own_handshake peerId infoHash)"
  by (simp add: handshake_ok_def own_handshake_def)

lemma AcceptConnection_frame:
  assumes "handshake_ok h" and "hs_InfoHash h = tf_InfoHash t" and "rd_data (c_rd c) = handshake_frame h @ rest"
    and "w_reliable (c_wr c)" and "20 \<le> length peerId"
    and "length (bf_data (rs_Bitfield res)) + 5 < 2 ^ 32"
  shows "\<exists>c'. AcceptConnection c t res peerId
        = (Inr (fresh_peer (string_of_bytes (hs_PeerId h)) (c_addr c)), c')
    \<and> rd_data (c_rd c') = rest \<and> rd_end (c_rd c') = rd_end (c_rd c) \<and> w_reliable (c_wr c')
    \<and> w_out (c_wr c') = w_out (c_wr c) @ handshake_frame (own_handshake peerId (tf_InfoHash t))
        @ message_frame (bitfield_message res)"
  using acceptHandshake_frame [OF assms(1,3), of "tf_InfoHash t"] assms
  by (auto simp: AcceptConnection_def sendHandshake_reliable sendBitfield_reliable)

lemma InitiateConnection_frame:
  assumes "handshake_ok h" and "hs_InfoHash h = tf_InfoHash t" and "rd_data (c_rd c) = handshake_frame h @ rest"
    and "w_reliable (c_wr c)" and "20 \<le> length peerId"
    and "length (bf_data (rs_Bitfield res)) + 5 < 2 ^ 32"
  shows "\<exists>c'. InitiateConnection c t res peerId
        = (Inr (fresh_peer (string_of_bytes (hs_PeerId h)) (c_addr c)), c')
    \<and> rd_data (c_rd c') = rest \<and> rd_end (c_rd c') = rd_end (c_rd c) \<and> w_reliable (c_wr c')
    \<and> w_out (c_wr c') = w_out (c_wr c) @ handshake_frame (own_handshake peerId (tf_InfoHash t))
        @ message_frame (bitfield_message res)"
proof -
  let ?w = "(c_wr c)\<lparr>w_out := w_out (c_wr c) @ handshake_frame (own_handshake peerId (tf_InfoHash t))\<rparr>"
  have "rd_data (c_rd (c\<lparr>c_wr := ?w\<rparr>)) = handshake_frame h @ rest" using assms(3) by simp
  from acceptHandshake_frame [OF assms(1) this, of "tf_InfoHash t"] show ?thesis
    using assms by (auto simp: InitiateConnection_def sendHandshake_reliable sendBitfield_reliable)
qed

text \<open>A wrong info hash is refused before a byte is written.\<close>

lemma AcceptConnection_wrong_hash:
  assumes "handshake_ok h" and "hs_InfoHash h \<noteq> tf_InfoHash t" and "rd_data (c_rd c) = handshake_frame h @ rest"
  shows "\<exists>c'. AcceptConnection c t res peerId = (Inl (Errorf ''error while getting handshake''), c')
    \<and> c_wr c' = c_wr c"
  using acceptHandshake_frame [OF assms(1,3), of "tf_InfoHash t"] assms(2)
  by (auto simp: AcceptConnection_def rewrap_def)

end
