(* ===== verification/Peer_Session.thy ===== *)
theory Peer_Session
  imports Peer_Protocol
begin

text \<open>
  \<open>client/peer.go\<close> with the types it needs from \<open>client/types.go\<close>: the
  communication loop one goroutine runs per connected peer. A \<open>session\<close> is what the loop
  keeps (the peer, the piece in progress, the requests to serve, the connection's writer); the
  channels shared with the main goroutine are the record \<open>communication\<close>. \<open>loop_top\<close> is
  the code before the \<open>select\<close>, phase by phase; \<open>handle_event\<close> is the \<open>select\<close>;
  \<open>session_iter\<close> is one round of the loop. SHA-1 is the parameter \<open>sha1\<close>: the
  theorems hold for every function in its place.
\<close>

definition pipelineLength :: int where "pipelineLength = 5"
definition chunkSize :: int where "chunkSize = 16384"

section \<open>State\<close>

record request =
  rq_index :: int
  rq_start :: int
  rq_length :: int

record piece_progress =
  pg_order :: "piece_order option"
  pg_buf :: "byte list"
  pg_numDone :: int
  pg_requests :: "request list"
  pg_nextToRequest :: int

definition progress_zero :: piece_progress where
  "progress_zero = \<lparr>pg_order = None, pg_buf = [], pg_numDone = 0, pg_requests = [], pg_nextToRequest = 0\<rparr>"

definition DeleteRequest :: "piece_progress \<Rightarrow> int \<Rightarrow> int \<Rightarrow> piece_progress result" where
  "DeleteRequest pg start len =
     (case find_index (\<lambda>r. rq_start r = start \<and> rq_length r = len) (pg_requests pg) of
        Some i \<Rightarrow> Inr (pg\<lparr>pg_requests := swap_delete i (pg_requests pg)\<rparr>)
      | None \<Rightarrow> Inl (Errorf ''could not find request''))"

record session =
  ss_peer :: peer
  ss_progress :: piece_progress
  ss_requested :: "request list"
  ss_wr :: wstream

definition session_start :: "peer \<Rightarrow> wstream \<Rightarrow> session" where
  "session_start p w = \<lparr>ss_peer = p, ss_progress = progress_zero, ss_requested = [], ss_wr = w\<rparr>"

section \<open>Receiving\<close>

text \<open>
  The goroutine that reads the connection: the messages it puts into \<open>msgChannel\<close>, and the
  error at which it closes it.
\<close>

function receive_loop :: "reader \<Rightarrow> peer_message list \<times> go_error" where
  "receive_loop r = (case DeserializeMessage r of
      (Inl e, r') \<Rightarrow> ([], e)
    | (Inr m, r') \<Rightarrow> (m # fst (receive_loop r'), snd (receive_loop r')))"
  by pat_completeness auto
termination
  by (relation "measure (\<lambda>r. length (rd_data r))")
     (auto dest!: sym [THEN DeserializeMessage_consumes])

declare receive_loop.simps [simp del]

interpretation message_stream:
  frame_stream message_frame DeserializeMessage message_ok "\<lambda>r. True" receive_loop
  by unfold_locales (rule receive_loop.simps)

section \<open>Serving requests\<close>

definition uploadChunk ::
    "piece option list \<Rightarrow> request list \<Rightarrow> wstream \<Rightarrow> int result \<times> wstream" where
  "uploadChunk pieces requested w =
     (case requested of
        [] \<Rightarrow> (Inl (Errorf ''cannot upload chunk, no requests pending''), w)
      | rq # _ \<Rightarrow>
          if rq_index rq \<ge> int (length pieces)
          then (Inl (Errorf ''requested piece number does not exist''), w)
          else case go_index pieces (rq_index rq) of
            Inl e \<Rightarrow> (Inl e, w)
          | Inr None \<Rightarrow> (Inl (Panic NilDereference), w)
          | Inr (Some p) \<Rightarrow>
              if rq_start rq + rq_length rq > int (length (pc_Data p))
              then (Inl (Errorf ''requested data out of bounds''), w)
              else case go_slice (pc_Data p) (rq_start rq) (rq_start rq + rq_length rq) of
                Inl e \<Rightarrow> (Inl e, w)
              | Inr d \<Rightarrow>
                  case SerializeMessage (SerializePieceMsg
                      \<lparr>pm_KeepAlive = False, pm_Code = MsgPiece, pm_Data = []\<rparr>
                      (rq_index rq) (rq_start rq) d) of
                    Inl e \<Rightarrow> (Inl (rewrap ''error while serializing piece message'' e), w)
                  | Inr bs \<Rightarrow> (case w_write bs w of
                      (Some e, w1) \<Rightarrow> (Inl (Errorf ''error while sending piece message''), w1)
                    | (None, w1) \<Rightarrow> (Inr 0, w1)))"

section \<open>Downloading\<close>

text \<open>
  The order taken from the queue is put back when the peer does not have the piece, also when
  its bit field has no such index.
\<close>

definition getPiece :: "peer \<Rightarrow> piece_order list \<Rightarrow> (piece_order option \<times> piece_order list) result" where
  "getPiece p orders =
     (case ch_try_recv orders of
        None \<Rightarrow> Inr (None, orders)
      | Some (ord, rest) \<Rightarrow> (case bf_Get (pr_Bitfield p) (po_Index ord) of
            Inl e \<Rightarrow> if is_panic e then Inl e else Inr (None, ch_send ord rest)
          | Inr False \<Rightarrow> Inr (None, ch_send ord rest)
          | Inr True \<Rightarrow> Inr (Some ord, rest)))"

definition sendInterested :: "peer \<Rightarrow> wstream \<Rightarrow> peer \<times> wstream" where
  "sendInterested p w =
     (case SerializeMessage \<lparr>pm_KeepAlive = False, pm_Code = MsgInterested, pm_Data = []\<rparr> of
        Inl e \<Rightarrow> (p, w)
      | Inr bs \<Rightarrow> (case w_write bs w of
          (Some e, w1) \<Rightarrow> (p, w1)
        | (None, w1) \<Rightarrow> (p\<lparr>pr_InterestedSent := True\<rparr>, w1)))"

definition request_message :: "request \<Rightarrow> peer_message" where
  "request_message rq = SerializeRequestMsg \<lparr>pm_KeepAlive = False, pm_Code = MsgRequest, pm_Data = []\<rparr>
     (rq_index rq) (rq_start rq) (rq_length rq)"

fun fillRequests_loop :: "nat \<Rightarrow> piece_order \<Rightarrow> wstream \<Rightarrow> piece_progress \<Rightarrow> wstream \<times> piece_progress" where
  "fillRequests_loop 0 ord w pg = (w, pg)"
| "fillRequests_loop (Suc n) ord w pg =
     (if pg_nextToRequest pg \<ge> po_Length ord then (w, pg)
      else
        let rq = \<lparr>rq_index = po_Index ord, rq_start = pg_nextToRequest pg,
                  rq_length = min chunkSize (po_Length ord - pg_nextToRequest pg)\<rparr>
        in case SerializeMessage (request_message rq) of
             Inl e \<Rightarrow> (w, pg)
           | Inr bs \<Rightarrow> (case w_write bs w of
               (Some e, w1) \<Rightarrow> (w1, pg)
             | (None, w1) \<Rightarrow> fillRequests_loop n ord w1
                 (pg\<lparr>pg_requests := pg_requests pg @ [rq],
                     pg_nextToRequest := rq_start rq + chunkSize\<rparr>)))"

definition fillRequests :: "wstream \<Rightarrow> piece_progress \<Rightarrow> wstream \<times> piece_progress" where
  "fillRequests w pg = (case pg_order pg of
     None \<Rightarrow> (w, pg)
   | Some ord \<Rightarrow> fillRequests_loop (nat (pipelineLength - int (length (pg_requests pg)))) ord w pg)"

text \<open>
  A piece with all its bytes: verified against the hash of the order, announced with
  \<open>have\<close> and handed to the main goroutine; a wrong hash puts the order back.
\<close>

definition handlePieceComplete ::
    "(byte list \<Rightarrow> hash) \<Rightarrow> piece_progress \<Rightarrow> peer \<Rightarrow> wstream \<Rightarrow> communication
      \<Rightarrow> go_error option \<times> peer \<times> wstream \<times> communication" where
  "handlePieceComplete sha1 pg p w cm =
     (case pg_order pg of
        None \<Rightarrow> (Some (Panic NilDereference), p, w, cm)
      | Some ord \<Rightarrow>
          if sha1 (pg_buf pg) \<noteq> po_Hash ord
          then (None, p, w, cm\<lparr>cm_Orders := ch_send ord (cm_Orders cm)\<rparr>)
          else case SerializeMessage \<lparr>pm_KeepAlive = False, pm_Code = MsgHave,
                      pm_Data = be_put32 (uint32_of (po_Index ord))\<rparr> of
            Inl e \<Rightarrow> (Some (rewrap ''error while serializing have message'' e), p, w, cm)
          | Inr bs \<Rightarrow> (case w_write bs w of
              (Some e, w1) \<Rightarrow> (Some (Errorf ''error while sending have message''), p, w1, cm)
            | (None, w1) \<Rightarrow>
                (None, p\<lparr>pr_Downloaded := pr_Downloaded p + uint32_of (pg_numDone pg)\<rparr>, w1,
                 cm\<lparr>cm_Results := ch_send
                   \<lparr>pc_Index = po_Index ord, pc_Length = po_Length ord, pc_Data = pg_buf pg,
                    pc_From = pr_ID p\<rparr> (cm_Results cm)\<rparr>)))"

section \<open>Handling a message\<close>

definition bitfield_bytes_expected :: "int \<Rightarrow> int" where
  "bitfield_bytes_expected n = go_div n 8 + (if go_mod n 8 > 0 then 1 else 0)"

text \<open>
  The result is the error, if any, with the state as it is at that point: a rejected block has
  already been counted and its request deleted. A \<open>piece\<close> message with no piece in progress
  dereferences the nil order; a \<open>have\<close> message shorter than four bytes panics in
  \<open>binary.BigEndian.Uint32\<close>.
\<close>

definition handlePieceMsg :: "peer_message \<Rightarrow> session \<Rightarrow> go_error option \<times> session" where
  "handlePieceMsg msg s =
     (case DeserializePieceMsg msg of
        Inl e \<Rightarrow> (Some (rewrap ''error while parsing piece message'' e), s)
      | Inr (index, begin, d) \<Rightarrow>
          (case pg_order (ss_progress s) of
             None \<Rightarrow> (Some (Panic NilDereference), s)
           | Some ord \<Rightarrow>
               if index \<noteq> po_Index ord
               then (Some (Errorf ''received a chunk of a different piece''), s)
               else (case DeleteRequest (ss_progress s) begin (int (length d)) of
                  Inl e \<Rightarrow> (Some (rewrap ''error while deleting request'' e), s)
                | Inr pg1 \<Rightarrow>
                    let pg2 = pg1\<lparr>pg_numDone := pg_numDone pg1 + int (length d)\<rparr>
                    in if begin + int (length d) > int (length (pg_buf pg2))
                       then (Some (Errorf ''data is too long''), s\<lparr>ss_progress := pg2\<rparr>)
                       else (None, s\<lparr>ss_progress :=
                         pg2\<lparr>pg_buf := go_copy_at (pg_buf pg2) (nat begin) d\<rparr>\<rparr>))))"

definition handleMessage ::
    "torrent_file \<Rightarrow> peer_message \<Rightarrow> session \<Rightarrow> communication
      \<Rightarrow> go_error option \<times> session \<times> communication" where
  "handleMessage t msg s cm =
     (let p = ss_peer s in
      if pm_Code msg = MsgChoke then
        (None, s\<lparr>ss_peer := p\<lparr>pr_ChokedBy := True, pr_InterestedSent := False\<rparr>\<rparr>, cm)
      else if pm_Code msg = MsgUnchoke then
        (None, s\<lparr>ss_peer := p\<lparr>pr_ChokedBy := False\<rparr>\<rparr>, cm)
      else if pm_Code msg = MsgInterested then
        (None, s\<lparr>ss_peer := p\<lparr>pr_Interested := True\<rparr>\<rparr>,
         cm\<lparr>cm_PeerInterested := ch_send (pr_ID p, True) (cm_PeerInterested cm)\<rparr>)
      else if pm_Code msg = MsgNotInterested then
        (None, s\<lparr>ss_peer := p\<lparr>pr_Interested := False\<rparr>\<rparr>,
         cm\<lparr>cm_PeerInterested := ch_send (pr_ID p, False) (cm_PeerInterested cm)\<rparr>)
      else if pm_Code msg = MsgHave then
        (case be_get32 (pm_Data msg) of
           Inl e \<Rightarrow> (Some e, s, cm)
         | Inr v \<Rightarrow> (None, s, cm\<lparr>cm_Uploaded := ch_send (uint v) (cm_Uploaded cm)\<rparr>))
      else if pm_Code msg = MsgBitfield then
        (if int (length (pm_Data msg)) \<noteq> bitfield_bytes_expected (num_hashes t)
         then (Some (Errorf ''invalid bitfield length''), s, cm)
         else (None, s\<lparr>ss_peer := p\<lparr>pr_Bitfield := bf_FromBytes (pm_Data msg) (num_hashes t)\<rparr>\<rparr>, cm))
      else if pm_Code msg = MsgRequest then
        (case DeserializeRequestMsg msg of
           Inl e \<Rightarrow> (Some (rewrap ''error while parsing request message'' e), s, cm)
         | Inr (index, start, len) \<Rightarrow>
             (None, s\<lparr>ss_requested := ss_requested s
                @ [\<lparr>rq_index = index, rq_start = start, rq_length = len\<rparr>]\<rparr>, cm))
      else if pm_Code msg = MsgPiece then
        (case handlePieceMsg msg s of (e, s1) \<Rightarrow> (e, s1, cm))
      else (None, s, cm))"

definition sendChokeChangeMessage :: "bool \<Rightarrow> wstream \<Rightarrow> wstream" where
  "sendChokeChangeMessage choking w =
     (case SerializeMessage \<lparr>pm_KeepAlive = False,
              pm_Code = (if choking then MsgChoke else MsgUnchoke), pm_Data = []\<rparr> of
        Inl e \<Rightarrow> w
      | Inr bs \<Rightarrow> snd (w_write bs w))"

section \<open>The communication loop\<close>

type_synonym loop_state = "session \<times> communication"

text \<open>
  The code before the \<open>select\<close>, in its order: serve one request, finish the piece, take a new
  order, say \<open>interested\<close>, fill the request pipeline. Errors of these steps are logged and
  the loop goes on; a panic ends the program.
\<close>

definition phase_upload :: "piece option list \<Rightarrow> loop_state \<Rightarrow> loop_state result" where
  "phase_upload pieces st = (case st of (s, cm) \<Rightarrow>
     if \<not> pr_Choking (ss_peer s) \<and> pr_Interested (ss_peer s) \<and> ss_requested s \<noteq> []
     then (case uploadChunk pieces (ss_requested s) (ss_wr s) of
         (Inl e, w) \<Rightarrow> if is_panic e then Inl e else Inr (s\<lparr>ss_wr := w\<rparr>, cm)
       | (Inr k, w) \<Rightarrow>
           Inr (s\<lparr>ss_wr := w, ss_requested := swap_delete (nat k) (ss_requested s)\<rparr>, cm))
     else Inr st)"

definition phase_complete :: "(byte list \<Rightarrow> hash) \<Rightarrow> loop_state \<Rightarrow> loop_state result" where
  "phase_complete sha1 st = (case st of (s, cm) \<Rightarrow>
     (case pg_order (ss_progress s) of
        None \<Rightarrow> Inr st
      | Some ord \<Rightarrow>
          if pg_numDone (ss_progress s) = po_Length ord
          then (case handlePieceComplete sha1 (ss_progress s) (ss_peer s) (ss_wr s) cm of
              (Some e, p, w, cm1) \<Rightarrow>
                if is_panic e then Inl e else Inr (s\<lparr>ss_peer := p, ss_wr := w\<rparr>, cm1)
            | (None, p, w, cm1) \<Rightarrow>
                Inr (s\<lparr>ss_peer := p, ss_wr := w, ss_progress := progress_zero\<rparr>, cm1))
          else Inr st))"

definition phase_order :: "torrent_file \<Rightarrow> loop_state \<Rightarrow> loop_state result" where
  "phase_order t st = (case st of (s, cm) \<Rightarrow>
     if pg_order (ss_progress s) = None \<and> bf_Length (pr_Bitfield (ss_peer s)) = num_hashes t
     then bind_result (getPiece (ss_peer s) (cm_Orders cm)) (\<lambda>(got, orders).
       (case got of
          None \<Rightarrow> Inr (s, cm\<lparr>cm_Orders := orders\<rparr>)
        | Some ord \<Rightarrow> bind_result (go_make (po_Length ord) 0) (\<lambda>buf.
            Inr (s\<lparr>ss_progress := (ss_progress s)\<lparr>pg_order := Some ord, pg_buf := buf\<rparr>\<rparr>,
                 cm\<lparr>cm_Orders := orders\<rparr>))))
     else Inr st)"

definition phase_interested :: "loop_state \<Rightarrow> loop_state" where
  "phase_interested st = (case st of (s, cm) \<Rightarrow>
     if pg_order (ss_progress s) \<noteq> None \<and> pr_ChokedBy (ss_peer s) \<and> \<not> pr_InterestedSent (ss_peer s)
     then (case sendInterested (ss_peer s) (ss_wr s) of
         (p, w) \<Rightarrow> (s\<lparr>ss_peer := p, ss_wr := w\<rparr>, cm))
     else st)"

definition phase_requests :: "loop_state \<Rightarrow> loop_state" where
  "phase_requests st = (case st of (s, cm) \<Rightarrow>
     if pg_order (ss_progress s) \<noteq> None \<and> \<not> pr_ChokedBy (ss_peer s)
        \<and> int (length (pg_requests (ss_progress s))) < pipelineLength
     then (case fillRequests (ss_wr s) (ss_progress s) of
         (w, pg) \<Rightarrow> (s\<lparr>ss_progress := pg, ss_wr := w\<rparr>, cm))
     else st)"

definition loop_top ::
    "(byte list \<Rightarrow> hash) \<Rightarrow> torrent_file \<Rightarrow> piece option list \<Rightarrow> loop_state \<Rightarrow> loop_state result" where
  "loop_top sha1 t pieces st =
     bind_result (phase_upload pieces st) (\<lambda>st1.
     bind_result (phase_complete sha1 st1) (\<lambda>st2.
     bind_result (phase_order t st2) (\<lambda>st3.
       Inr (phase_requests (phase_interested st3)))))"

text \<open>What the \<open>select\<close> can receive.\<close>

datatype event =
    CtxDone
  | MsgChannelClosed
  | Received peer_message
  | Unchoke "string list"
  | UnchokeClosed

datatype loop_status = Looping | Ended

definition requeue_order :: "session \<Rightarrow> communication \<Rightarrow> communication" where
  "requeue_order s cm = (case pg_order (ss_progress s) of
     None \<Rightarrow> cm
   | Some ord \<Rightarrow> cm\<lparr>cm_Orders := ch_send ord (cm_Orders cm)\<rparr>)"

definition report_end :: "session \<Rightarrow> communication \<Rightarrow> communication" where
  "report_end s cm = cm\<lparr>cm_ConnectionEnded :=
     ch_send (pr_ID (ss_peer s), pr_Addr (ss_peer s)) (cm_ConnectionEnded cm)\<rparr>"

fun handle_event :: "torrent_file \<Rightarrow> event \<Rightarrow> loop_state \<Rightarrow> (loop_status \<times> loop_state) result" where
  "handle_event t CtxDone (s, cm) = Inr (Ended, s, report_end s (requeue_order s cm))"
| "handle_event t MsgChannelClosed (s, cm) = Inr (Ended, s, report_end s (requeue_order s cm))"
| "handle_event t (Received msg) (s, cm) =
     (if pm_KeepAlive msg then Inr (Looping, s, cm)
      else case handleMessage t msg s cm of
        (None, s1, cm1) \<Rightarrow> Inr (Looping, s1, cm1)
      | (Some e, s1, cm1) \<Rightarrow> if is_panic e then Inl e else Inr (Ended, s1, report_end s1 cm1))"
| "handle_event t UnchokeClosed (s, cm) = Inr (Ended, s, report_end s (requeue_order s cm))"
| "handle_event t (Unchoke ids) (s, cm) =
     (let p = ss_peer s in
      if pr_ID p \<in> set ids
      then Inr (Looping,
        s\<lparr>ss_wr := (if pr_Choking p then sendChokeChangeMessage False (ss_wr s) else ss_wr s),
          ss_peer := p\<lparr>pr_Choking := False\<rparr>\<rparr>, cm)
      else Inr (Looping,
        s\<lparr>ss_wr := (if \<not> pr_Choking p then sendChokeChangeMessage True (ss_wr s) else ss_wr s),
          ss_peer := p\<lparr>pr_Choking := True\<rparr>\<rparr>, cm))"

definition session_iter ::
    "(byte list \<Rightarrow> hash) \<Rightarrow> torrent_file \<Rightarrow> piece option list \<Rightarrow> event \<Rightarrow> loop_state
      \<Rightarrow> (loop_status \<times> loop_state) result" where
  "session_iter sha1 t pieces ev st = bind_result (loop_top sha1 t pieces st) (handle_event t ev)"

fun session_run ::
    "(byte list \<Rightarrow> hash) \<Rightarrow> torrent_file \<Rightarrow> piece option list \<Rightarrow> event list \<Rightarrow> loop_state
      \<Rightarrow> (loop_status \<times> loop_state) result" where
  "session_run sha1 t pieces [] st = Inr (Looping, st)"
| "session_run sha1 t pieces (ev # evs) st =
     bind_result (session_iter sha1 t pieces ev st) (\<lambda>(status, st1).
       case status of Ended \<Rightarrow> Inr (Ended, st1) | Looping \<Rightarrow> session_run sha1 t pieces evs st1)"

end
