(* ===== verification/Base_Properties.thy ===== *)
theory Base_Properties
  imports Piece_Files Peer_Session
begin

text \<open>
  The properties of the data components: the bit field, the wire protocol and the piece files,
  each with an instance at concrete data.
\<close>

section \<open>The bit field\<close>

text \<open>Get after Set. On a well-formed bit field, setting an index inside it succeeds and keeps the
  length, and afterwards every index inside reads as before, except the one that was set.\<close>

lemma bitfield_get_set:
  assumes "bf_wf f" and "0 \<le> i" and "i < bf_Length f"
  shows "\<exists>f'. bf_Set f i v = Inr f' \<and> bf_wf f' \<and> bf_Length f' = bf_Length f
    \<and> (\<forall>j. 0 \<le> j \<longrightarrow> j < bf_Length f \<longrightarrow> bf_Get f' j = (if j = i then Inr v else bf_Get f j))
    \<and> (\<forall>j. bf_Length f \<le> j \<longrightarrow> bf_Get f' j = Inl (Errorf ''Get: index out of bounds''))"
proof -
  obtain f' where f': "bf_Set f i v = Inr f'" "bf_wf f'" "bf_Length f' = bf_Length f"
      "bf_members f' = (if v then insert i (bf_members f) else bf_members f - {i})"
    using bf_Set_in [OF assms, of v] by auto
  with assms(1) show ?thesis by (intro exI [of _ f']) (auto simp: bf_Get_in bf_Get_out)
qed

text \<open>The full bit field. For a positive number of pieces it has exactly the bytes the protocol asks
  for, every index reads as set, and the padding bits of the last byte are clear.\<close>

lemma bitfield_NewFull:
  assumes "0 < n"
  shows "\<exists>f. bf_NewFull n = Inr f \<and> bf_wf f \<and> bf_Length f = n
    \<and> int (length (bf_Bytes f)) = (n + 7) div 8
    \<and> (\<forall>i. 0 \<le> i \<longrightarrow> i < n \<longrightarrow> bf_Get f i = Inr True)
    \<and> (\<forall>i < 8 * length (bf_Bytes f). n \<le> int i \<longrightarrow> \<not> bf_bit (bf_Bytes f) i)"
proof -
  obtain f where f: "bf_NewFull n = Inr f" "bf_wf f" "bf_Length f = n" "bf_members f = {0..<n}"
      "int (length (bf_data f)) = bf_byte_len n"
      "\<forall>i < 8 * length (bf_data f). bf_bit (bf_data f) i \<longleftrightarrow> int i < n"
    using bf_NewFull_spec [OF assms] by auto
  then show ?thesis
    by (intro exI [of _ f]) (auto simp: bf_Bytes_def bf_byte_len_def bf_Get_in)
qed

text \<open>C25: An empty bit field and the message that carries it. The bit field a client starts with is
  accepted by another client of this program exactly when the number of pieces is not a multiple
  of eight; otherwise it is a byte too long and the receiver closes the connection.\<close>

theorem own_bitfield_message_accepted_iff:
  assumes "bf_New (num_hashes t) = Inr f" and "pm_Code msg = MsgBitfield" and "pm_Data msg = bf_Bytes f"
  shows "fst (handleMessage t msg s cm) = None \<longleftrightarrow> \<not> 8 dvd num_hashes t"
proof -
  have "int (length (bf_data f)) = num_hashes t div 8 + 1" using bf_New_Inr [OF assms(1)] by simp
  then have len: "int (length (pm_Data msg)) = num_hashes t div 8 + 1" by (simp add: assms(3) bf_Bytes_def)
  have "fst (handleMessage t msg s cm) = None \<longleftrightarrow>
      int (length (pm_Data msg)) = bitfield_bytes_expected (num_hashes t)"
    using assms(2) by (simp add: handleMessage_def Let_def)
  also have "\<dots> \<longleftrightarrow> \<not> 8 dvd num_hashes t"
    unfolding len bitfield_bytes_expected_def
    by (simp add: dvd_eq_mod_eq_0 less_le)
  finally show ?thesis .
qed

section \<open>The wire protocol\<close>

text \<open>C21: Message framing. However the network cuts the stream into reads, the receiving loop gets back
  exactly the messages that were serialized, in order, and ends with a clean end of file.\<close>

theorem messages_survive_the_stream:
  assumes "\<forall>m \<in> set ms. \<not> pm_KeepAlive m \<and> length (pm_Data m) + 5 < 2 ^ 32"
    and "map SerializeMessage ms = map Inr frames"
    and "rd_data r = concat frames" and "rd_end r = EOF"
  shows "receive_loop r = (ms, EOF)"
proof (rule message_stream.loop_frames)
  show "\<forall>m \<in> set ms. message_ok m" using assms(1) by (simp add: message_ok_def)
  have "map SerializeMessage ms = map (Inr \<circ> message_frame) ms"
    using assms(1) by (auto simp: SerializeMessage_frame message_ok_def)
  then have "(map Inr frames :: byte list result list) = map Inr (map message_frame ms)" using assms(2) by simp
  then have "frames = map message_frame ms" by (simp only: inj_map_eq_map inj_Inr)
  then show "rd_data r = concat (map message_frame ms)" using assms(3) by simp
qed (use assms(4) in simp_all)

theorem messages_survive_the_stream_witness:
  "receive_loop \<lparr>rd_data = concat [[0, 0, 0, 1, 0], [0, 0, 0, 5, 4, 0, 0, 1, 2]], rd_end = EOF, rd_chunks = [1, 2, 7, 1]\<rparr>
    = ([\<lparr>pm_KeepAlive = False, pm_Code = MsgChoke, pm_Data = []\<rparr>,
        \<lparr>pm_KeepAlive = False, pm_Code = MsgHave, pm_Data = [0, 0, 1, 2]\<rparr>], EOF)"
proof (rule messages_survive_the_stream)
  show "map SerializeMessage [\<lparr>pm_KeepAlive = False, pm_Code = MsgChoke, pm_Data = []\<rparr>,
        \<lparr>pm_KeepAlive = False, pm_Code = MsgHave, pm_Data = [0, 0, 1, 2]\<rparr>]
      = map Inr [[0, 0, 0, 1, 0], [0, 0, 0, 5, 4, 0, 0, 1, 2]]"
    by code_simp
qed simp_all

text \<open>Block and request payloads. What the requesting side writes into a request message is what
  the serving side reads, and what the serving side writes into a piece message is what the
  requesting side reads, for all 32-bit values and non-empty blocks.\<close>

lemma payloads_survive:
  assumes "0 \<le> index" "index < 2 ^ 32" and "0 \<le> begin" "begin < 2 ^ 32" and "0 \<le> len" "len < 2 ^ 32"
    and "pm_Code msg = MsgPiece" and "block \<noteq> []"
  shows "DeserializeRequestMsg (SerializeRequestMsg m index begin len) = Inr (index, begin, len)
    \<and> DeserializePieceMsg (SerializePieceMsg msg index begin block) = Inr (index, begin, block)"
  using assms by (simp add: DeserializeRequestMsg_Serialize DeserializePieceMsg_Serialize)

lemma acceptHandshake_writer: "acceptHandshake c h = (x, c') \<Longrightarrow> c_wr c' = c_wr c"
  by (auto simp: acceptHandshake_def split: sum.splits prod.splits if_splits)

text \<open>C22: Opening a connection. When each side reads exactly what the other wrote, the initiator and the
  acceptor of the same torrent complete the handshake, each learns the other's identifier, each
  starts choked and choking, and what is left to read on each side is the other's bit field message.\<close>

theorem handshake_agreement:
  assumes "length (tf_InfoHash t) = 20" and "length idA = 20" and "length idB = 20"
    and "w_reliable (c_wr a)" and "w_reliable (c_wr b)" and "w_out (c_wr a) = []" and "w_out (c_wr b) = []"
    and "length (bf_data (rs_Bitfield resA)) + 5 < 2 ^ 32" and "length (bf_data (rs_Bitfield resB)) + 5 < 2 ^ 32"
    and "InitiateConnection a t resA idA = (pA, a')" and "AcceptConnection b t resB idB = (pB, b')"
    and "rd_data (c_rd b) = w_out (c_wr a')" and "rd_data (c_rd a) = w_out (c_wr b')"
  shows "pA = Inr (fresh_peer idB (c_addr a)) \<and> pB = Inr (fresh_peer idA (c_addr b))
    \<and> rd_data (c_rd b') = message_frame (bitfield_message resA)
    \<and> rd_data (c_rd a') = message_frame (bitfield_message resB)"
proof -
  let ?hA = "own_handshake idA (tf_InfoHash t)" and ?hB = "own_handshake idB (tf_InfoHash t)"
  have ok: "handshake_ok ?hA" "handshake_ok ?hB" using assms(1-3) by (simp_all add: own_handshake_ok)
  have ids: "string_of_bytes (hs_PeerId ?hA) = idA" "string_of_bytes (hs_PeerId ?hB) = idB"
    "hs_InfoHash ?hA = tf_InfoHash t" "hs_InfoHash ?hB = tf_InfoHash t"
    using assms(2,3) by (simp_all add: own_handshake_def)
  have "\<exists>more. w_out (c_wr a') = handshake_frame ?hA @ more"
    using assms(10) assms(2,4,6,8)
    by (auto simp: InitiateConnection_def sendHandshake_reliable sendBitfield_reliable
        split: sum.splits prod.splits dest!: acceptHandshake_writer)
  then obtain more where "w_out (c_wr a') = handshake_frame ?hA @ more" ..
  then have rb: "rd_data (c_rd b) = handshake_frame ?hA @ more" using assms(12) by simp
  from AcceptConnection_frame [OF ok(1) ids(3) rb assms(5) _ assms(9), of idB] assms(3,7,11) ids(1)
  have b: "pB = Inr (fresh_peer idA (c_addr b))" "rd_data (c_rd b') = more"
      "w_out (c_wr b') = handshake_frame ?hB @ message_frame (bitfield_message resB)"
    by auto
  then have ra: "rd_data (c_rd a) = handshake_frame ?hB @ message_frame (bitfield_message resB)"
    using assms(13) by simp
  from InitiateConnection_frame [OF ok(2) ids(4) ra assms(4) _ assms(8), of idA] assms(2,6,10) ids(2)
  have "pA = Inr (fresh_peer idB (c_addr a))" "rd_data (c_rd a') = message_frame (bitfield_message resB)"
      "w_out (c_wr a') = handshake_frame ?hA @ message_frame (bitfield_message resA)"
    by auto
  with b assms(12) rb show ?thesis by simp
qed

definition sample_base_torrent :: torrent_file where
  "sample_base_torrent = \<lparr>tf_Announce = '''', tf_Name = ''sample'', tf_Comment = '''', tf_CreatedBy = '''',
     tf_CreationDate = 0, tf_Length = 6, tf_PieceLength = 3, tf_PieceHashes = [replicate 20 1, replicate 20 2],
     tf_InfoHash = replicate 20 9, tf_AnnounceList = []\<rparr>"

definition sample_results :: results where
  "sample_results = \<lparr>rs_Pieces = [None, None], rs_PiecesDone = 0, rs_TotalLength = 0,
     rs_Bitfield = \<lparr>bf_Length = 2, bf_data = [0]\<rparr>\<rparr>"

definition sample_conn :: "byte list \<Rightarrow> conn" where
  "sample_conn d = \<lparr>c_rd = \<lparr>rd_data = d, rd_end = EOF, rd_chunks = [1, 20]\<rparr>,
     c_wr = \<lparr>w_out = [], w_script = []\<rparr>, c_addr = OtherAddr 1 ''pipe''\<rparr>"

definition sample_sent :: "string \<Rightarrow> byte list" where
  "sample_sent ident = handshake_frame (own_handshake ident (replicate 20 9)) @ message_frame (bitfield_message sample_results)"

definition sample_opening :: "(peer result \<times> conn) \<times> (peer result \<times> conn)" where
  "sample_opening =
     (InitiateConnection (sample_conn (sample_sent ''BBBBBBBBBBBBBBBBBBBB'')) sample_base_torrent sample_results ''AAAAAAAAAAAAAAAAAAAA'',
      AcceptConnection (sample_conn (sample_sent ''AAAAAAAAAAAAAAAAAAAA'')) sample_base_torrent sample_results ''BBBBBBBBBBBBBBBBBBBB'')"

lemma sample_opening_written:
  "w_out (c_wr (snd (fst sample_opening))) = sample_sent ''AAAAAAAAAAAAAAAAAAAA''"
  "w_out (c_wr (snd (snd sample_opening))) = sample_sent ''BBBBBBBBBBBBBBBBBBBB''"
  by code_simp+

theorem handshake_agreement_witness:
  "fst (fst sample_opening) = Inr (fresh_peer ''BBBBBBBBBBBBBBBBBBBB'' (OtherAddr 1 ''pipe''))
    \<and> fst (snd sample_opening) = Inr (fresh_peer ''AAAAAAAAAAAAAAAAAAAA'' (OtherAddr 1 ''pipe''))
    \<and> rd_data (c_rd (snd (snd sample_opening))) = message_frame (bitfield_message sample_results)
    \<and> rd_data (c_rd (snd (fst sample_opening))) = message_frame (bitfield_message sample_results)"
proof -
  let ?A = "''AAAAAAAAAAAAAAAAAAAA''" and ?B = "''BBBBBBBBBBBBBBBBBBBB''"
  let ?a = "sample_conn (sample_sent ?B)" and ?b = "sample_conn (sample_sent ?A)"
  have i: "InitiateConnection ?a sample_base_torrent sample_results ?A = (fst (fst sample_opening), snd (fst sample_opening))"
    and c: "AcceptConnection ?b sample_base_torrent sample_results ?B = (fst (snd sample_opening), snd (snd sample_opening))"
    by (simp_all add: sample_opening_def)
  have "c_addr ?a = OtherAddr 1 ''pipe''" "c_addr ?b = OtherAddr 1 ''pipe''" by (simp_all add: sample_conn_def)
  then show ?thesis
    using handshake_agreement [OF _ _ _ _ _ _ _ _ _ i c] sample_opening_written
    by (simp add: sample_conn_def sample_base_torrent_def sample_results_def)
qed

section \<open>Piece files\<close>

text \<open>The complete file. Saving the pieces of a finished download writes their bytes in piece order,
  and reading that file back gives the same indices, lengths and data, when all pieces but the last
  have the piece length; the last may be shorter or longer.\<close>

lemma complete_file_roundtrip:
  assumes "in_order 0 (ps @ [p])" and "\<forall>q \<in> set ps. int (length (pc_Data q)) = L" and "0 \<le> L"
    and "\<forall>q \<in> set (ps @ [p]). pc_Length q = int (length (pc_Data q))"
    and "w_script w = []" and "w_out w = []"
    and "rd_data r = w_out (snd (Save w (map Some (ps @ [p]))))" and "rd_end r = EOF"
  shows "fst (Save w (map Some (ps @ [p]))) = None
    \<and> fst (Read r (int (length (ps @ [p]))) L) = Inr (map (\<lambda>q. q\<lparr>pc_From := ''local''\<rparr>) (ps @ [p]))"
proof -
  have save: "Save w (map Some (ps @ [p])) = (None, w\<lparr>w_out := w_out w @ concat (map pc_Data (ps @ [p]))\<rparr>)"
    unfolding Save_def using assms(1,5) by (rule Save_from_reliable)
  let ?ds = "map pc_Data ps"
  have "rd_data r = concat ?ds @ pc_Data p" using assms(6,7) save by simp
  from Read_blocks [of ?ds L r "pc_Data p", OF _ assms(3) this assms(8)] assms(2)
  have "fst (Read r (int (length ps) + 1) L) = Inr (local_pieces 0 (map pc_Data (ps @ [p])))" by simp
  moreover have "local_pieces i (map pc_Data qs) = map (\<lambda>q. q\<lparr>pc_From := ''local''\<rparr>) qs"
    if "in_order i qs" "\<forall>q \<in> set qs. pc_Length q = int (length (pc_Data q))" for i qs
    using that by (induction qs arbitrary: i) (auto simp: local_piece_def)
  ultimately show ?thesis using assms(1,4) save by (simp del: map_append add: add.commute)
qed

lemma storable_indices: "\<forall>p \<in> set xs. piece_storable p \<Longrightarrow> \<forall>i \<in> set (map pc_Index xs). 0 \<le> i"
  by (auto simp: piece_storable_def)

text \<open>C23: Partial files. Saving what was not saved before appends, to the file of each thousand of
  indices, exactly the frames of its new pieces in index order; a file that holds the frames of
  storable pieces is read back as these pieces (less the peer they came from), and their bits are set.\<close>

theorem partial_files_roundtrip:
  assumes "bf_wf saved" and "\<forall>w \<in> set ws. w_script w = []" and "k < length ws"
    and "\<forall>p. Some p \<in> set ps \<longrightarrow> piece_storable (on_disk p) \<and> pc_Index p < bf_Length saved
      \<and> pc_Index p div 1000 < int (length ws)"
    and "w_out (ws ! k) = concat (map piece_frame old)" and "\<forall>p \<in> set old. piece_storable p"
    and "WritePartialFiles ws ps saved = (e, ws')"
    and "r = \<lparr>rd_data = w_out (ws' ! k), rd_end = EOF, rd_chunks = []\<rparr>" and "bf_wf b"
  shows "e = None
    \<and> fst (ReadPartialFile r b) = Inr (old @ map on_disk (filter (in_part k) (unsaved saved ps)))
    \<and> bf_members (fst (snd (ReadPartialFile r b))) = bf_members b
        \<union> {i \<in> pc_Index ` (set old \<union> set (filter (in_part k) (unsaved saved ps))). i < bf_Length b}"
proof -
  let ?new = "filter (in_part k) (unsaved saved ps)"
  have st: "piece_storable p" if "p \<in> set (old @ map on_disk ?new)" for p
    using assms(4,6) that by (auto simp: set_unsaved)
  have "\<forall>p. Some p \<in> set ps \<longrightarrow> 0 \<le> pc_Index p \<and> pc_Index p < bf_Length saved
      \<and> pc_Index p div 1000 < int (length ws) \<and> 0 \<le> pc_Length p"
    using assms(4) by (auto simp: piece_storable_def)
  from WritePartialFiles_reliable [OF assms(1,2) this]
  have w: "e = None" "w_out (ws' ! k) = w_out (ws ! k) @ concat (map piece_frame ?new)"
    using assms(3,7) by auto
  have data: "rd_data r = concat (map piece_frame (old @ map on_disk ?new))"
    unfolding map_append map_frame_on_disk using w assms(5,8) by simp
  have all: "\<forall>p \<in> set (old @ map on_disk ?new). piece_storable p" using st by (rule ballI)
  have "plain_reader r" "rd_end r = EOF" using assms(8) by (simp_all add: plain_reader_def)
  from ReadPartialFile_frames [OF all this(1) data this(2) assms(9)]
  obtain r' where r': "ReadPartialFile r b = (Inr (old @ map on_disk ?new), set_bits b (map pc_Index (old @ map on_disk ?new)), r')" ..
  have "\<forall>i \<in> set (map pc_Index (old @ map on_disk ?new)). 0 \<le> i"
    using all by (rule storable_indices)
  then have "bf_members (set_bits b (map pc_Index (old @ map on_disk ?new))) = bf_members b
      \<union> {i \<in> set (map pc_Index (old @ map on_disk ?new)). i < bf_Length b}"
    using set_bits_spec [OF assms(9)] by blast
  moreover have "set (map pc_Index (old @ map on_disk ?new)) = pc_Index ` (set old \<union> set ?new)"
    by (simp add: image_image image_Un)
  ultimately show ?thesis by (simp only: w(1) r' fst_conv snd_conv simp_thms)
qed

theorem partial_files_roundtrip_witness:
  "None = (None :: go_error option)
    \<and> fst (ReadPartialFile \<lparr>rd_data = [0, 0, 0, 1, 0, 0, 0, 2, 7, 8], rd_end = EOF, rd_chunks = []\<rparr>
          \<lparr>bf_Length = 3, bf_data = [0]\<rparr>)
      = Inr ([] @ map on_disk (filter (in_part 0) (unsaved \<lparr>bf_Length = 3, bf_data = [0]\<rparr>
          [None, Some \<lparr>pc_Index = 1, pc_Length = 2, pc_Data = [7, 8], pc_From = ''peer''\<rparr>])))
    \<and> bf_members (fst (snd (ReadPartialFile \<lparr>rd_data = [0, 0, 0, 1, 0, 0, 0, 2, 7, 8], rd_end = EOF, rd_chunks = []\<rparr>
          \<lparr>bf_Length = 3, bf_data = [0]\<rparr>))) = bf_members \<lparr>bf_Length = 3, bf_data = [0]\<rparr>
        \<union> {i \<in> pc_Index ` (set [] \<union> set (filter (in_part 0) (unsaved \<lparr>bf_Length = 3, bf_data = [0]\<rparr>
          [None, Some \<lparr>pc_Index = 1, pc_Length = 2, pc_Data = [7, 8], pc_From = ''peer''\<rparr>]))).
            i < bf_Length \<lparr>bf_Length = 3, bf_data = [0]\<rparr>}"
proof (rule partial_files_roundtrip)
  show "WritePartialFiles [\<lparr>w_out = [], w_script = []\<rparr>]
      [None, Some \<lparr>pc_Index = 1, pc_Length = 2, pc_Data = [7, 8], pc_From = ''peer''\<rparr>] \<lparr>bf_Length = 3, bf_data = [0]\<rparr>
    = (None, [\<lparr>w_out = [0, 0, 0, 1, 0, 0, 0, 2, 7, 8], w_script = []\<rparr>])"
    by code_simp
qed (auto simp: bf_wf_def piece_storable_def on_disk_def)

text \<open>C24: A truncated partial file. When the file ends inside the data of its last frame, but not before
  the first byte of it, \<open>Deserialize\<close> reports no error and the missing bytes read as zeros: only the
  hash check of the caller can tell.\<close>

theorem truncated_piece_reads_as_zeros:
  assumes "piece_storable p" and "d \<noteq> []" and "pc_Data p = d @ missing"
    and "r = \<lparr>rd_data = take (8 + length d) (piece_frame p), rd_end = EOF, rd_chunks = []\<rparr>"
  shows "\<exists>r'. Deserialize piece_zero r = (None, p\<lparr>pc_Data := d @ replicate (length missing) 0\<rparr>, r')
    \<and> rd_data r' = []"
proof -
  have p: "0 \<le> pc_Index p" "pc_Index p < 2 ^ 32" "0 \<le> pc_Length p" "pc_Length p < 2 ^ 32"
      "nat (pc_Length p) = length d + length missing" "pc_From p = ''''"
    using assms(1,3) by (auto simp: piece_storable_def)
  have "rd_data r = be_put32 (uint32_of (pc_Index p)) @ be_put32 (uint32_of (pc_Length p)) @ d"
    using assms(3,4) by (simp add: piece_frame_def)
  from Deserialize_data [OF _ p(1-4) this, of piece_zero] assms(2,4) p(5,6)
  show ?thesis by (auto simp: plain_reader_def piece_zero_def)
qed

theorem truncated_piece_reads_as_zeros_witness:
  "\<exists>r'. Deserialize piece_zero \<lparr>rd_data = [0, 0, 0, 1, 0, 0, 0, 2, 7], rd_end = EOF, rd_chunks = []\<rparr>
      = (None, \<lparr>pc_Index = 1, pc_Length = 2, pc_Data = [7, 8], pc_From = ''''\<rparr>
          \<lparr>pc_Data := [7] @ replicate (length [8 :: byte]) 0\<rparr>, r')
    \<and> rd_data r' = []"
proof (rule truncated_piece_reads_as_zeros)
  show "\<lparr>rd_data = [0, 0, 0, 1, 0, 0, 0, 2, 7], rd_end = EOF, rd_chunks = []\<rparr>
    = \<lparr>rd_data = take (8 + length [7 :: byte])
        (piece_frame \<lparr>pc_Index = 1, pc_Length = 2, pc_Data = [7, 8], pc_From = ''''\<rparr>), rd_end = EOF, rd_chunks = []\<rparr>"
    by code_simp
qed (simp_all add: piece_storable_def)

theorem own_bitfield_message_accepted_iff_witness:
  "fst (handleMessage sample_base_torrent \<lparr>pm_KeepAlive = False, pm_Code = MsgBitfield, pm_Data = bf_Bytes \<lparr>bf_Length = 2, bf_data = [0]\<rparr>\<rparr>
      (session_start (fresh_peer ''p'' (OtherAddr 1 ''pipe'')) \<lparr>w_out = [], w_script = []\<rparr>)
      \<lparr>cm_Orders = [], cm_Results = [], cm_PeerInterested = [], cm_ConnectionEnded = [], cm_Uploaded = []\<rparr>) = None
    \<longleftrightarrow> \<not> 8 dvd num_hashes sample_base_torrent"
  by (rule own_bitfield_message_accepted_iff [of _ "\<lparr>bf_Length = 2, bf_data = [0]\<rparr>"])
     (simp_all add: bf_New_def sample_base_torrent_def)

end
