(* ===== verification/Session_Inv.thy ===== *)
theory Session_Inv
  imports Peer_Session
begin

text \<open>
  The invariant of the piece in progress and what follows from it. Every outstanding request is a
  block of the piece on the chunk grid, no block is asked for twice, at most five are
  outstanding, and the bytes received plus the bytes outstanding are the bytes asked for; when the
  received count reaches the length, nothing is outstanding and every byte of the buffer was
  received. The lemmas are stated per operation, per phase and per round of the loop.
\<close>

section \<open>The piece in progress\<close>

definition block_ok :: "piece_order \<Rightarrow> int \<Rightarrow> request \<Rightarrow> bool" where
  "block_ok ord next rq \<longleftrightarrow> rq_index rq = po_Index ord \<and> 0 \<le> rq_start rq \<and> rq_start rq < next
     \<and> rq_start rq < po_Length ord \<and> chunkSize dvd rq_start rq
     \<and> rq_length rq = min chunkSize (po_Length ord - rq_start rq)"

definition progress_inv :: "piece_progress \<Rightarrow> bool" where
  "progress_inv pg \<longleftrightarrow> (case pg_order pg of
     None \<Rightarrow> pg = progress_zero
   | Some ord \<Rightarrow> int (length (pg_buf pg)) = po_Length ord
       \<and> int (length (pg_requests pg)) \<le> pipelineLength
       \<and> distinct (map rq_start (pg_requests pg))
       \<and> 0 \<le> pg_nextToRequest pg \<and> chunkSize dvd pg_nextToRequest pg
       \<and> (\<forall>rq \<in> set (pg_requests pg). block_ok ord (pg_nextToRequest pg) rq)
       \<and> 0 \<le> pg_numDone pg
       \<and> pg_numDone pg + sum_list (map rq_length (pg_requests pg))
           = min (pg_nextToRequest pg) (po_Length ord))"

text \<open>
  \<open>progress_data P pg\<close>: the buffer agrees with \<open>P\<close> wherever a byte has been asked for and is
  not outstanding.
\<close>

definition progress_data :: "byte list \<Rightarrow> piece_progress \<Rightarrow> bool" where
  "progress_data P pg \<longleftrightarrow> (\<forall>i. 0 \<le> i \<and> i < pg_nextToRequest pg \<and> i < int (length (pg_buf pg))
      \<and> (\<forall>rq \<in> set (pg_requests pg). i \<notin> {rq_start rq ..< rq_start rq + rq_length rq})
     \<longrightarrow> pg_buf pg ! nat i = P ! nat i)"

lemma progress_inv_zero [simp]: "progress_inv progress_zero"
  by (simp add: progress_inv_def progress_zero_def)

lemma progress_inv_None: "progress_inv pg \<Longrightarrow> pg_order pg = None \<Longrightarrow> pg = progress_zero"
  by (simp add: progress_inv_def)

lemma progress_inv_start:
  "0 \<le> po_Length ord \<Longrightarrow> progress_inv (progress_zero
     \<lparr>pg_order := Some ord, pg_buf := replicate (nat (po_Length ord)) 0\<rparr>)"
  by (simp add: progress_inv_def progress_zero_def pipelineLength_def)

lemma progress_data_start:
  "progress_data P (progress_zero\<lparr>pg_order := ord, pg_buf := b\<rparr>)"
  by (auto simp: progress_data_def progress_zero_def)

lemma request_message_serializes: "\<exists>bs. SerializeMessage (request_message rq) = Inr bs"
  using SerializeMessage_frame [of "request_message rq"]
  by (simp add: request_message_def SerializeRequestMsg_def message_ok_def)

lemma block_ok_mono: "block_ok ord next rq \<Longrightarrow> next \<le> next' \<Longrightarrow> block_ok ord next' rq"
  by (simp add: block_ok_def)

lemma progress_inv_add:
  assumes inv: "progress_inv pg" and ord: "pg_order pg = Some ord"
    and len: "int (length (pg_requests pg)) < pipelineLength" and more: "pg_nextToRequest pg < po_Length ord"
  defines "rq \<equiv> \<lparr>rq_index = po_Index ord, rq_start = pg_nextToRequest pg,
      rq_length = min chunkSize (po_Length ord - pg_nextToRequest pg)\<rparr>"
  defines "pg' \<equiv> pg\<lparr>pg_requests := pg_requests pg @ [rq], pg_nextToRequest := rq_start rq + chunkSize\<rparr>"
  shows "progress_inv pg'" and "progress_data P pg \<Longrightarrow> progress_data P pg'"
proof -
  have start: "rq_start r < pg_nextToRequest pg" if "r \<in> set (pg_requests pg)" for r
    using inv ord that by (auto simp: progress_inv_def block_ok_def)
  then have "pg_nextToRequest pg \<notin> rq_start ` set (pg_requests pg)" by fastforce
  moreover have "\<forall>r \<in> set (pg_requests pg). block_ok ord (pg_nextToRequest pg + chunkSize) r"
    using inv ord by (auto simp: progress_inv_def chunkSize_def intro: block_ok_mono)
  ultimately show "progress_inv pg'"
    using inv ord len more
    by (auto simp: progress_inv_def pg'_def rq_def block_ok_def chunkSize_def min_def)
  show "progress_data P pg'" if d: "progress_data P pg"
    unfolding progress_data_def
  proof (intro allI impI, elim conjE)
    fix i
    assume i: "0 \<le> i" "i < pg_nextToRequest pg'" "i < int (length (pg_buf pg'))"
      "\<forall>r \<in> set (pg_requests pg'). i \<notin> {rq_start r ..< rq_start r + rq_length r}"
    have buf: "int (length (pg_buf pg)) = po_Length ord" using inv ord by (simp add: progress_inv_def)
    have "i < pg_nextToRequest pg"
      using i buf by (auto simp: pg'_def rq_def min_def split: if_splits)
    with d i show "pg_buf pg' ! nat i = P ! nat i"
      by (auto simp: progress_data_def pg'_def)
  qed
qed

lemma fillRequests_loop_inv:
  assumes "progress_inv pg" and "pg_order pg = Some ord"
    and "int (length (pg_requests pg)) + int n \<le> pipelineLength"
  shows "progress_inv (snd (fillRequests_loop n ord w pg))
    \<and> pg_order (snd (fillRequests_loop n ord w pg)) = Some ord
    \<and> (progress_data P pg \<longrightarrow> progress_data P (snd (fillRequests_loop n ord w pg)))"
  using assms
proof (induction n ord w pg rule: fillRequests_loop.induct)
  case (1 ord w pg)
  then show ?case by simp
next
  case (2 n ord w pg)
  let ?rq = "\<lparr>rq_index = po_Index ord, rq_start = pg_nextToRequest pg,
      rq_length = min chunkSize (po_Length ord - pg_nextToRequest pg)\<rparr>"
  let ?pg = "pg\<lparr>pg_requests := pg_requests pg @ [?rq], pg_nextToRequest := rq_start ?rq + chunkSize\<rparr>"
  obtain bs where bs: "SerializeMessage (request_message ?rq) = Inr bs"
    using request_message_serializes by blast
  show ?case
  proof (cases "pg_nextToRequest pg \<ge> po_Length ord")
    case True
    with "2.prems" show ?thesis by simp
  next
    case more: False
    obtain e w1 where w1: "w_write bs w = (e, w1)" by (cases "w_write bs w")
    show ?thesis
    proof (cases e)
      case (Some x)
      with "2.prems" more bs w1 show ?thesis by (simp add: Let_def)
    next
      case None
      have pg': "progress_inv ?pg" "progress_data P pg \<Longrightarrow> progress_data P ?pg"
        using progress_inv_add [OF "2.prems"(1,2)] "2.prems"(3) more by auto
      have "fillRequests_loop (Suc n) ord w pg = fillRequests_loop n ord w1 ?pg"
        using more bs w1 None by (simp add: Let_def)
      with "2.IH" [OF more refl bs w1 [symmetric] None pg'(1)] "2.prems" pg'
      show ?thesis by (auto simp: w1 None)
    qed
  qed
qed

lemma fillRequests_inv:
  assumes "progress_inv pg"
  shows "progress_inv (snd (fillRequests w pg))" and "pg_order (snd (fillRequests w pg)) = pg_order pg"
    and "progress_data P pg \<Longrightarrow> progress_data P (snd (fillRequests w pg))"
proof -
  let ?n = "nat (pipelineLength - int (length (pg_requests pg)))"
  have n: "int (length (pg_requests pg)) + int ?n \<le> pipelineLength" if "pg_order pg = Some ord" for ord
    using assms that by (simp add: progress_inv_def)
  have *: "progress_inv (snd (fillRequests w pg)) \<and> pg_order (snd (fillRequests w pg)) = pg_order pg
    \<and> (progress_data P pg \<longrightarrow> progress_data P (snd (fillRequests w pg)))"
    using fillRequests_loop_inv [OF assms _ n] assms
    by (cases "pg_order pg") (simp_all add: fillRequests_def)
  then show "progress_inv (snd (fillRequests w pg))" "pg_order (snd (fillRequests w pg)) = pg_order pg"
    "progress_data P pg \<Longrightarrow> progress_data P (snd (fillRequests w pg))" by simp_all
qed

section \<open>Receiving a block\<close>

lemma DeleteRequest_Inr:
  assumes "DeleteRequest pg start len = Inr pg'"
  obtains k where "k < length (pg_requests pg)" and "rq_start (pg_requests pg ! k) = start"
    and "rq_length (pg_requests pg ! k) = len"
    and "pg' = pg\<lparr>pg_requests := swap_delete k (pg_requests pg)\<rparr>"
  using assms by (auto simp: DeleteRequest_def dest: find_index_Some split: option.splits)

lemma DeleteRequest_error: "DeleteRequest pg start len = Inl e \<Longrightarrow> e = Errorf ''could not find request''"
  by (auto simp: DeleteRequest_def split: option.splits)

lemma DeleteRequest_found:
  assumes "rq \<in> set (pg_requests pg)"
  shows "\<exists>pg'. DeleteRequest pg (rq_start rq) (rq_length rq) = Inr pg'"
proof (cases "find_index (\<lambda>r. rq_start r = rq_start rq \<and> rq_length r = rq_length rq) (pg_requests pg)")
  case None
  with assms show ?thesis by (auto simp: find_index_None)
qed (simp add: DeleteRequest_def)

text \<open>The state after an accepted block: its request gone, its bytes counted and copied.\<close>

definition accept_block :: "nat \<Rightarrow> int \<Rightarrow> byte list \<Rightarrow> piece_progress \<Rightarrow> piece_progress" where
  "accept_block k begin d pg = pg\<lparr>pg_requests := swap_delete k (pg_requests pg),
     pg_numDone := pg_numDone pg + int (length d),
     pg_buf := go_copy_at (pg_buf pg) (nat begin) d\<rparr>"

lemma accept_block_inv:
  assumes inv: "progress_inv pg" and ord: "pg_order pg = Some ord" and k: "k < length (pg_requests pg)"
    and rq: "rq_start (pg_requests pg ! k) = begin" "rq_length (pg_requests pg ! k) = int (length d)"
  shows "progress_inv (accept_block k begin d pg)"
proof -
  have sub: "set (swap_delete k (pg_requests pg)) \<subseteq> set (pg_requests pg)"
    using k by (rule set_swap_delete_subset)
  have sum: "sum_list (map rq_length (pg_requests pg))
      = int (length d) + sum_list (map rq_length (swap_delete k (pg_requests pg)))"
    using sum_list_swap_delete [OF k, of rq_length] rq by simp
  have "int (length (pg_requests pg)) \<le> pipelineLength"
    using inv ord by (simp add: progress_inv_def)
  then have "int (length (pg_requests pg) - 1) \<le> pipelineLength" by linarith
  then show ?thesis
    using inv ord k rq sub sum distinct_map_swap_delete(1) [OF k, of rq_start]
    by (auto simp: progress_inv_def accept_block_def subset_iff)
qed

text \<open>A block that agrees with \<open>P\<close> keeps the buffer in agreement with \<open>P\<close>.\<close>

lemma accept_block_data:
  assumes data: "progress_data P pg" and k: "k < length (pg_requests pg)"
    and rq: "rq_start (pg_requests pg ! k) = begin" "rq_length (pg_requests pg ! k) = int (length d)"
    and b: "0 \<le> begin" "begin + int (length d) \<le> int (length (pg_buf pg))"
    and block: "d = take (length d) (drop (nat begin) P)"
  shows "progress_data P (accept_block k begin d pg)"
  unfolding progress_data_def
proof (intro allI impI, elim conjE)
  let ?pg = "accept_block k begin d pg"
  fix i
  assume i: "0 \<le> i" "i < pg_nextToRequest ?pg" "i < int (length (pg_buf ?pg))"
    and out: "\<forall>r \<in> set (pg_requests ?pg). i \<notin> {rq_start r ..< rq_start r + rq_length r}"
  have lenb: "nat i < length (pg_buf pg)" "nat begin \<le> length (pg_buf pg)"
    using i b by (auto simp: accept_block_def)
  show "pg_buf ?pg ! nat i = P ! nat i"
  proof (cases "begin \<le> i \<and> i < begin + int (length d)")
    case True
    then have k': "nat begin \<le> nat i" "nat i < nat begin + length d" "nat i - nat begin < length d"
      using b by auto
    have "length d \<le> length (drop (nat begin) P)" using block by (metis length_take min.cobounded1)
    moreover have "0 < length d" using k' by linarith
    ultimately have "nat begin \<le> length P" by (simp; linarith)
    then have "d ! (nat i - nat begin) = P ! nat i"
      using k' by (subst block) simp
    then show ?thesis using k' lenb by (simp add: accept_block_def nth_go_copy_at)
  next
    case False
    have "mset (pg_requests pg) = add_mset (pg_requests pg ! k) (mset (swap_delete k (pg_requests pg)))"
      using mset_swap_delete_add [OF k] by simp
    then have "set (pg_requests pg) = insert (pg_requests pg ! k) (set (swap_delete k (pg_requests pg)))"
      by (metis set_mset_add_mset_insert set_mset_mset)
    then have "\<forall>r \<in> set (pg_requests pg). i \<notin> {rq_start r ..< rq_start r + rq_length r}"
      using out False rq by (auto simp: accept_block_def)
    moreover have "pg_buf ?pg ! nat i = pg_buf pg ! nat i"
      using False b i(1) lenb by (auto simp: accept_block_def nth_go_copy_at)
    ultimately show ?thesis
      using data i by (auto simp: progress_data_def accept_block_def)
  qed
qed

text \<open>
  The four outcomes of a \<open>piece\<close> message: under the invariant a block that answers a request
  always fits, so the bounds check after the counting never fires.
\<close>

lemma handlePieceMsg_cases:
  assumes "progress_inv (ss_progress s)"
  obtains (malformed) e where "handlePieceMsg msg s = (Some e, s)" and "\<not> is_panic e"
  | (no_order) i b d where "DeserializePieceMsg msg = Inr (i, b, d)" and "pg_order (ss_progress s) = None"
      and "handlePieceMsg msg s = (Some (Panic NilDereference), s)"
  | (accepted) i b d ord k where "DeserializePieceMsg msg = Inr (i, b, d)"
      and "pg_order (ss_progress s) = Some ord" and "i = po_Index ord"
      and "k < length (pg_requests (ss_progress s))"
      and "rq_start (pg_requests (ss_progress s) ! k) = b"
      and "rq_length (pg_requests (ss_progress s) ! k) = int (length d)"
      and "0 \<le> b" and "b + int (length d) \<le> int (length (pg_buf (ss_progress s)))"
      and "handlePieceMsg msg s = (None, s\<lparr>ss_progress := accept_block k b d (ss_progress s)\<rparr>)"
proof (cases "DeserializePieceMsg msg")
  case (Inl e)
  then show ?thesis
    using malformed DeserializePieceMsg_total(1) [OF Inl]
    by (simp add: handlePieceMsg_def rewrap_def)
next
  case (Inr ibd)
  obtain i b d where ibd: "DeserializePieceMsg msg = Inr (i, b, d)" using Inr by (cases ibd) auto
  let ?pg = "ss_progress s"
  show ?thesis
  proof (cases "pg_order ?pg")
    case None
    with ibd show ?thesis by (intro no_order) (simp_all add: handlePieceMsg_def)
  next
    case (Some ord)
    show ?thesis
    proof (cases "i = po_Index ord")
      case False
      with ibd Some have "handlePieceMsg msg s = (Some (Errorf ''received a chunk of a different piece''), s)"
        by (simp add: handlePieceMsg_def)
      from malformed [OF this] show ?thesis by simp
    next
      case idx: True
      show ?thesis
      proof (cases "DeleteRequest ?pg b (int (length d))")
        case (Inl e)
        with ibd Some idx DeleteRequest_error [OF Inl]
        have "handlePieceMsg msg s = (Some (Errorf ''error while deleting request''), s)"
          by (simp add: handlePieceMsg_def rewrap_def)
        from malformed [OF this] show ?thesis by simp
      next
        case (Inr pg1)
        then obtain k where k: "k < length (pg_requests ?pg)" "rq_start (pg_requests ?pg ! k) = b"
            "rq_length (pg_requests ?pg ! k) = int (length d)"
            "pg1 = ?pg\<lparr>pg_requests := swap_delete k (pg_requests ?pg)\<rparr>"
          by (rule DeleteRequest_Inr)
        have "block_ok ord (pg_nextToRequest ?pg) (pg_requests ?pg ! k)"
          and buf: "int (length (pg_buf ?pg)) = po_Length ord"
          using assms Some k(1) by (simp_all add: progress_inv_def)
        then have b: "0 \<le> b" "b + int (length d) \<le> int (length (pg_buf ?pg))"
          using k(2,3) by (auto simp: block_ok_def)
        have "handlePieceMsg msg s = (None, s\<lparr>ss_progress := accept_block k b d ?pg\<rparr>)"
          using ibd Some idx Inr k(4) b by (simp add: handlePieceMsg_def accept_block_def Let_def)
        with accepted ibd Some idx k(1-3) b show ?thesis by blast
      qed
    qed
  qed
qed

section \<open>The invariant of the loop\<close>

text \<open>An order of the torrent, and a piece that was verified against it.\<close>

definition order_ok :: "torrent_file \<Rightarrow> piece_order \<Rightarrow> bool" where
  "order_ok t ord \<longleftrightarrow> 0 \<le> po_Index ord \<and> po_Index ord < num_hashes t \<and> 0 \<le> po_Length ord
     \<and> po_Length ord = tf_PieceLength t \<and> po_Hash ord = tf_PieceHashes t ! nat (po_Index ord)"

definition piece_verified :: "(byte list \<Rightarrow> hash) \<Rightarrow> torrent_file \<Rightarrow> piece \<Rightarrow> bool" where
  "piece_verified sha1 t p \<longleftrightarrow> 0 \<le> pc_Index p \<and> pc_Index p < num_hashes t
     \<and> sha1 (pc_Data p) = tf_PieceHashes t ! nat (pc_Index p)
     \<and> pc_Length p = int (length (pc_Data p)) \<and> pc_Length p = tf_PieceLength t"

definition request_ok :: "request \<Rightarrow> bool" where
  "request_ok rq \<longleftrightarrow> 0 \<le> rq_index rq \<and> rq_index rq < 2 ^ 32 \<and> 0 \<le> rq_start rq \<and> rq_start rq < 2 ^ 32
     \<and> 0 \<le> rq_length rq \<and> rq_length rq < 2 ^ 32"

definition session_inv :: "torrent_file \<Rightarrow> session \<Rightarrow> bool" where
  "session_inv t s \<longleftrightarrow> progress_inv (ss_progress s) \<and> bf_wf (pr_Bitfield (ss_peer s))
     \<and> (\<forall>ord. pg_order (ss_progress s) = Some ord \<longrightarrow> order_ok t ord)
     \<and> (\<forall>rq \<in> set (ss_requested s). request_ok rq)"

definition comms_inv :: "(byte list \<Rightarrow> hash) \<Rightarrow> torrent_file \<Rightarrow> communication \<Rightarrow> bool" where
  "comms_inv sha1 t cm \<longleftrightarrow> (\<forall>ord \<in> set (cm_Orders cm). order_ok t ord)
     \<and> (\<forall>p \<in> set (cm_Results cm). piece_verified sha1 t p)"

fun loop_inv :: "(byte list \<Rightarrow> hash) \<Rightarrow> torrent_file \<Rightarrow> loop_state \<Rightarrow> bool" where
  "loop_inv sha1 t (s, cm) \<longleftrightarrow> session_inv t s \<and> comms_inv sha1 t cm"

text \<open>
  The tokens of a loop: the indices of the orders in the queue, the order in progress and the
  results not yet collected. A session that has ended holds nothing any more.
\<close>

definition held :: "session \<Rightarrow> int multiset" where
  "held s = (case pg_order (ss_progress s) of None \<Rightarrow> {#} | Some ord \<Rightarrow> {#po_Index ord#})"

definition comm_tokens :: "communication \<Rightarrow> int multiset" where
  "comm_tokens cm = mset (map po_Index (cm_Orders cm)) + mset (map pc_Index (cm_Results cm))"

fun loop_tokens :: "loop_state \<Rightarrow> int multiset" where
  "loop_tokens (s, cm) = held s + comm_tokens cm"

lemmas token_defs = held_def comm_tokens_def

lemma held_zero [simp]: "pg_order (ss_progress s) = None \<Longrightarrow> held s = {#}"
  by (simp add: held_def)

lemma session_inv_start: "bf_wf (pr_Bitfield p) \<Longrightarrow> session_inv t (session_start p w)"
  by (simp add: session_inv_def session_start_def) (simp add: progress_zero_def)

lemma set_swap_delete_0: "xs \<noteq> [] \<Longrightarrow> set (swap_delete 0 xs) \<subseteq> set xs"
  by (simp add: set_swap_delete_subset)

lemma uploadChunk_index: "uploadChunk pieces requested w = (Inr k, w') \<Longrightarrow> k = 0"
  by (auto simp: uploadChunk_def split: list.splits if_splits sum.splits option.splits prod.splits)

lemma phase_upload_inv:
  assumes "loop_inv sha1 t st" and "phase_upload pieces st = Inr st'"
  shows "loop_inv sha1 t st'" and "loop_tokens st' = loop_tokens st"
    and "ss_progress (fst st') = ss_progress (fst st)" and "ss_peer (fst st') = ss_peer (fst st)"
    and "snd st' = snd st"
proof -
  obtain s cm where st: "st = (s, cm)" by (cases st)
  obtain w rs where st': "st' = (s\<lparr>ss_wr := w, ss_requested := rs\<rparr>, cm)" and rs: "set rs \<subseteq> set (ss_requested s)"
  proof -
    consider (skip) "st' = st" | (err) w where "st' = (s\<lparr>ss_wr := w\<rparr>, cm)"
      | (ok) w where "st' = (s\<lparr>ss_wr := w, ss_requested := swap_delete 0 (ss_requested s)\<rparr>, cm)"
          "ss_requested s \<noteq> []"
      using assms(2) by (auto simp: phase_upload_def st dest: uploadChunk_index split: if_splits sum.splits prod.splits)
    then show ?thesis
    proof cases
      case skip
      then show ?thesis using that [of "ss_requested s" "ss_wr s"] st by simp
    next
      case err
      then show ?thesis using that [of "ss_requested s" w] by simp
    next
      case ok
      then show ?thesis using that [of "swap_delete 0 (ss_requested s)" w] set_swap_delete_0 [OF ok(2)] by simp
    qed
  qed
  show "loop_inv sha1 t st'" using assms(1) rs by (auto simp: st st' session_inv_def)
  show "loop_tokens st' = loop_tokens st" by (simp add: st st' held_def)
  show "ss_progress (fst st') = ss_progress (fst st)" "ss_peer (fst st') = ss_peer (fst st)"
    "snd st' = snd st" by (simp_all add: st st')
qed

lemma comms_inv_send_order:
  "comms_inv sha1 t cm \<Longrightarrow> order_ok t ord \<Longrightarrow>
    comms_inv sha1 t (cm\<lparr>cm_Orders := ch_send ord (cm_Orders cm)\<rparr>)"
  by (auto simp: comms_inv_def chan.contents_send)

lemma comm_tokens_send_order:
  "comm_tokens (cm\<lparr>cm_Orders := ch_send ord (cm_Orders cm)\<rparr>) = add_mset (po_Index ord) (comm_tokens cm)"
  by (simp add: comm_tokens_def chan.contents_send)

text \<open>Completion: the held order turns into a queued order or a result, one for one.\<close>

lemma handlePieceComplete_ok:
  assumes "handlePieceComplete sha1 pg p w cm = (None, p', w', cm')" and "pg_order pg = Some ord"
  shows "(sha1 (pg_buf pg) \<noteq> po_Hash ord \<and> p' = p \<and> w' = w \<and>
          cm' = cm\<lparr>cm_Orders := ch_send ord (cm_Orders cm)\<rparr>)
    \<or> (sha1 (pg_buf pg) = po_Hash ord \<and> (\<exists>d. p' = p\<lparr>pr_Downloaded := d\<rparr>) \<and>
          cm' = cm\<lparr>cm_Results := ch_send \<lparr>pc_Index = po_Index ord, pc_Length = po_Length ord,
            pc_Data = pg_buf pg, pc_From = pr_ID p\<rparr> (cm_Results cm)\<rparr>)"
  using assms
  by (auto simp: handlePieceComplete_def split: if_splits sum.splits prod.splits option.splits)

lemma handlePieceComplete_error:
  assumes "handlePieceComplete sha1 pg p w cm = (Some e, p', w', cm')"
  shows "p' = p \<and> cm' = cm"
  using assms
  by (auto simp: handlePieceComplete_def split: if_splits sum.splits prod.splits option.splits)

lemma phase_complete_inv:
  assumes "loop_inv sha1 t st" and "phase_complete sha1 st = Inr st'"
  shows "loop_inv sha1 t st'" and "loop_tokens st' = loop_tokens st"
proof -
  obtain s cm where st: "st = (s, cm)" by (cases st)
  have inv: "session_inv t s" "comms_inv sha1 t cm" using assms(1) by (simp_all add: st)
  have "loop_inv sha1 t st' \<and> loop_tokens st' = loop_tokens st"
  proof (cases "pg_order (ss_progress s)")
    case None
    with assms show ?thesis by (auto simp: st phase_complete_def)
  next
    case (Some ord)
    have ord: "order_ok t ord" using inv(1) Some by (simp add: session_inv_def)
    obtain e p w cm1 where h: "handlePieceComplete sha1 (ss_progress s) (ss_peer s) (ss_wr s) cm = (e, p, w, cm1)"
      by (metis prod_cases4)
    show ?thesis
    proof (cases "pg_numDone (ss_progress s) = po_Length ord")
      case False
      with assms Some show ?thesis by (auto simp: st phase_complete_def)
    next
      case full: True
      show ?thesis
      proof (cases e)
        case err: (Some x)
        with full h Some assms(2) have "st' = (s\<lparr>ss_peer := p, ss_wr := w\<rparr>, cm1)"
          by (simp add: st phase_complete_def split: if_splits)
        with handlePieceComplete_error [OF h [unfolded err]] inv show ?thesis
          by (simp add: st session_inv_def held_def)
      next
        case ok: None
        with full h Some assms(2) have st': "st' = (s\<lparr>ss_peer := p, ss_wr := w, ss_progress := progress_zero\<rparr>, cm1)"
          by (simp add: st phase_complete_def)
        have len: "int (length (pg_buf (ss_progress s))) = po_Length ord"
          using inv(1) Some by (simp add: session_inv_def progress_inv_def)
        have zero: "pg_order progress_zero = None" by (simp add: progress_zero_def)
        have heldold: "held s = {#po_Index ord#}" by (simp add: held_def Some)
        from handlePieceComplete_ok [OF h [unfolded ok] Some] show ?thesis
        proof
          assume bad: "sha1 (pg_buf (ss_progress s)) \<noteq> po_Hash ord \<and> p = ss_peer s \<and> w = ss_wr s \<and>
            cm1 = cm\<lparr>cm_Orders := ch_send ord (cm_Orders cm)\<rparr>"
          with inv ord show ?thesis
            by (simp add: st st' session_inv_def zero comms_inv_send_order comm_tokens_send_order heldold)
        next
          assume "sha1 (pg_buf (ss_progress s)) = po_Hash ord \<and> (\<exists>d. p = (ss_peer s)\<lparr>pr_Downloaded := d\<rparr>) \<and>
            cm1 = cm\<lparr>cm_Results := ch_send \<lparr>pc_Index = po_Index ord, pc_Length = po_Length ord,
              pc_Data = pg_buf (ss_progress s), pc_From = pr_ID (ss_peer s)\<rparr> (cm_Results cm)\<rparr>"
          with inv ord len show ?thesis
            by (auto simp: st st' session_inv_def zero comms_inv_def chan.contents_send heldold
                comm_tokens_def piece_verified_def order_ok_def)
        qed
      qed
    qed
  qed
  then show "loop_inv sha1 t st'" and "loop_tokens st' = loop_tokens st" by simp_all
qed

text \<open>Taking an order: it moves from the queue to the session, or goes to the back of the queue.\<close>

lemma getPiece_cases:
  assumes "getPiece p orders = Inr (got, orders')"
  shows "(got = None \<and> mset orders' = mset orders)
    \<or> (\<exists>ord. got = Some ord \<and> orders = ord # orders' \<and> bf_Get (pr_Bitfield p) (po_Index ord) = Inr True)"
  using assms
  by (auto simp: getPiece_def ch_try_recv_def ch_send_def split: list.splits sum.splits bool.splits if_splits)

lemma phase_order_inv:
  assumes "loop_inv sha1 t st" and "phase_order t st = Inr st'"
  shows "loop_inv sha1 t st'" and "loop_tokens st' = loop_tokens st"
proof -
  obtain s cm where st: "st = (s, cm)" by (cases st)
  have inv: "session_inv t s" "comms_inv sha1 t cm" using assms(1) by (simp_all add: st)
  have "loop_inv sha1 t st' \<and> loop_tokens st' = loop_tokens st"
  proof (cases "pg_order (ss_progress s) = None \<and> bf_Length (pr_Bitfield (ss_peer s)) = num_hashes t")
    case False
    with assms show ?thesis by (auto simp: st phase_order_def)
  next
    case True
    then have zero: "ss_progress s = progress_zero"
      using inv(1) by (simp add: session_inv_def progress_inv_None)
    obtain got orders where g: "getPiece (ss_peer s) (cm_Orders cm) = Inr (got, orders)"
      using assms(2) True by (auto simp: st phase_order_def)
    from getPiece_cases [OF g] show ?thesis
    proof
      assume n: "got = None \<and> mset orders = mset (cm_Orders cm)"
      then have "set orders = set (cm_Orders cm)" by (metis set_mset_mset)
      with n g True assms(2) inv show ?thesis
        by (auto simp: st phase_order_def comms_inv_def held_def comm_tokens_def)
    next
      assume "\<exists>ord. got = Some ord \<and> cm_Orders cm = ord # orders \<and>
        bf_Get (pr_Bitfield (ss_peer s)) (po_Index ord) = Inr True"
      then obtain ord where ord: "got = Some ord" "cm_Orders cm = ord # orders" by auto
      then have ok: "order_ok t ord" using inv(2) by (simp add: comms_inv_def)
      then have len: "0 \<le> po_Length ord" by (simp add: order_ok_def)
      have st': "st' = (s\<lparr>ss_progress := progress_zero\<lparr>pg_order := Some ord,
          pg_buf := replicate (nat (po_Length ord)) 0\<rparr>\<rparr>, cm\<lparr>cm_Orders := orders\<rparr>)"
        using g True ord assms(2) len by (simp add: st phase_order_def zero)
      with inv ord ok progress_inv_start [OF len] True show ?thesis
        by (simp add: st session_inv_def comms_inv_def held_def comm_tokens_def progress_zero_def)
    qed
  qed
  then show "loop_inv sha1 t st'" and "loop_tokens st' = loop_tokens st" by simp_all
qed

lemma sendInterested_peer:
  "sendInterested p w = (p', w') \<Longrightarrow> p' = p \<or> p' = p\<lparr>pr_InterestedSent := True\<rparr>"
  by (auto simp: sendInterested_def split: sum.splits prod.splits option.splits)

lemma phase_interested_inv:
  assumes "loop_inv sha1 t st"
  shows "loop_inv sha1 t (phase_interested st)" and "loop_tokens (phase_interested st) = loop_tokens st"
    and "ss_progress (fst (phase_interested st)) = ss_progress (fst st)" and "snd (phase_interested st) = snd st"
  using assms
  by (cases st; auto simp: phase_interested_def session_inv_def held_def
      split: prod.splits dest!: sendInterested_peer)+

lemma phase_requests_inv:
  assumes "loop_inv sha1 t st"
  shows "loop_inv sha1 t (phase_requests st)" and "loop_tokens (phase_requests st) = loop_tokens st"
    and "snd (phase_requests st) = snd st"
proof -
  obtain s cm where st: "st = (s, cm)" by (cases st)
  obtain w pg where f: "fillRequests (ss_wr s) (ss_progress s) = (w, pg)" by force
  have "progress_inv (ss_progress s)" using assms by (simp add: st session_inv_def)
  from fillRequests_inv(1,2) [OF this, of "ss_wr s"] f have "progress_inv pg"
    "pg_order pg = pg_order (ss_progress s)" by simp_all
  with assms f show "loop_inv sha1 t (phase_requests st)" "loop_tokens (phase_requests st) = loop_tokens st"
    "snd (phase_requests st) = snd st"
    by (simp_all add: st phase_requests_def session_inv_def held_def)
qed

lemma loop_top_inv:
  assumes "loop_inv sha1 t st" and "loop_top sha1 t pieces st = Inr st'"
  shows "loop_inv sha1 t st'" and "loop_tokens st' = loop_tokens st"
proof -
  from assms(2) obtain st1 st2 st3 where u: "phase_upload pieces st = Inr st1"
    and c: "phase_complete sha1 st1 = Inr st2" and p: "phase_order t st2 = Inr st3"
    and st': "st' = phase_requests (phase_interested st3)"
    by (auto simp: loop_top_def)
  note i1 = phase_upload_inv(1,2) [OF assms(1) u]
  note i2 = phase_complete_inv [OF i1(1) c]
  note i3 = phase_order_inv [OF i2(1) p]
  note i4 = phase_interested_inv(1,2) [OF i3(1)]
  note i5 = phase_requests_inv(1,2) [OF i4(1)]
  show "loop_inv sha1 t st'" "loop_tokens st' = loop_tokens st"
    using i1 i2 i3 i4 i5 by (simp_all add: st')
qed

section \<open>Events\<close>

lemma bitfield_bytes_expected_eq: "0 \<le> n \<Longrightarrow> bitfield_bytes_expected n = bf_byte_len n"
  by (simp add: bitfield_bytes_expected_def bf_byte_len_alt)

lemma bf_FromBytes_wf:
  "0 \<le> n \<Longrightarrow> int (length bs) = bf_byte_len n \<Longrightarrow> bf_wf (bf_FromBytes bs n)"
  by (simp add: bf_wf_def bf_FromBytes_def bf_byte_len_def)

lemma handlePieceMsg_inv:
  assumes "session_inv t s" and "handlePieceMsg msg s = (e, s')"
  shows "session_inv t s' \<and> held s' = held s"
proof -
  have "progress_inv (ss_progress s)" using assms(1) by (simp add: session_inv_def)
  then show ?thesis
  proof (cases rule: handlePieceMsg_cases [of s msg])
    case (accepted i b d ord k)
    have "progress_inv (accept_block k b d (ss_progress s))"
      using accept_block_inv [OF \<open>progress_inv (ss_progress s)\<close> accepted(2,4,5,6)] .
    moreover have "pg_order (accept_block k b d (ss_progress s)) = pg_order (ss_progress s)"
      by (simp add: accept_block_def)
    ultimately show ?thesis
      using assms accepted(9) by (auto simp: session_inv_def held_def)
  qed (use assms in auto)
qed

lemma handleMessage_inv:
  assumes "loop_inv sha1 t (s, cm)" and "handleMessage t msg s cm = (e, s', cm')"
  shows "loop_inv sha1 t (s', cm')" and "held s' = held s" and "comm_tokens cm' = comm_tokens cm"
proof -
  have inv: "session_inv t s" "comms_inv sha1 t cm" using assms(1) by simp_all
  have req: "request_ok \<lparr>rq_index = i, rq_start = b, rq_length = l\<rparr>"
    if "DeserializeRequestMsg msg = Inr (i, b, l)" for i b l
    using DeserializeRequestMsg_total(2) [OF that] by (simp add: request_ok_def)
  have "loop_inv sha1 t (s', cm') \<and> held s' = held s \<and> comm_tokens cm' = comm_tokens cm"
    using assms(2) inv
    by (auto simp: handleMessage_def Let_def session_inv_def comms_inv_def held_def comm_tokens_def
        bf_FromBytes_wf bitfield_bytes_expected_eq req
        split: if_splits sum.splits prod.splits dest!: handlePieceMsg_inv [OF inv(1)])
  then show "loop_inv sha1 t (s', cm')" and "held s' = held s" and "comm_tokens cm' = comm_tokens cm"
    by simp_all
qed

end
