(* ===== verification/Session_Events.thy ===== *)
theory Session_Events
  imports Session_Inv
begin

text \<open>
  One round of the communication loop: the invariant and the order tokens over every event, the
  exact conditions under which a message or a round panics, and what is served to the peer and
  in which order.
\<close>

section \<open>Events keep the invariant; where the order in progress goes\<close>

lemma loop_inv_requeue:
  "loop_inv sha1 t (s, cm) \<Longrightarrow> loop_inv sha1 t (s, requeue_order s cm)"
  by (auto simp: requeue_order_def session_inv_def comms_inv_def chan.contents_send split: option.split)

lemma comm_tokens_requeue [simp]: "comm_tokens (requeue_order s cm) = loop_tokens (s, cm)"
  by (simp add: requeue_order_def held_def comm_tokens_send_order split: option.split)

lemma comm_tokens_report_end [simp]: "comm_tokens (report_end s cm) = comm_tokens cm"
  by (simp add: report_end_def comm_tokens_def)

lemma comms_inv_report_end [simp]: "comms_inv sha1 t (report_end s cm) = comms_inv sha1 t cm"
  by (simp add: report_end_def comms_inv_def)

lemma handle_event_loop_inv:
  assumes "loop_inv sha1 t st" and "handle_event t ev st = Inr (status, st')"
  shows "loop_inv sha1 t st'"
proof (cases st)
  case (Pair s cm)
  have msg: "loop_inv sha1 t (s1, cm1)" if "handleMessage t m s cm = (e, s1, cm1)" for m e s1 cm1
    using handleMessage_inv(1) [OF assms(1) [unfolded Pair] that] .
  show ?thesis
    using assms loop_inv_requeue [of sha1 t s cm] unfolding Pair
    by (cases ev)
       (auto simp: Let_def session_inv_def split: if_splits prod.splits option.splits dest!: msg)
qed

lemma handle_event_Looping_tokens:
  assumes "loop_inv sha1 t st" and "handle_event t ev st = Inr (Looping, st')"
  shows "loop_tokens st' = loop_tokens st"
proof (cases st)
  case (Pair s cm)
  have msg: "held s1 = held s \<and> comm_tokens cm1 = comm_tokens cm"
    if "handleMessage t m s cm = (e, s1, cm1)" for m e s1 cm1
    using handleMessage_inv(2,3) [OF assms(1) [unfolded Pair] that] by simp
  show ?thesis
    using assms unfolding Pair
    by (cases ev) (auto simp: Let_def held_def split: if_splits prod.splits option.splits dest!: msg)
qed

text \<open>
  A loop ended by the context, by the connection or by the main goroutine gives its order back;
  one ended by a message it cannot handle does not: the order in progress is gone.
\<close>

definition ends_by_message :: "event \<Rightarrow> bool" where
  "ends_by_message ev = (case ev of Received m \<Rightarrow> True | _ \<Rightarrow> False)"

lemma handle_event_Ended_tokens:
  assumes "loop_inv sha1 t (s, cm)" and "handle_event t ev (s, cm) = Inr (Ended, s', cm')"
  shows "comm_tokens cm' = (if ends_by_message ev then comm_tokens cm else loop_tokens (s, cm))"
proof -
  have msg: "comm_tokens cm1 = comm_tokens cm"
    if "handleMessage t m s cm = (e, s1, cm1)" for m e s1 cm1
    using handleMessage_inv(3) [OF assms(1) that] by simp
  show ?thesis
    using assms(2)
    by (cases ev)
       (auto simp: Let_def ends_by_message_def split: if_splits prod.splits option.splits dest!: msg)
qed

section \<open>Which messages end the program\<close>

lemma handleMessage_panic_iff:
  assumes "session_inv t s"
  shows "(\<exists>q. fst (handleMessage t msg s cm) = Some (Panic q)) \<longleftrightarrow>
    (pm_Code msg = MsgHave \<and> length (pm_Data msg) < 4)
    \<or> (pm_Code msg = MsgPiece \<and> 8 < length (pm_Data msg) \<and> pg_order (ss_progress s) = None)"
proof -
  have inv: "progress_inv (ss_progress s)" using assms by (simp add: session_inv_def)
  have have_panic: "(\<exists>q. be_get32 bs = Inl (Panic q)) \<longleftrightarrow> length bs < 4" for bs
    using be_get32_short [of bs] be_get32_Inr [of bs] by (cases "length bs < 4") auto
  have have_err: "be_get32 bs = Inl e \<Longrightarrow> \<exists>q. e = Panic q" for bs e
    by (auto simp: be_get32_def split: list.splits)
  have piece: "(\<exists>q. fst (handlePieceMsg msg s) = Some (Panic q)) \<longleftrightarrow>
      8 < length (pm_Data msg) \<and> pg_order (ss_progress s) = None" if "pm_Code msg = MsgPiece"
    using inv
  proof (cases rule: handlePieceMsg_cases [of s msg])
    case (malformed e)
    have "\<exists>i b d. DeserializePieceMsg msg = Inr (i, b, d)" if "8 < length (pm_Data msg)"
      using that \<open>pm_Code msg = MsgPiece\<close> be_get32_Inr [of "take 4 (pm_Data msg)"]
        be_get32_Inr [of "take 4 (drop 4 (pm_Data msg))"]
      by (fastforce simp: DeserializePieceMsg_def)
    with malformed show ?thesis by (fastforce simp: handlePieceMsg_def)
  next
    case (no_order i b d)
    then show ?thesis by (auto simp: DeserializePieceMsg_def split: if_splits)
  next
    case (accepted i b d ord k)
    then show ?thesis by simp
  qed
  show ?thesis
    using piece have_panic [of "pm_Data msg"] have_err [of "pm_Data msg"] DeserializeRequestMsg_total(1) [of msg]
    by (auto simp: handleMessage_def Let_def rewrap_def split: sum.splits prod.splits if_splits)
qed

section \<open>Serving the peer\<close>

definition block_message :: "piece \<Rightarrow> request \<Rightarrow> peer_message" where
  "block_message p rq = SerializePieceMsg \<lparr>pm_KeepAlive = False, pm_Code = MsgPiece, pm_Data = []\<rparr>
     (rq_index rq) (rq_start rq) (take (nat (rq_length rq)) (drop (nat (rq_start rq)) (pc_Data p)))"

text \<open>A request the results can answer: the piece is there and the block lies inside it.\<close>

definition servable :: "piece option list \<Rightarrow> request \<Rightarrow> bool" where
  "servable pieces rq \<longleftrightarrow> rq_index rq < int (length pieces)
     \<and> (\<exists>p. pieces ! nat (rq_index rq) = Some p
          \<and> rq_start rq + rq_length rq \<le> int (length (pc_Data p)))"

definition pieces_small :: "piece option list \<Rightarrow> bool" where
  "pieces_small pieces \<longleftrightarrow> (\<forall>p. Some p \<in> set pieces \<longrightarrow> length (pc_Data p) + 13 < 2 ^ 32)"

lemma block_message_serializes:
  assumes "length (pc_Data p) + 13 < 2 ^ 32"
  shows "SerializeMessage (block_message p rq) = Inr (message_frame (block_message p rq))"
proof (rule SerializeMessage_frame)
  have "length (take (nat (rq_length rq)) (drop (nat (rq_start rq)) (pc_Data p))) \<le> length (pc_Data p)"
    by simp
  then show "message_ok (block_message p rq)"
    using assms unfolding block_message_def message_ok_def SerializePieceMsg_def
    by (simp del: length_take length_drop)
qed (simp add: block_message_def SerializePieceMsg_def)

lemma uploadChunk_cases:
  assumes rq: "request_ok rq" and small: "pieces_small pieces"
  obtains (servable) p where "servable pieces rq" and "pieces ! nat (rq_index rq) = Some p"
      and "uploadChunk pieces (rq # rqs) w = (case w_write (message_frame (block_message p rq)) w of
            (Some e, w1) \<Rightarrow> (Inl (Errorf ''error while sending piece message''), w1)
          | (None, w1) \<Rightarrow> (Inr 0, w1))"
  | (missing) "\<not> servable pieces rq" and "rq_index rq < int (length pieces)"
      and "pieces ! nat (rq_index rq) = None"
      and "uploadChunk pieces (rq # rqs) w = (Inl (Panic NilDereference), w)"
  | (refused) m where "\<not> servable pieces rq"
      and "rq_index rq < int (length pieces) \<longrightarrow> pieces ! nat (rq_index rq) \<noteq> None"
      and "uploadChunk pieces (rq # rqs) w = (Inl (Errorf m), w)"
proof (cases "rq_index rq < int (length pieces)")
  case False
  then show ?thesis
    by (intro refused [of "''requested piece number does not exist''"]) (simp_all add: uploadChunk_def servable_def)
next
  case True
  have nn: "0 \<le> rq_index rq" "0 \<le> rq_start rq" "0 \<le> rq_length rq"
    using rq by (simp_all add: request_ok_def)
  show ?thesis
  proof (cases "pieces ! nat (rq_index rq)")
    case None
    then show ?thesis using True nn by (intro missing) (simp_all add: uploadChunk_def servable_def)
  next
    case (Some p)
    show ?thesis
    proof (cases "rq_start rq + rq_length rq \<le> int (length (pc_Data p))")
      case False
      then show ?thesis using Some True nn
        by (intro refused [of "''requested data out of bounds''"]) (simp_all add: uploadChunk_def servable_def)
    next
      case fits: True
      have "Some p \<in> set pieces" using Some True nn nth_mem [of "nat (rq_index rq)" pieces] by simp
      then have "length (pc_Data p) + 13 < 2 ^ 32" using small by (simp add: pieces_small_def)
      from block_message_serializes [OF this, of rq] show ?thesis
        using Some True nn fits
        by (intro servable [of p]) (simp_all add: uploadChunk_def servable_def go_slice_def block_message_def)
    qed
  qed
qed

text \<open>The only way a round of the loop panics: a request for a piece that is not there.\<close>

lemma have_message_serializes:
  "\<exists>bs. SerializeMessage \<lparr>pm_KeepAlive = False, pm_Code = MsgHave, pm_Data = be_put32 v\<rparr> = Inr bs"
  using SerializeMessage_frame [of "\<lparr>pm_KeepAlive = False, pm_Code = MsgHave, pm_Data = be_put32 v\<rparr>"]
  by (simp add: message_ok_def)

lemma handlePieceComplete_no_panic:
  assumes "pg_order pg = Some ord" and "fst (handlePieceComplete sha1 pg p w cm) = Some e"
  shows "\<not> is_panic e"
  using assms have_message_serializes [of "uint32_of (po_Index ord)"]
  by (auto simp: handlePieceComplete_def split: if_splits sum.splits prod.splits option.splits)

lemma phase_complete_no_panic: "phase_complete sha1 st \<noteq> Inl e"
proof (cases st)
  case (Pair s cm)
  obtain x p w cm1 where h: "handlePieceComplete sha1 (ss_progress s) (ss_peer s) (ss_wr s) cm = (x, p, w, cm1)"
    by (metis prod_cases4)
  show ?thesis
    using h handlePieceComplete_no_panic [of "ss_progress s" _ sha1 "ss_peer s" "ss_wr s" cm]
    by (auto simp: Pair phase_complete_def split: option.splits)
qed

lemma phase_order_no_panic:
  assumes "loop_inv sha1 t st"
  shows "phase_order t st \<noteq> Inl e"
proof (cases st)
  case (Pair s cm)
  show ?thesis
  proof (cases "cm_Orders cm")
    case Nil
    then show ?thesis by (simp add: Pair phase_order_def getPiece_def ch_try_recv_def)
  next
    case (Cons ord rest)
    then have "order_ok t ord" and wf: "bf_wf (pr_Bitfield (ss_peer s))"
      using assms by (simp_all add: Pair comms_inv_def session_inv_def)
    then have len: "0 \<le> po_Length ord" and "0 \<le> po_Index ord" by (simp_all add: order_ok_def)
    then have "bf_Get (pr_Bitfield (ss_peer s)) (po_Index ord) \<noteq> Inl (Panic q)" for q
      using bf.get_no_panic [OF wf] by blast
    then have "\<not> is_panic e" if "bf_Get (pr_Bitfield (ss_peer s)) (po_Index ord) = Inl e" for e
      using that by (cases e) auto
    with len Cons show ?thesis
      by (auto simp: Pair phase_order_def getPiece_def ch_try_recv_def bind_result_def
          split: sum.splits bool.splits if_splits)
  qed
qed

text \<open>Serving is due when the peer is interested and not choked and has asked for something.\<close>

definition serving :: "session \<Rightarrow> bool" where
  "serving s \<longleftrightarrow> \<not> pr_Choking (ss_peer s) \<and> pr_Interested (ss_peer s) \<and> ss_requested s \<noteq> []"

lemma phase_upload_panic_iff:
  assumes "session_inv t s" and "pieces_small pieces"
  shows "(\<exists>e. phase_upload pieces (s, cm) = Inl e) \<longleftrightarrow>
    serving s \<and> rq_index (hd (ss_requested s)) < int (length pieces)
    \<and> pieces ! nat (rq_index (hd (ss_requested s))) = None"
proof (cases "serving s")
  case False
  then show ?thesis by (auto simp: phase_upload_def serving_def)
next
  case True
  then obtain rq rqs where r: "ss_requested s = rq # rqs" by (cases "ss_requested s") (auto simp: serving_def)
  then have rq: "request_ok rq" using assms(1) by (simp add: session_inv_def)
  from rq assms(2) show ?thesis
  proof (cases rule: uploadChunk_cases [of rq pieces rqs "ss_wr s"])
    case (servable p)
    then show ?thesis
      using True r by (auto simp: phase_upload_def serving_def split: prod.splits option.splits)
  next
    case missing
    with True r show ?thesis by (simp add: phase_upload_def serving_def)
  next
    case (refused m)
    with True r show ?thesis by (auto simp: phase_upload_def serving_def)
  qed
qed

lemma loop_top_panic_iff:
  assumes "loop_inv sha1 t (s, cm)" and "pieces_small pieces"
  shows "(\<exists>e. loop_top sha1 t pieces (s, cm) = Inl e) \<longleftrightarrow>
    serving s \<and> rq_index (hd (ss_requested s)) < int (length pieces)
    \<and> pieces ! nat (rq_index (hd (ss_requested s))) = None"
proof (cases "phase_upload pieces (s, cm)")
  case (Inl e)
  then show ?thesis
    using phase_upload_panic_iff [of t s pieces cm] assms by (simp add: loop_top_def)
next
  case (Inr st1)
  obtain st2 where c: "phase_complete sha1 st1 = Inr st2"
    using phase_complete_no_panic [of sha1 st1] by (cases "phase_complete sha1 st1") auto
  have "loop_inv sha1 t st2"
    using phase_complete_inv(1) [OF phase_upload_inv(1) [OF assms(1) Inr] c] .
  then obtain st3 where "phase_order t st2 = Inr st3"
    using phase_order_no_panic [of sha1 t st2] by (cases "phase_order t st2") auto
  with Inr c show ?thesis
    using phase_upload_panic_iff [of t s pieces cm] assms by (auto simp: loop_top_def)
qed

section \<open>The order of serving\<close>

lemma swap_delete_0_snoc: "swap_delete 0 (x # xs @ [y]) = y # xs"
  by (simp add: swap_delete_def)

lemma swap_delete_0_rev: "swap_delete 0 (x # rev (y # ys)) = y # rev ys"
  by (simp add: swap_delete_0_snoc)

lemma phase_upload_servable:
  assumes "serving s" and "ss_requested s = rq # rqs" and "request_ok rq" and "pieces_small pieces"
    and "servable pieces rq" and "w_reliable (ss_wr s)"
  shows "phase_upload pieces (s, cm) = Inr (s\<lparr>ss_wr := (ss_wr s)\<lparr>w_out := w_out (ss_wr s)
      @ message_frame (block_message (the (pieces ! nat (rq_index rq))) rq)\<rparr>,
      ss_requested := swap_delete 0 (rq # rqs)\<rparr>, cm)"
  using assms(3,4)
proof (cases rule: uploadChunk_cases [of rq pieces rqs "ss_wr s"])
  case (servable p)
  then show ?thesis using assms(1,2,6) by (simp add: phase_upload_def serving_def)
qed (use assms(5) in auto)

fun upload_rounds :: "nat \<Rightarrow> piece option list \<Rightarrow> loop_state \<Rightarrow> loop_state result" where
  "upload_rounds 0 pieces st = Inr st"
| "upload_rounds (Suc n) pieces st = bind_result (phase_upload pieces st) (upload_rounds n pieces)"

text \<open>
  With every request servable, the first one is answered first, and then the others
  \<^emph>\<open>from the last to the second\<close>: the deletion moves the last request to the front.
\<close>

definition serve_order :: "request list \<Rightarrow> request list" where
  "serve_order rqs = (case rqs of [] \<Rightarrow> [] | rq # rest \<Rightarrow> rq # rev rest)"

lemma upload_rounds_aux:
  assumes "\<not> pr_Choking (ss_peer s)" and "pr_Interested (ss_peer s)" and "pieces_small pieces"
    and "\<forall>rq \<in> set (rq # rest). request_ok rq \<and> servable pieces rq" and "w_reliable (ss_wr s)"
    and "ss_requested s = rq # rev rest"
  shows "upload_rounds (Suc (length rest)) pieces (s, cm) = Inr (s\<lparr>ss_wr := (ss_wr s)\<lparr>w_out := w_out (ss_wr s)
      @ concat (map (\<lambda>r. message_frame (block_message (the (pieces ! nat (rq_index r))) r)) (rq # rest))\<rparr>,
      ss_requested := []\<rparr>, cm)"
  using assms(1,2,4-6)
proof (induction rest arbitrary: rq s)
  case Nil
  then have "phase_upload pieces (s, cm) = Inr (s\<lparr>ss_wr := (ss_wr s)\<lparr>w_out := w_out (ss_wr s)
      @ message_frame (block_message (the (pieces ! nat (rq_index rq))) rq)\<rparr>,
      ss_requested := swap_delete 0 [rq]\<rparr>, cm)"
    using assms(3) by (intro phase_upload_servable) (auto simp: serving_def)
  then show ?case by (simp add: swap_delete_def)
next
  case (Cons r rest)
  let ?s = "s\<lparr>ss_wr := (ss_wr s)\<lparr>w_out := w_out (ss_wr s)
      @ message_frame (block_message (the (pieces ! nat (rq_index rq))) rq)\<rparr>,
      ss_requested := swap_delete 0 (rq # rev (r # rest))\<rparr>"
  have "phase_upload pieces (s, cm) = Inr (?s, cm)"
    using Cons.prems assms(3) by (intro phase_upload_servable) (auto simp: serving_def)
  moreover have "upload_rounds (Suc (length rest)) pieces (?s, cm) = Inr (?s\<lparr>ss_wr := (ss_wr ?s)\<lparr>w_out := w_out (ss_wr ?s)
      @ concat (map (\<lambda>r. message_frame (block_message (the (pieces ! nat (rq_index r))) r)) (r # rest))\<rparr>,
      ss_requested := []\<rparr>, cm)"
    using Cons.prems by (intro Cons.IH) (auto simp: swap_delete_0_snoc)
  ultimately show ?case by (simp add: algebra_simps)
qed

lemma upload_rounds_order:
  assumes "\<not> pr_Choking (ss_peer s)" and "pr_Interested (ss_peer s)" and "pieces_small pieces"
    and "\<forall>rq \<in> set (ss_requested s). request_ok rq \<and> servable pieces rq" and "w_reliable (ss_wr s)"
  shows "upload_rounds (length (ss_requested s)) pieces (s, cm) = Inr (s\<lparr>ss_wr := (ss_wr s)\<lparr>w_out := w_out (ss_wr s)
      @ concat (map (\<lambda>r. message_frame (block_message (the (pieces ! nat (rq_index r))) r))
          (serve_order (ss_requested s)))\<rparr>, ss_requested := []\<rparr>, cm)"
proof (cases "ss_requested s")
  case Nil
  then show ?thesis by (simp add: serve_order_def)
next
  case (Cons rq rest)
  with assms upload_rounds_aux [of s pieces rq "rev rest" cm]
  show ?thesis by (simp add: serve_order_def)
qed

section \<open>A request that cannot be answered\<close>

text \<open>
  A request past the end of a piece, or for a piece number the torrent does not have, is neither
  answered nor dropped: it stays at the front, and the requests behind it wait for ever.
\<close>

definition refused_request :: "piece option list \<Rightarrow> request \<Rightarrow> bool" where
  "refused_request pieces rq \<longleftrightarrow> request_ok rq \<and> \<not> servable pieces rq
     \<and> (rq_index rq < int (length pieces) \<longrightarrow> pieces ! nat (rq_index rq) \<noteq> None)"

lemma phase_upload_refused:
  assumes "ss_requested s = rq # rqs" and "refused_request pieces rq" and "pieces_small pieces"
  shows "phase_upload pieces (s, cm) = Inr (s, cm)"
proof (cases "serving s")
  case False
  then show ?thesis by (auto simp: phase_upload_def serving_def)
next
  case True
  have "request_ok rq" using assms(2) by (simp add: refused_request_def)
  then show ?thesis
    using assms(3)
  proof (cases rule: uploadChunk_cases [of rq pieces rqs "ss_wr s"])
    case (refused m)
    then show ?thesis using assms(1) True by (simp add: phase_upload_def serving_def)
  qed (use assms(2) in \<open>auto simp: refused_request_def\<close>)
qed

lemma phases_keep_requested:
  "phase_complete sha1 (s, cm) = Inr (s1, cm1) \<Longrightarrow> ss_requested s1 = ss_requested s"
  "phase_order t (s, cm) = Inr (s1, cm1) \<Longrightarrow> ss_requested s1 = ss_requested s"
  "ss_requested (fst (phase_interested st)) = ss_requested (fst st)"
  "ss_requested (fst (phase_requests st)) = ss_requested (fst st)"
  by (auto simp: phase_complete_def phase_order_def phase_interested_def phase_requests_def
      split: option.splits prod.splits if_splits)

lemma loop_top_refused:
  assumes "ss_requested s = rq # rqs" and "refused_request pieces rq" and "pieces_small pieces"
    and "loop_top sha1 t pieces (s, cm) = Inr (s', cm')"
  shows "ss_requested s' = ss_requested s"
proof -
  obtain s2 cm2 s3 cm3 where "phase_complete sha1 (s, cm) = Inr (s2, cm2)"
    and "phase_order t (s2, cm2) = Inr (s3, cm3)"
    and "(s', cm') = phase_requests (phase_interested (s3, cm3))"
    using assms(4) phase_upload_refused [OF assms(1-3), of cm] by (fastforce simp: loop_top_def)
  then show ?thesis
    using phases_keep_requested by (metis fst_conv)
qed

lemma handlePieceMsg_requested: "handlePieceMsg msg s = (e, s') \<Longrightarrow> ss_requested s' = ss_requested s"
  by (auto simp: handlePieceMsg_def Let_def split: sum.splits prod.splits option.splits if_splits)

lemma handle_event_requested:
  assumes "handle_event t ev (s, cm) = Inr (status, s', cm')"
  shows "\<exists>more. ss_requested s' = ss_requested s @ more"
proof -
  have msg: "\<exists>more. ss_requested s1 = ss_requested s @ more"
    if "handleMessage t m s cm = (e, s1, cm1)" for m e s1 cm1
    using that
    by (auto simp: handleMessage_def Let_def split: if_splits sum.splits prod.splits
        dest: handlePieceMsg_requested)
  show ?thesis
    using assms by (cases ev) (auto simp: Let_def split: if_splits prod.splits option.splits dest: msg)
qed

lemma session_run_refused:
  assumes "ss_requested s = rq # rqs" and "refused_request pieces rq" and "pieces_small pieces"
    and "session_run sha1 t pieces evs (s, cm) = Inr (status, s', cm')"
  shows "\<exists>more. ss_requested s' = ss_requested s @ more"
  using assms
proof (induction evs arbitrary: s cm rqs)
  case Nil
  then show ?case by simp
next
  case (Cons ev evs)
  from Cons.prems(4) obtain s1 cm1 status1 s2 cm2 where
      top: "loop_top sha1 t pieces (s, cm) = Inr (s1, cm1)"
      and hev: "handle_event t ev (s1, cm1) = Inr (status1, s2, cm2)"
      and rest: "(case status1 of Ended \<Rightarrow> Inr (Ended, s2, cm2)
        | Looping \<Rightarrow> session_run sha1 t pieces evs (s2, cm2)) = Inr (status, s', cm')"
    by (fastforce simp: session_iter_def)
  have r1: "ss_requested s1 = rq # rqs"
    using loop_top_refused [OF Cons.prems(1-3) top] Cons.prems(1) by simp
  then obtain more where r2: "ss_requested s2 = rq # rqs @ more"
    using handle_event_requested [OF hev] by auto
  show ?case
  proof (cases status1)
    case Ended
    with rest r2 Cons.prems(1) show ?thesis by auto
  next
    case Looping
    with rest Cons.IH [OF r2 Cons.prems(2,3)] Cons.prems(1) r2 show ?thesis by fastforce
  qed
qed

section \<open>Runs\<close>

lemma session_iter_inv:
  assumes "loop_inv sha1 t st" and "session_iter sha1 t pieces ev st = Inr (status, st')"
  shows "loop_inv sha1 t st'"
    and "status = Looping \<Longrightarrow> loop_tokens st' = loop_tokens st"
    and "status = Ended \<Longrightarrow> comm_tokens (snd st') = loop_tokens st
      \<or> ends_by_message ev \<and> comm_tokens (snd st') + held (fst st') = loop_tokens st"
proof -
  obtain s1 cm1 where top: "loop_top sha1 t pieces st = Inr (s1, cm1)"
    and hev: "handle_event t ev (s1, cm1) = Inr (status, st')"
    using assms(2) by (auto simp: session_iter_def)
  note inv = loop_top_inv [OF assms(1) top]
  show "loop_inv sha1 t st'" using handle_event_loop_inv [OF inv(1) hev] .
  show "status = Looping \<Longrightarrow> loop_tokens st' = loop_tokens st"
    using handle_event_Looping_tokens [OF inv(1)] hev inv(2) by simp
  assume ended: "status = Ended"
  obtain s' cm' where st': "st' = (s', cm')" by (cases st')
  have held: "held s' = held s1" if "ends_by_message ev"
  proof (cases ev)
    case (Received m)
    obtain e s2 cm2 where "handleMessage t m s1 cm1 = (e, s2, cm2)" by (metis prod_cases3)
    with Received hev ended st' handleMessage_inv(2) [OF inv(1) this] show ?thesis
      by (auto split: if_splits option.splits)
  qed (use that in \<open>simp_all add: ends_by_message_def\<close>)
  show "comm_tokens (snd st') = loop_tokens st
      \<or> ends_by_message ev \<and> comm_tokens (snd st') + held (fst st') = loop_tokens st"
    using handle_event_Ended_tokens [OF inv(1) hev [unfolded ended st']] inv(2) held
    by (cases "ends_by_message ev") (simp_all add: st' add.commute)
qed

lemma session_run_inv:
  assumes "loop_inv sha1 t st" and "session_run sha1 t pieces evs st = Inr (status, st')"
  shows "loop_inv sha1 t st'
    \<and> (if status = Looping then loop_tokens st' = loop_tokens st
       else comm_tokens (snd st') = loop_tokens st
         \<or> (\<exists>ev \<in> set evs. ends_by_message ev) \<and> comm_tokens (snd st') + held (fst st') = loop_tokens st)"
  using assms
proof (induction evs arbitrary: st)
  case Nil
  then show ?case by simp
next
  case (Cons ev evs)
  from Cons.prems(2) obtain status1 st1 where it: "session_iter sha1 t pieces ev st = Inr (status1, st1)"
    and rest: "(case status1 of Ended \<Rightarrow> Inr (Ended, st1)
        | Looping \<Rightarrow> session_run sha1 t pieces evs st1) = Inr (status, st')"
    by auto
  note inv = session_iter_inv [OF Cons.prems(1) it]
  show ?case
  proof (cases status1)
    case Ended
    then have "status = Ended" "st' = st1" using rest by simp_all
    with inv(1) inv(3) [OF Ended] show ?thesis by auto
  next
    case Looping
    then have "session_run sha1 t pieces evs st1 = Inr (status, st')" using rest by simp
    from Cons.IH [OF inv(1) this] inv(2) [OF Looping] show ?thesis
      by (auto split: if_splits)
  qed
qed

section \<open>Receiving does not depend on the segmentation of the stream\<close>

definition same_stream :: "reader \<Rightarrow> reader \<Rightarrow> bool" where
  "same_stream r r' \<longleftrightarrow> rd_data r = rd_data r' \<and> rd_end r = rd_end r'"

lemma read_full_same:
  assumes "same_stream r r'"
  obtains x r1 r1' where "read_full n r = (x, r1)" and "read_full n r' = (x, r1')" and "same_stream r1 r1'"
proof
  show "read_full n r = (fst (read_full n r), snd (read_full n r))" by simp
  show "read_full n r' = (fst (read_full n r), snd (read_full n r'))"
    using assms by (simp add: same_stream_def prod_eq_iff fst_read_full)
  show "same_stream (snd (read_full n r)) (snd (read_full n r'))"
    using assms by (simp add: same_stream_def)
qed

lemma DeserializeMessage_same:
  assumes "same_stream r r'"
  obtains x r1 r1' where "DeserializeMessage r = (x, r1)" and "DeserializeMessage r' = (x, r1')" and "same_stream r1 r1'"
proof -
  obtain x1 s1 s1' where s1: "read_full 4 r = (x1, s1)" "read_full 4 r' = (x1, s1')" "same_stream s1 s1'"
    using read_full_same [OF assms] .
  obtain x2 s2 s2' where s2: "read_full 1 s1 = (x2, s2)" "read_full 1 s1' = (x2, s2')" "same_stream s2 s2'"
    using read_full_same [OF s1(3)] .
  have "fst (DeserializeMessage r) = fst (DeserializeMessage r')
      \<and> same_stream (snd (DeserializeMessage r)) (snd (DeserializeMessage r'))"
  proof (cases x1)
    case (Inl e)
    with s1 show ?thesis by (simp add: DeserializeMessage_def)
  next
    case x1: (Inr lengthBuf)
    show ?thesis
    proof (cases "be_get32 lengthBuf")
      case (Inl e)
      with s1 x1 show ?thesis by (simp add: DeserializeMessage_def)
    next
      case (Inr len)
      obtain x3 s3 s3' where s3: "read_full (unat (len - 1)) s2 = (x3, s3)"
          "read_full (unat (len - 1)) s2' = (x3, s3')" "same_stream s3 s3'"
        using read_full_same [OF s2(3)] .
      show ?thesis
        using s1 x1 s2 s3 Inr by (cases x2; cases x3) (simp_all add: DeserializeMessage_def)
    qed
  qed
  with that show ?thesis by (metis prod.collapse)
qed

lemma receive_loop_same: "same_stream r r' \<Longrightarrow> receive_loop r = receive_loop r'"
proof (induction "length (rd_data r)" arbitrary: r r' rule: less_induct)
  case less
  obtain x r1 r1' where m: "DeserializeMessage r = (x, r1)" "DeserializeMessage r' = (x, r1')" "same_stream r1 r1'"
    using DeserializeMessage_same [OF less.prems] .
  show ?case
  proof (cases x)
    case (Inl e)
    with m show ?thesis by (simp add: receive_loop.simps [of r] receive_loop.simps [of r'])
  next
    case (Inr msg)
    have "length (rd_data r1) < length (rd_data r)"
      using DeserializeMessage_consumes [OF m(1) [unfolded Inr]] by simp
    from less.hyps [OF this m(3)] m Inr show ?thesis
      by (simp add: receive_loop.simps [of r] receive_loop.simps [of r'])
  qed
qed

end
