(* ===== verification/Session_Honest.thy ===== *)
theory Session_Honest
  imports Session_Events
begin

text \<open>
  A session with an honest peer: one that answers the outstanding requests with the blocks of the
  piece, in any order. It downloads the piece in as many messages as the piece has blocks, and
  hands it to the main goroutine. The lemmas: the request loop never stalls while bytes are
  missing, every honest answer is accepted and counted, and a full buffer is the piece.
\<close>

section \<open>Blocks still to receive\<close>

definition blocks_of :: "int \<Rightarrow> nat" where
  "blocks_of n = nat ((max 0 n + (chunkSize - 1)) div chunkSize)"

definition blocks_left :: "piece_order \<Rightarrow> piece_progress \<Rightarrow> nat" where
  "blocks_left ord pg = length (pg_requests pg) + blocks_of (po_Length ord - pg_nextToRequest pg)"

lemma blocks_of_nonpos [simp]: "n \<le> 0 \<Longrightarrow> blocks_of n = 0"
  by (simp add: blocks_of_def chunkSize_def)

lemma blocks_of_step: "0 < n \<Longrightarrow> blocks_of n = Suc (blocks_of (n - chunkSize))"
proof (cases "n \<le> chunkSize")
  case True
  assume "0 < n"
  have "(n + (chunkSize - 1)) div chunkSize = (n - 1 + chunkSize) div chunkSize"
    by (rule arg_cong [where f = "\<lambda>x. x div chunkSize"]) simp
  also have "\<dots> = (n - 1) div chunkSize + 1" by (simp add: chunkSize_def)
  also have "(n - 1) div chunkSize = 0" using True \<open>0 < n\<close> by (simp add: chunkSize_def div_pos_pos_trivial)
  finally show ?thesis using True \<open>0 < n\<close> by (simp add: blocks_of_def [of n])
next
  case False
  assume "0 < n"
  have "(n + (chunkSize - 1)) div chunkSize = (n - chunkSize + (chunkSize - 1) + chunkSize) div chunkSize"
    by (rule arg_cong [where f = "\<lambda>x. x div chunkSize"]) simp
  also have "\<dots> = (n - chunkSize + (chunkSize - 1)) div chunkSize + 1" by (simp add: chunkSize_def)
  finally have eq: "(n + (chunkSize - 1)) div chunkSize = (n - chunkSize + (chunkSize - 1)) div chunkSize + 1" .
  have "0 \<le> (n - chunkSize + (chunkSize - 1)) div chunkSize"
    using False by (simp add: chunkSize_def)
  with eq False \<open>0 < n\<close> show ?thesis
    by (simp add: blocks_of_def Suc_nat_eq_nat_zadd1 add.commute)
qed

text \<open>Filling the pipeline moves blocks from the part not asked for to the outstanding ones.\<close>

definition next_request :: "piece_order \<Rightarrow> piece_progress \<Rightarrow> request" where
  "next_request ord pg = \<lparr>rq_index = po_Index ord, rq_start = pg_nextToRequest pg,
     rq_length = min chunkSize (po_Length ord - pg_nextToRequest pg)\<rparr>"

definition ask_next :: "piece_order \<Rightarrow> piece_progress \<Rightarrow> piece_progress" where
  "ask_next ord pg = pg\<lparr>pg_requests := pg_requests pg @ [next_request ord pg],
     pg_nextToRequest := pg_nextToRequest pg + chunkSize\<rparr>"

lemma request_message_frame: "SerializeMessage (request_message rq) = Inr (message_frame (request_message rq))"
  by (rule SerializeMessage_frame) (simp_all add: request_message_def SerializeRequestMsg_def message_ok_def)

lemma fillRequests_loop_Suc:
  assumes "w_reliable w"
  shows "fillRequests_loop (Suc n) ord w pg = (if pg_nextToRequest pg \<ge> po_Length ord then (w, pg)
    else fillRequests_loop n ord
      (w\<lparr>w_out := w_out w @ message_frame (request_message (next_request ord pg))\<rparr>) (ask_next ord pg))"
  using assms by (simp add: Let_def next_request_def ask_next_def request_message_frame)

lemma fillRequests_loop_reliable:
  assumes "w_reliable w" and "fillRequests_loop n ord w pg = (w', pg')"
  shows "w_reliable w' \<and> blocks_left ord pg' = blocks_left ord pg \<and> pg_numDone pg' = pg_numDone pg
    \<and> pg_buf pg' = pg_buf pg \<and> length (pg_requests pg) \<le> length (pg_requests pg')
    \<and> (0 < n \<and> pg_nextToRequest pg < po_Length ord \<longrightarrow> pg_requests pg' \<noteq> [])"
  using assms
proof (induction n arbitrary: w pg)
  case (Suc n)
  show ?case
  proof (cases "pg_nextToRequest pg \<ge> po_Length ord")
    case True
    with Suc.prems show ?thesis by simp
  next
    case False
    have "blocks_left ord (ask_next ord pg) = blocks_left ord pg"
      using False blocks_of_step [of "po_Length ord - pg_nextToRequest pg"]
      by (simp add: blocks_left_def ask_next_def algebra_simps)
    with False Suc.prems Suc.IH [of "w\<lparr>w_out := w_out w @ message_frame (request_message (next_request ord pg))\<rparr>"
        "ask_next ord pg"]
    show ?thesis by (auto simp: fillRequests_loop_Suc ask_next_def simp del: fillRequests_loop.simps)
  qed
qed simp

text \<open>\<open>writes s s' ms\<close>: from \<open>s\<close> to \<open>s'\<close> the session wrote the messages \<open>ms\<close> to its connection.\<close>

definition writes :: "session \<Rightarrow> session \<Rightarrow> peer_message list \<Rightarrow> bool" where
  "writes s s' ms \<longleftrightarrow> w_out (ss_wr s') = w_out (ss_wr s) @ concat (map message_frame ms)"

lemma writes_trans: "writes s s1 ms \<Longrightarrow> writes s1 s2 ns \<Longrightarrow> writes s s2 (ms @ ns)"
  by (simp add: writes_def)

lemma fillRequests_loop_asks:
  assumes "w_reliable w" and "fillRequests_loop n ord w pg = (w', pg')"
  shows "\<exists>new. pg_requests pg' = pg_requests pg @ new
    \<and> w_out w' = w_out w @ concat (map message_frame (map request_message new))"
  using assms
proof (induction n arbitrary: w pg)
  case (Suc n)
  show ?case
  proof (cases "pg_nextToRequest pg \<ge> po_Length ord")
    case True
    with Suc.prems show ?thesis by simp
  next
    case False
    let ?rq = "next_request ord pg"
    obtain new where "pg_requests pg' = (pg_requests pg @ [?rq]) @ new"
      "w_out w' = (w_out w @ message_frame (request_message ?rq)) @ concat (map message_frame (map request_message new))"
      using False Suc.prems Suc.IH [of "w\<lparr>w_out := w_out w @ message_frame (request_message ?rq)\<rparr>" "ask_next ord pg"]
      by (auto simp: fillRequests_loop_Suc ask_next_def simp del: fillRequests_loop.simps)
    then show ?thesis by (intro exI [of _ "?rq # new"]) simp
  qed
qed simp

lemma requests_nonempty:
  assumes "progress_inv pg" and "pg_order pg = Some ord" and "pg_numDone pg < po_Length ord"
    and "po_Length ord \<le> pg_nextToRequest pg"
  shows "pg_requests pg \<noteq> []"
  using assms by (auto simp: progress_inv_def)

lemma blocks_left_0_iff:
  assumes "progress_inv pg" and "pg_order pg = Some ord"
  shows "blocks_left ord pg = 0 \<longleftrightarrow> pg_numDone pg = po_Length ord"
proof
  assume z: "blocks_left ord pg = 0"
  then have "pg_requests pg = []" and "po_Length ord \<le> pg_nextToRequest pg"
    using blocks_of_step [of "po_Length ord - pg_nextToRequest pg"] by (auto simp: blocks_left_def not_less [symmetric])
  with assms show "pg_numDone pg = po_Length ord" by (simp add: progress_inv_def)
next
  assume d: "pg_numDone pg = po_Length ord"
  have pos: "0 < rq_length rq" if "rq \<in> set (pg_requests pg)" for rq
    using assms that by (auto simp: progress_inv_def block_ok_def chunkSize_def)
  have "0 \<le> sum_list (map rq_length (pg_requests pg))"
    using pos by (intro sum_list_nonneg) (auto intro: less_imp_le)
  then have "sum_list (map rq_length (pg_requests pg)) \<le> 0" and "po_Length ord \<le> pg_nextToRequest pg"
    using assms d by (simp_all add: progress_inv_def min_def split: if_splits)
  moreover from this(1) have "pg_requests pg = []"
  proof (cases "pg_requests pg")
    case (Cons rq rs)
    then have "0 < rq_length rq" and "0 \<le> sum_list (map rq_length rs)"
      using pos by (auto intro!: sum_list_nonneg simp: less_imp_le)
    with Cons calculation(1) show ?thesis by simp
  qed
  ultimately show "blocks_left ord pg = 0" by (simp add: blocks_left_def)
qed

text \<open>The closed form of a complete piece: nothing outstanding, and the buffer is the piece.\<close>

lemma complete_buffer:
  assumes "progress_inv pg" and "pg_order pg = Some ord" and "pg_numDone pg = po_Length ord"
    and "progress_data P pg" and "int (length P) = po_Length ord"
  shows "pg_requests pg = []" and "pg_buf pg = P"
proof -
  have z: "blocks_left ord pg = 0" using assms(1-3) by (simp add: blocks_left_0_iff)
  then show r: "pg_requests pg = []" by (simp add: blocks_left_def)
  have "po_Length ord \<le> pg_nextToRequest pg"
    using z blocks_of_step [of "po_Length ord - pg_nextToRequest pg"] by (auto simp: blocks_left_def not_less [symmetric])
  moreover have len: "int (length (pg_buf pg)) = po_Length ord"
    using assms(1,2) by (simp add: progress_inv_def)
  ultimately have "pg_buf pg ! nat i = P ! nat i" if "0 \<le> i" "i < po_Length ord" for i
    using assms(4) r that by (simp add: progress_data_def)
  from this [of "int _"] len assms(5) show "pg_buf pg = P"
    by (intro nth_equalityI) simp_all
qed

section \<open>One round with an honest peer\<close>

text \<open>
  The state of a session that downloads \<open>ord\<close> from an honest unchoking peer: what it has
  received agrees with the piece, the connection works, and it has nothing to serve.
\<close>

definition downloading :: "torrent_file \<Rightarrow> byte list \<Rightarrow> piece_order \<Rightarrow> session \<Rightarrow> bool" where
  "downloading t P ord s \<longleftrightarrow> session_inv t s \<and> pg_order (ss_progress s) = Some ord
     \<and> progress_data P (ss_progress s) \<and> \<not> pr_ChokedBy (ss_peer s) \<and> w_reliable (ss_wr s)
     \<and> ss_requested s = []"

lemma loop_top_incomplete:
  assumes "ss_requested s = []" and "pg_order (ss_progress s) = Some ord"
    and "pg_numDone (ss_progress s) \<noteq> po_Length ord" and "\<not> pr_ChokedBy (ss_peer s)"
  shows "loop_top sha1 t pieces (s, cm) = Inr (phase_requests (s, cm))"
  using assms by (simp add: loop_top_def phase_upload_def phase_complete_def phase_order_def phase_interested_def)

text \<open>The request loop does not stall: while bytes are missing, something is outstanding.\<close>

lemma loop_top_downloading:
  assumes "downloading t P ord s" and "pg_numDone (ss_progress s) \<noteq> po_Length ord"
  obtains s' where "loop_top sha1 t pieces (s, cm) = Inr (s', cm)" and "downloading t P ord s'"
    and "blocks_left ord (ss_progress s') = blocks_left ord (ss_progress s)"
    and "pg_requests (ss_progress s') \<noteq> []" and "ss_peer s' = ss_peer s"
    and "pg_numDone (ss_progress s') = pg_numDone (ss_progress s)"
    and "\<exists>new. pg_requests (ss_progress s') = pg_requests (ss_progress s) @ new \<and> writes s s' (map request_message new)"
proof -
  let ?pg = "ss_progress s"
  have s: "session_inv t s" "pg_order ?pg = Some ord" "progress_data P ?pg" "\<not> pr_ChokedBy (ss_peer s)"
    "w_reliable (ss_wr s)" "ss_requested s = []" and inv: "progress_inv ?pg"
    using assms(1) by (simp_all add: downloading_def session_inv_def)
  have lt: "pg_numDone ?pg < po_Length ord"
  proof -
    have "0 \<le> rq_length rq" if "rq \<in> set (pg_requests ?pg)" for rq
      using inv s(2) that by (auto simp: progress_inv_def block_ok_def chunkSize_def)
    then have "0 \<le> sum_list (map rq_length (pg_requests ?pg))" by (intro sum_list_nonneg) auto
    then show ?thesis
      using inv s(2) assms(2) by (simp add: progress_inv_def min_def split: if_splits)
  qed
  note top = loop_top_incomplete [OF s(6,2) assms(2) s(4), of sha1 t pieces cm]
  show ?thesis
  proof (cases "int (length (pg_requests ?pg)) < pipelineLength")
    case False
    then have "pg_requests ?pg \<noteq> []" by (auto simp: pipelineLength_def)
    with False assms(1) top that [of s] s(2) show ?thesis by (simp add: phase_requests_def writes_def)
  next
    case True
    let ?n = "nat (pipelineLength - int (length (pg_requests ?pg)))"
    obtain w pg where f: "fillRequests_loop ?n ord (ss_wr s) ?pg = (w, pg)" by force
    note rel = fillRequests_loop_reliable [OF s(5) f]
    have inv': "progress_inv pg" "pg_order pg = Some ord" "progress_data P pg"
      using fillRequests_loop_inv [OF inv s(2), of ?n "ss_wr s" P] True s(3) by (simp_all add: f)
    have ne: "pg_requests pg \<noteq> []"
      using rel True requests_nonempty [OF inv s(2) lt]
      by (cases "pg_nextToRequest ?pg < po_Length ord") auto
    let ?s = "s\<lparr>ss_progress := pg, ss_wr := w\<rparr>"
    have "loop_top sha1 t pieces (s, cm) = Inr (?s, cm)"
      using top True s(2,4) f by (simp add: phase_requests_def fillRequests_def)
    moreover have "downloading t P ord ?s"
      using s inv' rel by (simp add: downloading_def session_inv_def)
    ultimately show ?thesis using that [of ?s] rel ne fillRequests_loop_asks [OF s(5) f] by (simp add: writes_def)
  qed
qed

text \<open>The answer to an outstanding request is accepted and counts one block.\<close>

lemma honest_answer:
  assumes "downloading t (pc_Data p) ord s" and "rq \<in> set (pg_requests (ss_progress s))"
    and "int (length (pc_Data p)) = po_Length ord" and "po_Length ord < 2 ^ 32" and "num_hashes t \<le> 2 ^ 32"
  obtains s' where "handle_event t (Received (block_message p rq)) (s, cm) = Inr (Looping, s', cm)"
    and "downloading t (pc_Data p) ord s'" and "ss_peer s' = ss_peer s"
    and "blocks_left ord (ss_progress s) = Suc (blocks_left ord (ss_progress s'))"
    and "mset (pg_requests (ss_progress s)) = add_mset rq (mset (pg_requests (ss_progress s')))" and "ss_wr s' = ss_wr s"
proof -
  let ?pg = "ss_progress s"
  let ?d = "take (nat (rq_length rq)) (drop (nat (rq_start rq)) (pc_Data p))"
  have s: "session_inv t s" "pg_order ?pg = Some ord" "progress_data (pc_Data p) ?pg" "\<not> pr_ChokedBy (ss_peer s)"
    "w_reliable (ss_wr s)" "ss_requested s = []" and inv: "progress_inv ?pg"
    using assms(1) by (simp_all add: downloading_def session_inv_def)
  have blk: "block_ok ord (pg_nextToRequest ?pg) rq" and ord: "order_ok t ord"
    using inv s assms(2) by (auto simp: progress_inv_def session_inv_def)
  then have rq: "rq_index rq = po_Index ord" "0 \<le> rq_start rq" "rq_start rq < po_Length ord"
      "0 < rq_length rq" "rq_start rq + rq_length rq \<le> po_Length ord"
    by (auto simp: block_ok_def chunkSize_def min_def split: if_splits)
  have len: "int (length ?d) = rq_length rq" using rq assms(3) by simp
  then have dne: "?d \<noteq> []" using rq(4) by auto
  have ix: "0 \<le> rq_index rq" "rq_index rq < 2 ^ 32" using ord rq(1) assms(5) by (simp_all add: order_ok_def)
  let ?m = "block_message p rq"
  have des: "DeserializePieceMsg ?m = Inr (po_Index ord, rq_start rq, ?d)"
    using ix rq assms(4) dne by (simp add: block_message_def DeserializePieceMsg_Serialize)
  obtain pg1 where "DeleteRequest ?pg (rq_start rq) (rq_length rq) = Inr pg1"
    using DeleteRequest_found [OF assms(2)] by auto
  moreover from this have "pg_buf pg1 = pg_buf ?pg" by (auto elim: DeleteRequest_Inr)
  then have "int (length (pg_buf pg1)) = po_Length ord" using inv s(2) by (simp add: progress_inv_def)
  ultimately have acc: "\<not> (\<exists>e. handlePieceMsg ?m s = (Some e, s))"
    using des s(2) len rq(5) by (auto simp: handlePieceMsg_def Let_def)
  from inv show ?thesis
  proof (cases rule: handlePieceMsg_cases [of s ?m])
    case (accepted i b d ord' k)
    have "(i, b, d) = (po_Index ord, rq_start rq, ?d)" using accepted(1) des by (metis sum.inject(2))
    then have eqs: "b = rq_start rq" "d = ?d" by (simp_all only: prod.inject)
    let ?s = "s\<lparr>ss_progress := accept_block k b d ?pg\<rparr>"
    have "handle_event t (Received ?m) (s, cm) = Inr (Looping, ?s, cm)"
      using accepted(9) by (simp add: handleMessage_def Let_def block_message_def SerializePieceMsg_def)
    moreover have "progress_data (pc_Data p) (accept_block k b d ?pg)"
    proof (rule accept_block_data [OF s(3) accepted(4-8)])
      show "d = take (length d) (drop (nat b) (pc_Data p))"
        unfolding eqs using len by (metis nat_int)
    qed
    then have "downloading t (pc_Data p) ord ?s"
      using handlePieceMsg_inv [OF s(1) accepted(9)] s by (simp add: downloading_def accept_block_def)
    moreover have "blocks_left ord ?pg = Suc (blocks_left ord (accept_block k b d ?pg))"
      using accepted(4) by (simp add: blocks_left_def accept_block_def)
    moreover have "pg_requests ?pg ! k = rq"
    proof -
      have "distinct (map rq_start (pg_requests ?pg))" using inv s(2) by (simp add: progress_inv_def)
      then show ?thesis
        using accepted(4,5) eqs(1) assms(2) by (auto simp: distinct_map inj_on_def)
    qed
    then have "mset (pg_requests ?pg) = add_mset rq (mset (pg_requests (accept_block k b d ?pg)))"
      using mset_swap_delete_add [OF accepted(4)] by (simp add: accept_block_def)
    ultimately show ?thesis using that [of ?s] by simp
  qed (use acc des s(2) in auto)
qed

section \<open>Requests that a choke discards\<close>

text \<open>
  A peer drops the requests of those it chokes. The session keeps them as outstanding and, with
  the pipeline full of them, never asks for these blocks again after the next unchoke.
\<close>

definition signal :: "byte \<Rightarrow> peer_message" where
  "signal code = \<lparr>pm_KeepAlive = False, pm_Code = code, pm_Data = []\<rparr>"

definition keep_alive :: peer_message where
  "keep_alive = \<lparr>pm_KeepAlive = True, pm_Code = 0, pm_Data = []\<rparr>"

definition pipeline_full :: "session \<Rightarrow> bool" where
  "pipeline_full s \<longleftrightarrow> int (length (pg_requests (ss_progress s))) = pipelineLength
     \<and> (\<exists>ord. pg_order (ss_progress s) = Some ord \<and> pg_numDone (ss_progress s) \<noteq> po_Length ord)
     \<and> ss_requested s = []"

lemma loop_top_full:
  assumes "pipeline_full s" and "\<not> pr_ChokedBy (ss_peer s)"
  shows "loop_top sha1 t pieces (s, cm) = Inr (s, cm)"
  using assms loop_top_incomplete [of s _ sha1 t pieces cm]
  by (auto simp: pipeline_full_def phase_requests_def)

lemma signal_serializes: "SerializeMessage (signal code) = Inr (message_frame (signal code))"
  by (rule SerializeMessage_frame) (simp_all add: signal_def message_ok_def)

lemma loop_top_full_choked:
  assumes "pipeline_full s" and "pr_ChokedBy (ss_peer s)" and "\<not> pr_InterestedSent (ss_peer s)"
    and "w_reliable (ss_wr s)"
  shows "loop_top sha1 t pieces (s, cm) = Inr (s\<lparr>ss_peer := (ss_peer s)\<lparr>pr_InterestedSent := True\<rparr>,
    ss_wr := (ss_wr s)\<lparr>w_out := w_out (ss_wr s) @ message_frame (signal MsgInterested)\<rparr>\<rparr>, cm)"
  using assms signal_serializes [of MsgInterested]
  by (auto simp: pipeline_full_def loop_top_def phase_upload_def phase_complete_def phase_order_def
      phase_interested_def sendInterested_def phase_requests_def signal_def)

lemma keep_alive_rounds:
  assumes "pipeline_full s" and "\<not> pr_ChokedBy (ss_peer s)"
  shows "session_run sha1 t pieces (replicate n (Received keep_alive)) (s, cm) = Inr (Looping, s, cm)"
  using loop_top_full [OF assms] by (induction n) (simp_all add: session_iter_def keep_alive_def)

lemma choke_unchoke_run:
  assumes "pipeline_full s" and "\<not> pr_ChokedBy (ss_peer s)" and "w_reliable (ss_wr s)"
  shows "session_run sha1 t pieces (Received (signal MsgChoke) # Received (signal MsgUnchoke)
      # replicate n (Received keep_alive)) (s, cm)
    = Inr (Looping, s\<lparr>ss_peer := (ss_peer s)\<lparr>pr_ChokedBy := False, pr_InterestedSent := True\<rparr>,
      ss_wr := (ss_wr s)\<lparr>w_out := w_out (ss_wr s) @ message_frame (signal MsgInterested)\<rparr>\<rparr>, cm)"
proof -
  let ?c = "s\<lparr>ss_peer := (ss_peer s)\<lparr>pr_ChokedBy := True, pr_InterestedSent := False\<rparr>\<rparr>"
  let ?u = "s\<lparr>ss_peer := (ss_peer s)\<lparr>pr_ChokedBy := False, pr_InterestedSent := True\<rparr>,
      ss_wr := (ss_wr s)\<lparr>w_out := w_out (ss_wr s) @ message_frame (signal MsgInterested)\<rparr>\<rparr>"
  have c: "session_iter sha1 t pieces (Received (signal MsgChoke)) (s, cm) = Inr (Looping, ?c, cm)"
    using loop_top_full [OF assms(1,2)]
    by (simp add: session_iter_def signal_def handleMessage_def Let_def)
  have "pipeline_full ?c" using assms(1) by (simp add: pipeline_full_def)
  then have "loop_top sha1 t pieces (?c, cm) = Inr (?c\<lparr>ss_peer := (ss_peer ?c)\<lparr>pr_InterestedSent := True\<rparr>,
    ss_wr := (ss_wr ?c)\<lparr>w_out := w_out (ss_wr ?c) @ message_frame (signal MsgInterested)\<rparr>\<rparr>, cm)"
    using assms(3) by (intro loop_top_full_choked) simp_all
  then have u: "session_iter sha1 t pieces (Received (signal MsgUnchoke)) (?c, cm) = Inr (Looping, ?u, cm)"
    by (simp add: session_iter_def handleMessage_def Let_def) (simp add: signal_def)
  have "pipeline_full ?u" using assms(1) by (simp add: pipeline_full_def)
  then have "session_run sha1 t pieces (replicate n (Received keep_alive)) (?u, cm) = Inr (Looping, ?u, cm)"
    by (intro keep_alive_rounds) simp_all
  with c u show ?thesis by simp
qed

end
