(* ===== verification/Session_Receiver.thy ===== *)
theory Session_Receiver
  imports Session_Events
begin

text \<open>
  A session and the goroutine that reads its connection (\<open>client/peer.go\<close>, the start of
  \<open>communicationLoop\<close>). The goroutine reads a message, then waits until the loop takes it:
  \<open>msgChannel\<close> has no buffer. When a message cannot be read it closes the channel. The function that
  runs the loop closes the connection when the loop returns. A step is finer than a round: a read of the
  goroutine; of the loop, the code before the \<open>select\<close>, the choice of a case, in which the loop and the
  goroutine may meet, or the code of the case; or a change of the shared channels by others.
\<close>

section \<open>The receiving goroutine\<close>

datatype receiver = Reading | Holding peer_message | Gone

datatype phase = Top loop_state | Selecting loop_state | Handling event loop_state

record link =
  ln_rd :: reader
  ln_open :: bool
  ln_receiver :: receiver
  ln_loop :: "phase option"

definition link_start :: "reader \<Rightarrow> loop_state \<Rightarrow> link" where
  "link_start r st = \<lparr>ln_rd = r, ln_open = True, ln_receiver = Reading, ln_loop = Some (Top st)\<rparr>"

text \<open>What a read from the connection does to the goroutine; a closed connection is an error.\<close>

definition receiver_reads :: "link \<Rightarrow> link" where
  "receiver_reads l =
     (if ln_open l then (case DeserializeMessage (ln_rd l) of
         (Inr m, r) \<Rightarrow> l\<lparr>ln_rd := r, ln_receiver := Holding m\<rparr>
       | (Inl e, r) \<Rightarrow> l\<lparr>ln_rd := r, ln_receiver := Gone\<rparr>)
      else l\<lparr>ln_receiver := Gone\<rparr>)"

text \<open>Which cases of the \<open>select\<close> the loop can take, and how the goroutine goes on.\<close>

fun receiver_meets :: "event \<Rightarrow> receiver \<Rightarrow> receiver option" where
  "receiver_meets (Received m) rc = (if rc = Holding m then Some Reading else None)"
| "receiver_meets MsgChannelClosed rc = (if rc = Gone then Some Gone else None)"
| "receiver_meets ev rc = Some rc"

fun taken :: "event \<Rightarrow> peer_message list" where
  "taken (Received m) = [m]"
| "taken ev = []"

definition loop_goes_on :: "loop_status \<times> loop_state \<Rightarrow> link \<Rightarrow> link" where
  "loop_goes_on res l = (case res of
     (Looping, st) \<Rightarrow> l\<lparr>ln_loop := Some (Top st)\<rparr>
   | (Ended, st) \<Rightarrow> l\<lparr>ln_loop := None, ln_open := False\<rparr>)"

fun with_comms :: "communication \<Rightarrow> phase \<Rightarrow> phase" where
  "with_comms cm (Top (s, cm0)) = Top (s, cm)"
| "with_comms cm (Selecting (s, cm0)) = Selecting (s, cm)"
| "with_comms cm (Handling ev (s, cm0)) = Handling ev (s, cm)"

text \<open>The label of a step is what the loop took from \<open>msgChannel\<close> in it.\<close>

inductive link_step :: "(byte list \<Rightarrow> hash) \<Rightarrow> torrent_file \<Rightarrow> peer_message list \<Rightarrow> link \<Rightarrow> link \<Rightarrow> bool"
  for sha1 :: "byte list \<Rightarrow> hash" and t :: torrent_file where
  link_read: "ln_receiver l = Reading \<Longrightarrow> link_step sha1 t [] l (receiver_reads l)"
| link_top: "ln_loop l = Some (Top st) \<Longrightarrow> loop_top sha1 t pieces st = Inr st' \<Longrightarrow>
    link_step sha1 t [] l (l\<lparr>ln_loop := Some (Selecting st')\<rparr>)"
| link_select: "ln_loop l = Some (Selecting st) \<Longrightarrow> receiver_meets ev (ln_receiver l) = Some rc \<Longrightarrow>
    link_step sha1 t (taken ev) l (l\<lparr>ln_receiver := rc, ln_loop := Some (Handling ev st)\<rparr>)"
| link_handle: "ln_loop l = Some (Handling ev st) \<Longrightarrow> handle_event t ev st = Inr res \<Longrightarrow>
    link_step sha1 t [] l (loop_goes_on res l)"
| link_others: "ln_loop l = Some ph \<Longrightarrow> link_step sha1 t [] l (l\<lparr>ln_loop := Some (with_comms cm ph)\<rparr>)"

inductive link_run :: "(byte list \<Rightarrow> hash) \<Rightarrow> torrent_file \<Rightarrow> peer_message list \<Rightarrow> link \<Rightarrow> link \<Rightarrow> bool"
  for sha1 :: "byte list \<Rightarrow> hash" and t :: torrent_file where
  link_run_Nil: "link_run sha1 t [] l l"
| link_run_snoc: "link_run sha1 t ms l l1 \<Longrightarrow> link_step sha1 t ns l1 l2 \<Longrightarrow> link_run sha1 t (ms @ ns) l l2"

section \<open>What is handed over\<close>

fun held_back :: "receiver \<Rightarrow> peer_message list" where
  "held_back (Holding m) = [m]"
| "held_back rc = []"

text \<open>
  \<open>to_come l\<close>: the messages that are read but not taken, and those still in the stream. While the
  connection is open nothing of it is lost.
\<close>

definition to_come :: "link \<Rightarrow> peer_message list" where
  "to_come l = held_back (ln_receiver l) @
     (if ln_receiver l = Gone \<or> \<not> ln_open l then [] else fst (receive_loop (ln_rd l)))"

definition link_ok :: "peer_message list \<Rightarrow> peer_message list \<Rightarrow> link \<Rightarrow> bool" where
  "link_ok all ms l \<longleftrightarrow> (ln_open l \<longleftrightarrow> ln_loop l \<noteq> None)
     \<and> (if ln_open l then ms @ to_come l = all else \<exists>rest. ms @ held_back (ln_receiver l) @ rest = all)"

lemma receiver_reads_ok:
  assumes "ln_receiver l = Reading" and "link_ok all ms l"
  shows "link_ok all ms (receiver_reads l)"
proof (cases "ln_open l")
  case True
  obtain x r where d: "DeserializeMessage (ln_rd l) = (x, r)" by force
  have "receive_loop (ln_rd l) = (case x of Inl e \<Rightarrow> ([], e) | Inr m \<Rightarrow> (m # fst (receive_loop r), snd (receive_loop r)))"
    using receive_loop.simps [of "ln_rd l"] d by simp
  with True d assms show ?thesis
    by (cases x) (simp_all add: receiver_reads_def link_ok_def to_come_def)
next
  case False
  with assms show ?thesis by (simp add: receiver_reads_def link_ok_def)
qed

lemma receiver_meets_ok:
  "receiver_meets ev rc = Some rc' \<Longrightarrow> taken ev @ held_back rc' = held_back rc \<and> (rc' = Gone \<longleftrightarrow> rc = Gone)"
  by (cases ev) (auto split: if_splits)

lemma link_step_ok:
  assumes "link_step sha1 t ns l l'" and "link_ok all ms l"
  shows "link_ok all (ms @ ns) l'"
  using assms(1)
proof cases
  case link_read
  with assms(2) receiver_reads_ok show ?thesis by simp
next
  case (link_select st ev rc)
  then have "ln_open l" using assms(2) by (simp add: link_ok_def split: if_splits)
  moreover have "held_back (ln_receiver l) = taken ev @ held_back rc" "rc = Gone \<longleftrightarrow> ln_receiver l = Gone"
    using receiver_meets_ok [OF link_select(4)] by simp_all
  ultimately show ?thesis using link_select assms(2)
    by (cases "rc = Gone") (simp_all add: link_ok_def to_come_def)
next
  case (link_handle ev st res)
  obtain status st' where "res = (status, st')" by (cases res) blast
  with link_handle assms(2) show ?thesis
    by (cases status) (auto simp: loop_goes_on_def link_ok_def to_come_def)
qed (use assms(2) in \<open>auto simp: link_ok_def to_come_def\<close>)

lemma link_run_ok:
  assumes "link_run sha1 t ms (link_start r st) l"
  shows "link_ok (fst (receive_loop r)) ms l"
  using assms
proof (induction ms "link_start r st" l rule: link_run.induct)
  case link_run_Nil
  then show ?case by (simp add: link_ok_def link_start_def to_come_def)
next
  case (link_run_snoc ms l1 ns l2)
  then show ?case using link_step_ok by blast
qed

section \<open>A goroutine that is left behind\<close>

text \<open>
  When the loop returns while the goroutine holds a message, nobody will ever take it: the goroutine
  waits for ever. This happens when the peer has sent on while the loop handles a message that ends the
  session. A goroutine that still reads finds the connection closed.
\<close>

lemma left_behind:
  assumes "link_run sha1 t ms l l'" and "ln_loop l = None" and "ln_receiver l \<noteq> Reading"
  shows "ms = [] \<and> l' = l"
  using assms
proof (induction rule: link_run.induct)
  case (link_run_snoc ms l l1 ns l2)
  from link_run_snoc.hyps(2) link_run_snoc.IH link_run_snoc.prems show ?case by cases auto
qed simp

lemma reader_ends:
  assumes "ln_receiver l = Reading" and "\<not> ln_open l"
  shows "ln_receiver (receiver_reads l) = Gone"
  using assms by (simp add: receiver_reads_def)

end
