(* ===== verification/Session_Properties.thy ===== *)
theory Session_Properties
  imports Session_Honest Session_Receiver
begin

text \<open>
  The properties of one peer session: what a round and a whole run of the communication loop
  keep, when they panic, and what is served in which order. The sample session below serves the instances that show each property applies.
\<close>

section \<open>A sample session\<close>

definition sample_sha1 :: "byte list \<Rightarrow> hash" where
  "sample_sha1 bs = take 20 (bs @ replicate 20 0)"

definition sample_torrent :: torrent_file where
  "sample_torrent = \<lparr>tf_Announce = '''', tf_Name = ''sample'', tf_Comment = '''', tf_CreatedBy = '''',
     tf_CreationDate = 0, tf_Length = 6, tf_PieceLength = 3,
     tf_PieceHashes = [sample_sha1 [1, 2, 3], sample_sha1 [4, 5, 6]], tf_InfoHash = replicate 20 9,
     tf_AnnounceList = []\<rparr>"

definition sample_addr :: addr where
  "sample_addr = TCPAddr 1 ''10.0.0.1'' 6881"

definition sample_peer :: peer where
  "sample_peer = (fresh_peer ''peer'' sample_addr)\<lparr>pr_ChokedBy := False\<rparr>"

definition sample_writer :: wstream where
  "sample_writer = \<lparr>w_out = [], w_script = []\<rparr>"

definition sample_order :: piece_order where
  "sample_order = \<lparr>po_Index = 1, po_Length = 3, po_Hash = sample_sha1 [4, 5, 6]\<rparr>"

definition sample_piece :: piece where
  "sample_piece = \<lparr>pc_Index = 1, pc_Length = 3, pc_Data = [4, 5, 6], pc_From = ''peer''\<rparr>"

definition sample_comms :: communication where
  "sample_comms = \<lparr>cm_Orders = [sample_order], cm_Results = [], cm_PeerInterested = [],
     cm_ConnectionEnded = [], cm_Uploaded = []\<rparr>"

definition sample_session :: session where
  "sample_session = (session_start sample_peer sample_writer)\<lparr>ss_progress :=
     progress_zero\<lparr>pg_order := Some sample_order, pg_buf := [0, 0, 0]\<rparr>\<rparr>"

definition sample_seeder :: peer where
  "sample_seeder = sample_peer\<lparr>pr_Bitfield := \<lparr>bf_Length = 2, bf_data = [64]\<rparr>\<rparr>"

definition sample_request :: request where
  "sample_request = \<lparr>rq_index = 1, rq_start = 0, rq_length = 3\<rparr>"

definition sample_run :: "(loop_status \<times> loop_state) result" where
  "sample_run = session_run sample_sha1 sample_torrent []
     [Received (block_message sample_piece sample_request), Received \<lparr>pm_KeepAlive = True, pm_Code = 0, pm_Data = []\<rparr>]
     (session_start sample_seeder sample_writer, sample_comms)"

definition sample_run_asked :: "(loop_status \<times> loop_state) result" where
  "sample_run_asked = session_run sample_sha1 sample_torrent []
     [Received \<lparr>pm_KeepAlive = True, pm_Code = 0, pm_Data = []\<rparr>]
     (session_start sample_seeder sample_writer, sample_comms)"

lemmas sample_defs = sample_seeder_def sample_request_def sample_sha1_def sample_torrent_def sample_addr_def sample_peer_def fresh_peer_def
  sample_writer_def sample_order_def sample_piece_def sample_comms_def sample_session_def
  session_start_def progress_zero_def

text \<open>A session whose interested, unchoked peer has asked for two blocks.\<close>

definition sample_asked :: session where
  "sample_asked = sample_session\<lparr>ss_peer := sample_peer\<lparr>pr_Interested := True, pr_Choking := False\<rparr>,
     ss_requested := [sample_request, sample_request\<lparr>rq_start := 1, rq_length := 2\<rparr>]\<rparr>"

lemmas inv_defs = comms_inv_def session_inv_def progress_inv_def order_ok_def piece_verified_def bf_wf_def
  pipelineLength_def chunkSize_def

section \<open>Properties\<close>



text \<open>C13: Integrity. Every piece a session puts into the results channel hashes to the hash the torrent
  lists for its index, has the torrent's piece length, and that many bytes, whatever the peer sent.\<close>

theorem session_results_verified:
  assumes "\<forall>ord \<in> set (cm_Orders cm). order_ok t ord" and "cm_Results cm = []" and "bf_wf (pr_Bitfield p)"
    and "session_run sha1 t pieces evs (session_start p w, cm) = Inr (status, s', cm')"
    and "q \<in> set (cm_Results cm')"
  shows "0 \<le> pc_Index q \<and> pc_Index q < num_hashes t
    \<and> sha1 (pc_Data q) = tf_PieceHashes t ! nat (pc_Index q)
    \<and> pc_Length q = tf_PieceLength t \<and> int (length (pc_Data q)) = tf_PieceLength t"
proof -
  have "loop_inv sha1 t (session_start p w, cm)"
    using assms(1-3) session_inv_start by (simp add: comms_inv_def)
  from session_run_inv [OF this assms(4)] have "comms_inv sha1 t cm'" by simp
  with assms(5) have "piece_verified sha1 t q" by (simp add: comms_inv_def)
  then show ?thesis by (simp add: piece_verified_def)
qed

text \<open>The sample run delivers the piece.\<close>

lemma sample_run_result:
  "case sample_run of Inr (Looping, s', cm') \<Rightarrow> cm_Results cm' = [sample_piece] | _ \<Rightarrow> False"
  by code_simp

theorem session_results_verified_witness:
  "case sample_run of Inr (status, s', cm') \<Rightarrow> sample_piece \<in> set (cm_Results cm')
      \<and> 0 \<le> pc_Index sample_piece \<and> pc_Index sample_piece < num_hashes sample_torrent
      \<and> sample_sha1 (pc_Data sample_piece) = tf_PieceHashes sample_torrent ! nat (pc_Index sample_piece)
      \<and> pc_Length sample_piece = tf_PieceLength sample_torrent
      \<and> int (length (pc_Data sample_piece)) = tf_PieceLength sample_torrent
    | Inl e \<Rightarrow> False"
proof -
  obtain s' cm' where run: "sample_run = Inr (Looping, s', cm')" and res: "cm_Results cm' = [sample_piece]"
    using sample_run_result by (auto split: sum.splits prod.splits loop_status.splits)
  show ?thesis
    using session_results_verified [of sample_comms sample_torrent sample_seeder, OF _ _ _ run [unfolded sample_run_def],
        of sample_piece] res
    by (simp add: run inv_defs sample_defs)
qed

text \<open>C14: The request pipeline. At every point of a run the outstanding requests number at most five,
  start at different offsets, are blocks of the piece in progress on the 16 KiB grid, the buffer
  has the length of the piece, and the bytes received plus those outstanding are those asked for.
  When the loop finds the received count equal to the length, nothing is outstanding.\<close>

theorem session_run_pipeline:
  assumes "comms_inv sha1 t cm" and "bf_wf (pr_Bitfield p)"
    and "session_run sha1 t pieces evs (session_start p w, cm) = Inr (status, s', cm')"
    and "pg_order (ss_progress s') = Some ord"
  shows "let pg = ss_progress s' in
    length (pg_requests pg) \<le> 5 \<and> distinct (map rq_start (pg_requests pg))
    \<and> (\<forall>rq \<in> set (pg_requests pg). rq_index rq = po_Index ord \<and> 16384 dvd rq_start rq
         \<and> 0 \<le> rq_start rq \<and> rq_start rq < po_Length ord
         \<and> rq_length rq = min 16384 (po_Length ord - rq_start rq))
    \<and> int (length (pg_buf pg)) = po_Length ord
    \<and> pg_numDone pg + sum_list (map rq_length (pg_requests pg)) = min (pg_nextToRequest pg) (po_Length ord)
    \<and> (pg_numDone pg = po_Length ord \<longrightarrow> pg_requests pg = [])"
proof -
  have "loop_inv sha1 t (session_start p w, cm)"
    using assms(1,2) session_inv_start by simp
  from session_run_inv [OF this assms(3)] have inv: "progress_inv (ss_progress s')"
    by (simp add: session_inv_def)
  have "pg_numDone (ss_progress s') = po_Length ord \<longrightarrow> pg_requests (ss_progress s') = []"
    using blocks_left_0_iff [OF inv assms(4)] by (auto simp: blocks_left_def)
  with inv assms(4) show ?thesis
    by (simp add: progress_inv_def block_ok_def pipelineLength_def chunkSize_def Let_def)
qed

lemma sample_run_asked_result:
  "case sample_run_asked of Inr (Looping, s', cm') \<Rightarrow> pg_order (ss_progress s') = Some sample_order | _ \<Rightarrow> False"
  by code_simp

theorem session_run_pipeline_witness:
  "case sample_run_asked of Inr (status, s', cm') \<Rightarrow>
     pg_order (ss_progress s') = Some sample_order
     \<and> pg_numDone (ss_progress s') + sum_list (map rq_length (pg_requests (ss_progress s')))
        = min (pg_nextToRequest (ss_progress s')) (po_Length sample_order)
   | Inl e \<Rightarrow> False"
proof -
  obtain s' cm' where run: "sample_run_asked = Inr (Looping, s', cm')"
    and ord: "pg_order (ss_progress s') = Some sample_order"
    using sample_run_asked_result by (auto split: sum.splits prod.splits loop_status.splits)
  show ?thesis
    using session_run_pipeline [of sample_sha1 sample_torrent sample_comms sample_seeder,
        OF _ _ run [unfolded sample_run_asked_def] ord]
    by (simp add: run ord Let_def) (simp add: inv_defs sample_defs)
qed

text \<open>C15: Which messages end the program. Handling a message panics exactly when it is a have message
  of fewer than four bytes, or a well-formed piece message that arrives while no piece is in
  progress; every other message, however malformed, is handled or refused with an error.\<close>

theorem message_panics_exactly:
  assumes "session_inv t s"
  shows "(\<exists>q. fst (handleMessage t msg s cm) = Some (Panic q)) \<longleftrightarrow>
    (pm_Code msg = MsgHave \<and> length (pm_Data msg) < 4)
    \<or> (pm_Code msg = MsgPiece \<and> 8 < length (pm_Data msg) \<and> pg_order (ss_progress s) = None)"
  using assms by (rule handleMessage_panic_iff)

theorem message_panics_exactly_witness:
  "(\<exists>q. fst (handleMessage sample_torrent (signal MsgHave) sample_session sample_comms) = Some (Panic q)) \<longleftrightarrow>
    (pm_Code (signal MsgHave) = MsgHave \<and> length (pm_Data (signal MsgHave)) < 4)
    \<or> (pm_Code (signal MsgHave) = MsgPiece \<and> 8 < length (pm_Data (signal MsgHave))
        \<and> pg_order (ss_progress sample_session) = None)"
  by (rule message_panics_exactly) (simp add: inv_defs sample_defs)

text \<open>C16: Which rounds end the program. Under the loop invariant and with pieces of fewer than four
  gigabytes, the code before the select panics exactly when the request at the front is due to be
  served and names a piece below the number of pieces that this client does not have.\<close>

theorem round_panics_exactly:
  assumes "loop_inv sha1 t (s, cm)" and "pieces_small pieces"
  shows "(\<exists>e. loop_top sha1 t pieces (s, cm) = Inl e) \<longleftrightarrow>
    \<not> pr_Choking (ss_peer s) \<and> pr_Interested (ss_peer s) \<and> ss_requested s \<noteq> []
    \<and> rq_index (hd (ss_requested s)) < int (length pieces)
    \<and> pieces ! nat (rq_index (hd (ss_requested s))) = None"
  using loop_top_panic_iff [OF assms] by (simp add: serving_def)

theorem round_panics_exactly_witness:
  "(\<exists>e. loop_top sample_sha1 sample_torrent [None] (sample_session, sample_comms) = Inl e) \<longleftrightarrow>
    \<not> pr_Choking (ss_peer sample_session) \<and> pr_Interested (ss_peer sample_session) \<and> ss_requested sample_session \<noteq> []
    \<and> rq_index (hd (ss_requested sample_session)) < int (length [None :: piece option])
    \<and> [None :: piece option] ! nat (rq_index (hd (ss_requested sample_session))) = None"
  by (rule round_panics_exactly) (simp_all add: inv_defs sample_defs pieces_small_def)

text \<open>C17: Serving order. With an interested, unchoked peer, a working connection and servable requests,
  as many rounds as there are requests answer each exactly once with its bytes, the first request
  first and then the others from the last to the second: not first in, first out.\<close>

theorem requests_served_in_order:
  assumes "\<not> pr_Choking (ss_peer s)" and "pr_Interested (ss_peer s)" and "pieces_small pieces"
    and "\<forall>rq \<in> set (ss_requested s). request_ok rq \<and> servable pieces rq" and "w_reliable (ss_wr s)"
  shows "upload_rounds (length (ss_requested s)) pieces (s, cm) = Inr (s\<lparr>ss_wr := (ss_wr s)\<lparr>w_out := w_out (ss_wr s)
      @ concat (map (\<lambda>r. message_frame (block_message (the (pieces ! nat (rq_index r))) r))
          (case ss_requested s of [] \<Rightarrow> [] | rq # rest \<Rightarrow> rq # rev rest))\<rparr>, ss_requested := []\<rparr>, cm)"
  using upload_rounds_order [OF assms] by (simp add: serve_order_def)

theorem requests_served_in_order_witness:
  "upload_rounds (length (ss_requested sample_asked)) [None, Some sample_piece] (sample_asked, sample_comms)
   = Inr (sample_asked\<lparr>ss_wr := (ss_wr sample_asked)\<lparr>w_out := w_out (ss_wr sample_asked)
      @ concat (map (\<lambda>r. message_frame (block_message (the ([None, Some sample_piece] ! nat (rq_index r))) r))
          (case ss_requested sample_asked of [] \<Rightarrow> [] | rq # rest \<Rightarrow> rq # rev rest))\<rparr>, ss_requested := []\<rparr>, sample_comms)"
  by (rule requests_served_in_order)
     (simp_all add: sample_asked_def sample_defs pieces_small_def request_ok_def servable_def)

text \<open>C18: A request that cannot be served blocks the session. With a request at the front that reaches
  past the end of its piece or names a piece number that does not exist, no request is ever
  removed from the list, whatever the peer does afterwards: nothing more is uploaded to it.\<close>

theorem refused_request_blocks:
  assumes "ss_requested s = rq # rqs" and "refused_request pieces rq" and "pieces_small pieces"
    and "session_run sha1 t pieces evs (s, cm) = Inr (status, s', cm')"
  shows "\<exists>more. ss_requested s' = rq # rqs @ more"
  using session_run_refused [OF assms] assms(1) by simp

lemma sample_refused_result:
  "case session_run sample_sha1 sample_torrent [] [Received keep_alive] (sample_asked, sample_comms) of
     Inr _ \<Rightarrow> True | Inl _ \<Rightarrow> False"
  by code_simp

theorem refused_request_blocks_witness:
  "case session_run sample_sha1 sample_torrent [] [Received keep_alive] (sample_asked, sample_comms) of
     Inr (status, s', cm') \<Rightarrow> \<exists>more. ss_requested s' = sample_request # sample_request\<lparr>rq_start := 1, rq_length := 2\<rparr> # more
   | Inl e \<Rightarrow> False"
proof -
  obtain status s' cm' where run: "session_run sample_sha1 sample_torrent [] [Received keep_alive]
      (sample_asked, sample_comms) = Inr (status, s', cm')"
    using sample_refused_result by (auto split: sum.splits)
  have "\<exists>more. ss_requested s' = sample_request # [sample_request\<lparr>rq_start := 1, rq_length := 2\<rparr>] @ more"
    by (rule refused_request_blocks [OF _ _ _ run])
       (simp_all add: sample_asked_def refused_request_def request_ok_def servable_def sample_defs pieces_small_def)
  then show ?thesis unfolding run by simp
qed

text \<open>C19: A choke is not recovered from. When the peer chokes a session whose pipeline is full and then
  unchokes it, the session says interested once and keeps the five requests as outstanding; however
  many rounds follow, it sends no request again, so a peer that dropped them never answers.\<close>

theorem choked_requests_not_resent:
  assumes "pipeline_full s" and "\<not> pr_ChokedBy (ss_peer s)" and "w_reliable (ss_wr s)"
  shows "\<exists>s'. session_run sha1 t pieces (Received (signal MsgChoke) # Received (signal MsgUnchoke)
      # replicate n (Received keep_alive)) (s, cm) = Inr (Looping, s', cm)
    \<and> ss_progress s' = ss_progress s \<and> \<not> pr_ChokedBy (ss_peer s')
    \<and> w_out (ss_wr s') = w_out (ss_wr s) @ message_frame (signal MsgInterested)"
  using choke_unchoke_run [OF assms] by simp

definition sample_full :: session where
  "sample_full = sample_session\<lparr>ss_progress := progress_zero\<lparr>
     pg_order := Some (sample_order\<lparr>po_Length := 98304\<rparr>), pg_requests := replicate 5 sample_request\<rparr>\<rparr>"

theorem choked_requests_not_resent_witness:
  "\<exists>s'. session_run sample_sha1 sample_torrent [] (Received (signal MsgChoke) # Received (signal MsgUnchoke)
      # replicate 2 (Received keep_alive)) (sample_full, sample_comms) = Inr (Looping, s', sample_comms)
    \<and> ss_progress s' = ss_progress sample_full \<and> \<not> pr_ChokedBy (ss_peer s')
    \<and> w_out (ss_wr s') = w_out (ss_wr sample_full) @ message_frame (signal MsgInterested)"
  by (rule choked_requests_not_resent)
     (simp_all add: sample_full_def pipeline_full_def sample_defs pipelineLength_def)

text \<open>C20: What the loop gets of what the peer sends. However the network cuts the stream into segments, and
  however the goroutine that reads it and the loop interleave, the messages the loop has taken, with the one the
  goroutine holds, are the first messages of the stream in their order; when the loop can see the
  closed channel it has taken all of them. A goroutine that holds a message when the loop returns holds it
  for ever: nothing moves any more.\<close>

theorem receiver_hands_over_in_order:
  assumes "link_run sha1 t ms (link_start (r\<lparr>rd_chunks := chunks\<rparr>) st) l"
  shows "(\<exists>rest. ms @ held_back (ln_receiver l) @ rest = fst (receive_loop r))
    \<and> (ln_loop l \<noteq> None \<and> ln_receiver l = Gone \<longrightarrow> ms = fst (receive_loop r))
    \<and> (ln_loop l = None \<and> ln_receiver l \<noteq> Reading \<longrightarrow> (\<forall>ms' l'. link_run sha1 t ms' l l' \<longrightarrow> ms' = [] \<and> l' = l))"
proof -
  have "receive_loop (r\<lparr>rd_chunks := chunks\<rparr>) = receive_loop r"
    by (rule receive_loop_same) (simp add: same_stream_def)
  then have ok: "link_ok (fst (receive_loop r)) ms l" using link_run_ok [OF assms] by simp
  then show ?thesis using left_behind [of sha1 t _ l]
    by (cases "ln_open l") (auto simp: link_ok_def to_come_def)
qed

text \<open>The peer sends a request too short to be one, which ends the session, and a choke message behind it.\<close>

definition sample_stream :: reader where
  "sample_stream = \<lparr>rd_data = [0, 0, 0, 2, 6, 0, 0, 0, 0, 1, 0], rd_end = EOF, rd_chunks = []\<rparr>"

definition sample_link :: link where
  "sample_link = link_start (sample_stream\<lparr>rd_chunks := [2, 3]\<rparr>) (session_start sample_peer sample_writer, sample_comms)"

definition sample_short :: peer_message where
  "sample_short = \<lparr>pm_KeepAlive = False, pm_Code = MsgRequest, pm_Data = [0]\<rparr>"

definition sample_left :: link where
  "sample_left = (let st = (session_start sample_peer sample_writer, sample_comms);
       l1 = receiver_reads sample_link; l2 = l1\<lparr>ln_loop := Some (Selecting st)\<rparr>;
       l3 = l2\<lparr>ln_receiver := Reading, ln_loop := Some (Handling (Received sample_short) st)\<rparr>; l4 = receiver_reads l3
     in case handle_event sample_torrent (Received sample_short) st of Inr res \<Rightarrow> loop_goes_on res l4 | Inl e \<Rightarrow> l4)"

lemma sample_left: "ln_receiver sample_left = Holding (signal MsgChoke)" "ln_loop sample_left = None"
  by code_simp+

lemma sample_left_run: "\<exists>ms. link_run sample_sha1 sample_torrent ms sample_link sample_left"
proof -
  let ?st = "(session_start sample_peer sample_writer, sample_comms)"
  define l1 where "l1 = receiver_reads sample_link"
  define l2 where "l2 = l1\<lparr>ln_loop := Some (Selecting ?st)\<rparr>"
  define l3 where "l3 = l2\<lparr>ln_receiver := Reading, ln_loop := Some (Handling (Received sample_short) ?st)\<rparr>"
  have l1: "ln_receiver l1 = Holding sample_short" "ln_loop l1 = Some (Top ?st)"
    unfolding l1_def by (code_simp, simp add: receiver_reads_def sample_link_def link_start_def split: prod.split sum.split)
  have "link_step sample_sha1 sample_torrent [] sample_link l1"
    unfolding l1_def by (rule link_read) (simp add: sample_link_def link_start_def)
  note run = link_run_snoc [OF link_run_Nil this]
  have "loop_top sample_sha1 sample_torrent [] ?st = Inr ?st"
    by (simp add: loop_top_def phase_upload_def phase_complete_def phase_order_def phase_interested_def
        phase_requests_def sample_defs)
  note run = link_run_snoc [OF run link_top [OF l1(2) this], folded l2_def]
  have "ln_loop l2 = Some (Selecting ?st)" "receiver_meets (Received sample_short) (ln_receiver l2) = Some Reading"
    by (simp_all add: l2_def l1)
  note run = link_run_snoc [OF run link_select [OF this], folded l3_def]
  have "ln_receiver l3 = Reading" by (simp add: l3_def)
  note run = link_run_snoc [OF run link_read [OF this]]
  obtain res where res: "handle_event sample_torrent (Received sample_short) ?st = Inr res"
    by (simp add: handleMessage_def sample_short_def DeserializeRequestMsg_def rewrap_def)
  have "ln_loop (receiver_reads l3) = Some (Handling (Received sample_short) ?st)"
    by (simp add: receiver_reads_def l3_def split: prod.split sum.split)
  note run = link_run_snoc [OF run link_handle [OF this res]]
  have "sample_left = loop_goes_on res (receiver_reads l3)"
    using res by (simp add: sample_left_def l3_def l2_def l1_def)
  with run show ?thesis by metis
qed

theorem receiver_hands_over_in_order_witness:
  "(\<exists>ms. link_run sample_sha1 sample_torrent ms sample_link sample_left)
    \<and> ln_receiver sample_left = Holding (signal MsgChoke)
    \<and> {l'. \<exists>ms'. link_run sample_sha1 sample_torrent ms' sample_left l'} = {sample_left}"
proof -
  obtain ms where run: "link_run sample_sha1 sample_torrent ms sample_link sample_left" using sample_left_run ..
  from receiver_hands_over_in_order [OF this [unfolded sample_link_def]] sample_left
  have "\<forall>ms' l'. link_run sample_sha1 sample_torrent ms' sample_left l' \<longrightarrow> l' = sample_left" by simp
  moreover have "link_run sample_sha1 sample_torrent [] sample_left sample_left" by (rule link_run_Nil)
  ultimately have "{l'. \<exists>ms'. link_run sample_sha1 sample_torrent ms' sample_left l'} = {sample_left}" by blast
  with run sample_left(1) show ?thesis by blast
qed

end
