(* ===== verification/Local_Store.thy ===== *)
theory Local_Store
  imports Piece_Files Peer_Protocol
begin

text \<open>
  The part of \<open>client/client.go\<close> that keeps a download on disk: \<open>savePartialFiles\<close>,
  \<open>deletePartialFiles\<close>, \<open>loadFromFile\<close>, \<open>loadPiecesFromCompleteFile\<close>,
  \<open>loadPiecesFromPartialFiles\<close>, over a file system that maps names to contents. SHA-1 is a
  parameter. The lemmas: what a successful load guarantees, what a sequence of part files means, and
  how a save extends it.
\<close>

section \<open>The file system\<close>

text \<open>A file that is there may still refuse to be opened.\<close>

datatype fs_entry = File "byte list" | Denied

type_synonym fs = "string \<Rightarrow> fs_entry option"

definition os_Open :: "fs \<Rightarrow> string \<Rightarrow> reader result" where
  "os_Open fs name = (case fs name of
     None \<Rightarrow> Inl ErrNotExist
   | Some Denied \<Rightarrow> Inl IOError
   | Some (File bs) \<Rightarrow> Inr \<lparr>rd_data = bs, rd_end = EOF, rd_chunks = []\<rparr>)"

definition os_Stat :: "fs \<Rightarrow> string \<Rightarrow> bool" where
  "os_Stat fs name \<longleftrightarrow> fs name \<noteq> None"

definition os_Remove :: "fs \<Rightarrow> string \<Rightarrow> go_error option \<times> fs" where
  "os_Remove fs name = (case fs name of
     None \<Rightarrow> (Some ErrNotExist, fs)
   | Some Denied \<Rightarrow> (Some IOError, fs)
   | Some (File bs) \<Rightarrow> (None, fs(name := None)))"

text \<open>
  \<open>os.OpenFile(name, O_APPEND|O_WRONLY|O_CREATE, 0600)\<close>: the writer starts with what the file
  holds. \<open>script\<close> says how the writes to come turn out.
\<close>

definition os_OpenAppend :: "fs \<Rightarrow> string \<Rightarrow> nat option list \<Rightarrow> wstream result \<times> fs" where
  "os_OpenAppend fs name script = (case fs name of
     None \<Rightarrow> (Inr \<lparr>w_out = [], w_script = script\<rparr>, fs(name \<mapsto> File []))
   | Some Denied \<Rightarrow> (Inl IOError, fs)
   | Some (File bs) \<Rightarrow> (Inr \<lparr>w_out = bs, w_script = script\<rparr>, fs))"

section \<open>Partial files\<close>

definition part_name :: "torrent_file \<Rightarrow> nat \<Rightarrow> string result" where
  "part_name t i = bind_result (go_slice (tf_Name t) 0 20)
     (\<lambda>p. Inr (p @ ''.'' @ itoa (int i) @ ''.part''))"

definition fileNumber :: "torrent_file \<Rightarrow> nat" where
  "fileNumber t = nat (go_div (num_hashes t) 1000 + 1)"

text \<open>
  The loop that opens the writers, from part \<open>i\<close> on, \<open>n\<close> parts to go: the writers and
  their names.
\<close>

fun open_parts :: "torrent_file \<Rightarrow> (nat \<Rightarrow> nat option list) \<Rightarrow> nat \<Rightarrow> nat \<Rightarrow> fs
    \<Rightarrow> (string \<times> wstream) list result \<times> fs" where
  "open_parts t script 0 i fs = (Inr [], fs)"
| "open_parts t script (Suc n) i fs = (case part_name t i of
     Inl e \<Rightarrow> (Inl e, fs)
   | Inr name \<Rightarrow> (case os_OpenAppend fs name (script i) of
       (Inl e, fs1) \<Rightarrow> (Inl (Errorf ''error while opening file''), fs1)
     | (Inr w, fs1) \<Rightarrow> (case open_parts t script n (Suc i) fs1 of
         (Inl e, fs2) \<Rightarrow> (Inl e, fs2)
       | (Inr ws, fs2) \<Rightarrow> (Inr ((name, w) # ws), fs2))))"

text \<open>What the open files hold once the writes are done.\<close>

definition flush_parts :: "string list \<Rightarrow> wstream list \<Rightarrow> fs \<Rightarrow> fs" where
  "flush_parts names ws fs = fold (\<lambda>(name, w) fs. fs(name \<mapsto> File (w_out w))) (zip names ws) fs"

definition savePartialFiles ::
    "torrent_file \<Rightarrow> results \<Rightarrow> bitfield \<Rightarrow> (nat \<Rightarrow> nat option list) \<Rightarrow> fs \<Rightarrow> go_error option \<times> fs" where
  "savePartialFiles t res saved script fs =
     (case open_parts t script (fileNumber t) 0 fs of
        (Inl e, fs1) \<Rightarrow> (Some e, fs1)
      | (Inr parts, fs1) \<Rightarrow> (case WritePartialFiles (map snd parts) (rs_Pieces res) saved of
          (None, ws) \<Rightarrow> (None, flush_parts (map fst parts) ws fs1)
        | (Some e, ws) \<Rightarrow> (Some (rewrap ''error while writing partial files'' e),
            flush_parts (map fst parts) ws fs1)))"

fun delete_parts :: "torrent_file \<Rightarrow> nat \<Rightarrow> nat \<Rightarrow> fs \<Rightarrow> go_error option \<times> fs" where
  "delete_parts t 0 i fs = (None, fs)"
| "delete_parts t (Suc n) i fs = (case part_name t i of
     Inl e \<Rightarrow> (Some e, fs)
   | Inr name \<Rightarrow> (case os_Remove fs name of
       (Some e, fs1) \<Rightarrow>
         if e \<noteq> ErrNotExist then (Some (Errorf ''error while deleting partial file''), fs1)
         else delete_parts t n (Suc i) fs1
     | (None, fs1) \<Rightarrow> delete_parts t n (Suc i) fs1))"

definition deletePartialFiles :: "torrent_file \<Rightarrow> fs \<Rightarrow> go_error option \<times> fs" where
  "deletePartialFiles t fs = delete_parts t (fileNumber t) 0 fs"

section \<open>Loading\<close>

text \<open>The results are updated as the pieces are checked, also when a later one fails.\<close>

fun load_pieces :: "(byte list \<Rightarrow> hash) \<Rightarrow> torrent_file \<Rightarrow> piece list \<Rightarrow> results
    \<Rightarrow> go_error option \<times> results" where
  "load_pieces sha1 t [] res = (None, res)"
| "load_pieces sha1 t (p # ps) res = (case go_index (tf_PieceHashes t) (pc_Index p) of
     Inl e \<Rightarrow> (Some e, res)
   | Inr h \<Rightarrow>
       if sha1 (pc_Data p) \<noteq> h then (Some (Errorf ''hash mismatch for piece''), res)
       else (case go_index (rs_Pieces res) (pc_Index p) of
         Inl e \<Rightarrow> (Some e, res)
       | Inr old \<Rightarrow>
           let res1 = res\<lparr>rs_Pieces := (rs_Pieces res)[nat (pc_Index p) := Some p],
                 rs_PiecesDone := rs_PiecesDone res + 1,
                 rs_TotalLength := rs_TotalLength res + pc_Length p\<rparr>
           in (case bf_Set (rs_Bitfield res1) (pc_Index p) True of
             Inl e \<Rightarrow> (Some (rewrap ''error setting true for bit'' e), res1)
           | Inr b \<Rightarrow> load_pieces sha1 t ps (res1\<lparr>rs_Bitfield := b\<rparr>))))"

fun load_parts :: "(byte list \<Rightarrow> hash) \<Rightarrow> torrent_file \<Rightarrow> fs \<Rightarrow> nat \<Rightarrow> nat \<Rightarrow> results
    \<Rightarrow> go_error option \<times> results" where
  "load_parts sha1 t fs 0 i res = (None, res)"
| "load_parts sha1 t fs (Suc n) i res = (case part_name t i of
     Inl e \<Rightarrow> (Some e, res)
   | Inr name \<Rightarrow>
       if \<not> os_Stat fs name then load_parts sha1 t fs n (Suc i) res
       else (case os_Open fs name of
         Inl e \<Rightarrow> (Some (Errorf ''cannot open file''), res)
       | Inr r \<Rightarrow> (case ReadPartialFile r (rs_Bitfield res) of
           (Inl e, b, r1) \<Rightarrow> (Some (rewrap ''error while reading partial file'' e), res\<lparr>rs_Bitfield := b\<rparr>)
         | (Inr ps, b, r1) \<Rightarrow> (case load_pieces sha1 t ps (res\<lparr>rs_Bitfield := b\<rparr>) of
             (Some e, res1) \<Rightarrow> (Some e, res1)
           | (None, res1) \<Rightarrow> load_parts sha1 t fs n (Suc i) res1))))"

definition loadPiecesFromPartialFiles ::
    "(byte list \<Rightarrow> hash) \<Rightarrow> torrent_file \<Rightarrow> fs \<Rightarrow> results \<Rightarrow> go_error option \<times> results" where
  "loadPiecesFromPartialFiles sha1 t fs res =
     load_parts sha1 t fs (fileNumber t) 0 (res\<lparr>rs_PiecesDone := 0\<rparr>)"

fun check_pieces :: "(byte list \<Rightarrow> hash) \<Rightarrow> torrent_file \<Rightarrow> piece list \<Rightarrow> int \<Rightarrow> int result" where
  "check_pieces sha1 t [] tot = Inr tot"
| "check_pieces sha1 t (p # ps) tot = (case go_index (tf_PieceHashes t) (pc_Index p) of
     Inl e \<Rightarrow> Inl e
   | Inr h \<Rightarrow> if sha1 (pc_Data p) \<noteq> h then Inl (Errorf ''hash mismatch for piece'')
       else check_pieces sha1 t ps (tot + pc_Length p))"

definition loadPiecesFromCompleteFile ::
    "(byte list \<Rightarrow> hash) \<Rightarrow> reader \<Rightarrow> torrent_file \<Rightarrow> results \<Rightarrow> go_error option \<times> results" where
  "loadPiecesFromCompleteFile sha1 r t res =
     (case Read r (num_hashes t) (tf_PieceLength t) of
        (Inl e, r1) \<Rightarrow> (Some (rewrap ''error while reading pieces from full file'' e), res)
      | (Inr ps, r1) \<Rightarrow>
          let res1 = res\<lparr>rs_Pieces := map Some ps, rs_PiecesDone := num_hashes t\<rparr>
          in (case bf_NewFull (num_hashes t) of
            Inl e \<Rightarrow> (Some e, res1)
          | Inr b \<Rightarrow>
              let res2 = res1\<lparr>rs_Bitfield := b\<rparr>
              in (case check_pieces sha1 t ps 0 of
                Inl e \<Rightarrow> (Some e, res2)
              | Inr tot \<Rightarrow>
                  if tot \<noteq> tf_Length t then (Some (Errorf ''incorrect sum of pieces length''), res2)
                  else (None, res2\<lparr>rs_TotalLength := tf_Length t\<rparr>))))"

text \<open>
  A complete file that cannot be loaded is an error, not a reason to look at the partial files:
  \<open>fileErr\<close> is nil then.
\<close>

definition loadFromFile ::
    "(byte list \<Rightarrow> hash) \<Rightarrow> torrent_file \<Rightarrow> fs \<Rightarrow> results \<Rightarrow> bool result \<times> results" where
  "loadFromFile sha1 t fs res = (case os_Open fs (tf_Name t) of
     Inr r \<Rightarrow> (case loadPiecesFromCompleteFile sha1 r t res of
         (None, res1) \<Rightarrow> (Inr True, res1)
       | (Some e, res1) \<Rightarrow> (Inl (rewrap ''error while reading file'' e), res1))
   | Inl ErrNotExist \<Rightarrow> (case loadPiecesFromPartialFiles sha1 t fs res of
         (None, res1) \<Rightarrow> (Inr False, res1)
       | (Some e, res1) \<Rightarrow> (Inl e, res1))
   | Inl e \<Rightarrow> (Inl (Errorf ''error while reading file''), res))"

text \<open>The results \<open>Main\<close> starts with.\<close>

definition results_start :: "torrent_file \<Rightarrow> results result" where
  "results_start t = bind_result (bf_New (num_hashes t)) (\<lambda>b.
     Inr \<lparr>rs_Pieces = replicate (length (tf_PieceHashes t)) None, rs_PiecesDone = 0,
          rs_TotalLength = 0, rs_Bitfield = b\<rparr>)"

section \<open>What a successful load guarantees\<close>

text \<open>
  Results that can be trusted: a bit is set exactly where there is a piece, and every piece
  stands at its index and hashes to the hash of the torrent.
\<close>

definition results_ok :: "(byte list \<Rightarrow> hash) \<Rightarrow> torrent_file \<Rightarrow> results \<Rightarrow> bool" where
  "results_ok sha1 t res \<longleftrightarrow> bf_wf (rs_Bitfield res) \<and> bf_Length (rs_Bitfield res) = num_hashes t
     \<and> length (rs_Pieces res) = length (tf_PieceHashes t)
     \<and> (\<forall>i < length (rs_Pieces res). int i \<in> bf_members (rs_Bitfield res) \<longleftrightarrow> rs_Pieces res ! i \<noteq> None)
     \<and> (\<forall>i < length (rs_Pieces res). \<forall>p. rs_Pieces res ! i = Some p \<longrightarrow>
          pc_Index p = int i \<and> sha1 (pc_Data p) = tf_PieceHashes t ! i)"

definition place :: "piece list \<Rightarrow> piece option list \<Rightarrow> piece option list" where
  "place ps xs = fold (\<lambda>p xs. xs[nat (pc_Index p) := Some p]) ps xs"

lemma place_simps [simp]:
  "place [] xs = xs"
  "place (p # ps) xs = place ps (xs[nat (pc_Index p) := Some p])"
  "place (ps @ qs) xs = place qs (place ps xs)"
  "length (place ps xs) = length xs"
proof -
  show "length (place ps xs) = length xs"
    by (induction ps arbitrary: xs) (simp_all add: place_def)
qed (simp_all add: place_def)

lemma nth_place:
  assumes "i < length xs" and "\<forall>p \<in> set ps. 0 \<le> pc_Index p"
  shows "place ps xs ! i = (if int i \<in> pc_Index ` set ps then place ps xs ! i else xs ! i)"
    and "int i \<in> pc_Index ` set ps \<Longrightarrow> \<exists>p \<in> set ps. pc_Index p = int i \<and> place ps xs ! i = Some p"
  using assms
proof (induction ps arbitrary: xs)
  case (Cons p ps)
  {
    case 1
    with Cons.IH(1) [of "xs[nat (pc_Index p) := Some p]"] show ?case by (auto simp: nth_list_update)
  next
    case 2
    show ?case
    proof (cases "int i \<in> pc_Index ` set ps")
      case True
      with Cons.IH(2) [of "xs[nat (pc_Index p) := Some p]"] 2 show ?thesis by auto
    next
      case False
      with 2 Cons.IH(1) [of "xs[nat (pc_Index p) := Some p]"] show ?thesis by (auto simp: nth_list_update)
    qed
  }
qed simp_all

text \<open>The checks of one file: the pieces are placed, counted, and all verified.\<close>

lemma load_pieces_ok:
  assumes "load_pieces sha1 t ps res = (None, res')" and "bf_wf (rs_Bitfield res)"
    and "bf_Length (rs_Bitfield res) = num_hashes t"
  shows "bf_wf (rs_Bitfield res') \<and> bf_Length (rs_Bitfield res') = num_hashes t
    \<and> bf_members (rs_Bitfield res') = bf_members (rs_Bitfield res) \<union> pc_Index ` set ps
    \<and> rs_Pieces res' = place ps (rs_Pieces res)
    \<and> rs_PiecesDone res' = rs_PiecesDone res + int (length ps)
    \<and> rs_TotalLength res' = rs_TotalLength res + sum_list (map pc_Length ps)
    \<and> (\<forall>p \<in> set ps. 0 \<le> pc_Index p \<and> pc_Index p < num_hashes t
        \<and> sha1 (pc_Data p) = tf_PieceHashes t ! nat (pc_Index p))"
  using assms
proof (induction ps arbitrary: res)
  case Nil
  then show ?case by simp
next
  case (Cons p ps)
  let ?i = "pc_Index p"
  let ?res1 = "res\<lparr>rs_Pieces := (rs_Pieces res)[nat ?i := Some p], rs_PiecesDone := rs_PiecesDone res + 1,
     rs_TotalLength := rs_TotalLength res + pc_Length p\<rparr>"
  obtain h old b where h: "go_index (tf_PieceHashes t) ?i = Inr h" "sha1 (pc_Data p) = h"
      and b: "bf_Set (rs_Bitfield res) ?i True = Inr b"
      and rest: "load_pieces sha1 t ps (?res1\<lparr>rs_Bitfield := b\<rparr>) = (None, res')"
    using Cons.prems(1) by (auto simp: Let_def split: sum.splits if_splits)
  have i: "0 \<le> ?i" "?i < num_hashes t" "h = tf_PieceHashes t ! nat ?i"
    using h(1) by (auto simp: go_index_Inr_iff)
  note upd = bf.upd_Inr [OF Cons.prems(2) i(1) b]
  have "bf_wf (rs_Bitfield (?res1\<lparr>rs_Bitfield := b\<rparr>))"
    "bf_Length (rs_Bitfield (?res1\<lparr>rs_Bitfield := b\<rparr>)) = num_hashes t"
    using upd Cons.prems(3) by simp_all
  from Cons.IH [OF rest this] upd h i show ?case by simp
qed

lemma place_results_ok:
  assumes "results_ok sha1 t res" and "bf_wf b" and "bf_Length b = num_hashes t"
    and "bf_members b = bf_members (rs_Bitfield res) \<union> pc_Index ` set ps"
    and "\<forall>p \<in> set ps. 0 \<le> pc_Index p \<and> pc_Index p < num_hashes t
        \<and> sha1 (pc_Data p) = tf_PieceHashes t ! nat (pc_Index p)"
  shows "results_ok sha1 t (res\<lparr>rs_Pieces := place ps (rs_Pieces res), rs_Bitfield := b\<rparr>)"
proof -
  have nn: "\<forall>p \<in> set ps. 0 \<le> pc_Index p" using assms(5) by auto
  have entry: "(int i \<in> bf_members b \<longleftrightarrow> place ps (rs_Pieces res) ! i \<noteq> None)
      \<and> (\<forall>p. place ps (rs_Pieces res) ! i = Some p \<longrightarrow> pc_Index p = int i \<and> sha1 (pc_Data p) = tf_PieceHashes t ! i)"
    if i: "i < length (rs_Pieces res)" for i
  proof (cases "int i \<in> pc_Index ` set ps")
    case True
    obtain p where p: "p \<in> set ps" "pc_Index p = int i" "place ps (rs_Pieces res) ! i = Some p"
      using nth_place(2) [OF i nn True] by auto
    then have "sha1 (pc_Data p) = tf_PieceHashes t ! i" using assms(5) by fastforce
    with p True assms(4) show ?thesis by simp
  next
    case False
    with nth_place(1) [OF i nn] assms(1,4) i show ?thesis by (simp add: results_ok_def)
  qed
  with assms(1-3) show ?thesis by (simp add: results_ok_def)
qed

text \<open>What reading a partial file does to the bits, for any contents of the file.\<close>

lemma piece_dec_index: "piece_dec r = (Inr p, r') \<Longrightarrow> 0 \<le> pc_Index p"
  by (auto simp: piece_dec_def Deserialize_def Let_def split: prod.splits option.splits sum.splits if_splits)

lemma ReadPartial_loop_bits:
  assumes "ReadPartial_loop r b acc = (Inr qs, b', r')"
  shows "\<exists>ps. qs = acc @ ps \<and> b' = set_bits b (map pc_Index ps) \<and> (\<forall>p \<in> set ps. 0 \<le> pc_Index p)"
  using assms
proof (induction "length (rd_data r)" arbitrary: r b acc rule: less_induct)
  case less
  obtain x r1 where x: "piece_dec r = (x, r1)" by force
  show ?case
  proof (cases x)
    case (Inl e)
    with x less.prems show ?thesis by (subst (asm) ReadPartial_loop.simps) (auto split: if_splits)
  next
    case (Inr p)
    note p = x [unfolded Inr]
    note i = piece_dec_index [OF p]
    have lt: "length (rd_data r1) < length (rd_data r)" using piece_dec_consumes [OF p] by simp
    obtain b1 where step: "ReadPartial_loop r b acc = ReadPartial_loop r1 b1 (acc @ [p])"
      and b1: "set_bits b (map pc_Index (p # ps)) = set_bits b1 (map pc_Index ps)" for ps
    proof (cases "bf_Set b (pc_Index p) True")
      case (Inl e)
      with p less.prems have "ReadPartial_loop r b acc = ReadPartial_loop r1 b (acc @ [p])"
        by (subst ReadPartial_loop.simps, subst (asm) ReadPartial_loop.simps) (cases e; simp)
      with Inl show ?thesis by (intro that [of b]) simp_all
    next
      case (Inr b1)
      with p show ?thesis by (intro that [of b1]) (subst ReadPartial_loop.simps, simp, simp)
    qed
    from less.hyps [OF lt less.prems [unfolded step]] obtain ps where
      "qs = acc @ p # ps" "b' = set_bits b1 (map pc_Index ps)" "\<forall>p \<in> set ps. 0 \<le> pc_Index p"
      by auto
    with i b1 [of ps] show ?thesis by (intro exI [of _ "p # ps"]) auto
  qed
qed

lemma load_parts_ok:
  assumes "load_parts sha1 t fs n i res = (None, res')" and "results_ok sha1 t res"
  shows "results_ok sha1 t res'"
  using assms
proof (induction n arbitrary: i res)
  case 0
  then show ?case by simp
next
  case (Suc n)
  obtain name where name: "part_name t i = Inr name" using Suc.prems(1) by (auto split: sum.splits)
  show ?case
  proof (cases "os_Stat fs name")
    case False
    with Suc name show ?thesis by auto
  next
    case True
    obtain r ps b r1 res1 where open_file: "os_Open fs name = Inr r" and rd: "ReadPartialFile r (rs_Bitfield res) = (Inr ps, b, r1)"
        and ld: "load_pieces sha1 t ps (res\<lparr>rs_Bitfield := b\<rparr>) = (None, res1)"
        and rest: "load_parts sha1 t fs n (Suc i) res1 = (None, res')"
      using Suc.prems(1) name True by (auto split: sum.splits prod.splits option.splits)
    have wf: "bf_wf (rs_Bitfield res)" "bf_Length (rs_Bitfield res) = num_hashes t"
      using Suc.prems(2) by (simp_all add: results_ok_def)
    have b: "b = set_bits (rs_Bitfield res) (map pc_Index ps)" and nn: "\<forall>i \<in> set (map pc_Index ps). 0 \<le> i"
      using ReadPartial_loop_bits [OF rd [unfolded ReadPartialFile_def]] by auto
    note bits = set_bits_spec [OF wf(1) nn]
    have "bf_wf (rs_Bitfield (res\<lparr>rs_Bitfield := b\<rparr>))" "bf_Length (rs_Bitfield (res\<lparr>rs_Bitfield := b\<rparr>)) = num_hashes t"
      using bits wf b by simp_all
    note l = load_pieces_ok [OF ld this]
    have "{i \<in> set (map pc_Index ps). i < bf_Length (rs_Bitfield res)} \<subseteq> pc_Index ` set ps" by auto
    then have mem: "bf_members (rs_Bitfield res1) = bf_members (rs_Bitfield res) \<union> pc_Index ` set ps"
      using l bits b by auto
    have "results_ok sha1 t (res\<lparr>rs_Pieces := place ps (rs_Pieces res), rs_Bitfield := rs_Bitfield res1\<rparr>)"
      by (rule place_results_ok [OF Suc.prems(2)]) (use l mem in auto)
    then have "results_ok sha1 t res1" using l by (simp add: results_ok_def)
    from Suc.IH [OF rest this] show ?thesis .
  qed
qed

lemma check_pieces_ok:
  "check_pieces sha1 t ps tot = Inr s \<Longrightarrow> s = tot + sum_list (map pc_Length ps)
    \<and> (\<forall>p \<in> set ps. sha1 (pc_Data p) = tf_PieceHashes t ! nat (pc_Index p))"
proof (induction ps arbitrary: tot)
  case (Cons p ps)
  then have "check_pieces sha1 t ps (tot + pc_Length p) = Inr s"
    and "sha1 (pc_Data p) = tf_PieceHashes t ! nat (pc_Index p)"
    by (auto simp: go_index_Inr_iff split: sum.splits if_splits)
  with Cons.IH [of "tot + pc_Length p"] show ?case by simp
qed simp

lemma loadPiecesFromCompleteFile_ok:
  assumes "loadPiecesFromCompleteFile sha1 r t res = (None, res')"
  shows "results_ok sha1 t res' \<and> rs_PiecesDone res' = num_hashes t \<and> rs_TotalLength res' = tf_Length t
    \<and> (\<exists>ps. rs_Pieces res' = map Some ps \<and> sum_list (map pc_Length ps) = tf_Length t)"
proof -
  obtain ps r1 b tot where rd: "Read r (num_hashes t) (tf_PieceLength t) = (Inr ps, r1)"
      and b: "bf_NewFull (num_hashes t) = Inr b" and chk: "check_pieces sha1 t ps 0 = Inr tot"
      and tot: "tot = tf_Length t"
      and res': "res' = res\<lparr>rs_Pieces := map Some ps, rs_PiecesDone := num_hashes t, rs_Bitfield := b,
        rs_TotalLength := tf_Length t\<rparr>"
    using assms by (auto simp: loadPiecesFromCompleteFile_def Let_def split: sum.splits prod.splits if_splits)
  have "\<not> num_hashes t \<le> 0" using bf_NewFull_panic [of "num_hashes t"] b by force
  then have pos: "0 < num_hashes t" and n: "1 \<le> num_hashes t" by linarith+
  note rd' = Read_in_order [OF rd n] and chk' = check_pieces_ok [OF chk]
  have full: "bf_wf b" "bf_Length b = num_hashes t" "bf_members b = {0..<num_hashes t}"
    using bf_NewFull_spec [OF pos] b by (metis sum.inject(2))+
  have "pc_Index (ps ! i) = int i \<and> sha1 (pc_Data (ps ! i)) = tf_PieceHashes t ! i" if "i < length ps" for i
    using that in_order_nth [OF rd'(2) that] chk' nth_mem [OF that] by fastforce
  then have "results_ok sha1 t res'" using full rd'(1) by (simp add: results_ok_def res')
  then show ?thesis using res' chk' tot by auto
qed

lemma results_start_ok:
  assumes "results_start t = Inr res"
  shows "results_ok sha1 t res" and "rs_PiecesDone res = 0" and "rs_TotalLength res = 0"
    and "rs_Pieces res = replicate (length (tf_PieceHashes t)) None"
proof -
  obtain b where b: "bf_New (num_hashes t) = Inr b" and res: "res = \<lparr>rs_Pieces = replicate (length (tf_PieceHashes t)) None,
      rs_PiecesDone = 0, rs_TotalLength = 0, rs_Bitfield = b\<rparr>"
    using assms by (auto simp: results_start_def)
  note new = bf_New_Inr [OF b]
  show "results_ok sha1 t res" using new by (simp add: results_ok_def res)
qed (use assms in \<open>auto simp: results_start_def\<close>)

lemma loadFromFile_ok:
  assumes "loadFromFile sha1 t fs res = (Inr full, res')" and "results_ok sha1 t res"
  shows "results_ok sha1 t res'"
    and "full \<Longrightarrow> rs_PiecesDone res' = num_hashes t \<and> rs_TotalLength res' = tf_Length t
      \<and> (\<exists>ps. rs_Pieces res' = map Some ps \<and> sum_list (map pc_Length ps) = tf_Length t)"
    and "full \<Longrightarrow> fs (tf_Name t) \<noteq> None" and "\<not> full \<Longrightarrow> fs (tf_Name t) = None"
proof -
  consider (complete) r where "os_Open fs (tf_Name t) = Inr r" "full" "loadPiecesFromCompleteFile sha1 r t res = (None, res')"
    | (partial) "os_Open fs (tf_Name t) = Inl ErrNotExist" "\<not> full" "loadPiecesFromPartialFiles sha1 t fs res = (None, res')"
    using assms(1) by (auto simp: loadFromFile_def split: sum.splits prod.splits option.splits go_error.splits)
  then have "results_ok sha1 t res' \<and> (full \<longrightarrow> rs_PiecesDone res' = num_hashes t \<and> rs_TotalLength res' = tf_Length t
      \<and> (\<exists>ps. rs_Pieces res' = map Some ps \<and> sum_list (map pc_Length ps) = tf_Length t))
    \<and> (full \<longleftrightarrow> fs (tf_Name t) \<noteq> None)"
  proof cases
    case complete
    with loadPiecesFromCompleteFile_ok [OF complete(3)] show ?thesis
      by (auto simp: os_Open_def split: option.splits)
  next
    case partial
    have "results_ok sha1 t (res\<lparr>rs_PiecesDone := 0\<rparr>)" using assms(2) by (simp add: results_ok_def)
    from load_parts_ok [OF partial(3) [unfolded loadPiecesFromPartialFiles_def] this] partial show ?thesis
      by (auto simp: os_Open_def split: option.splits fs_entry.splits)
  qed
  then show "results_ok sha1 t res'" "full \<Longrightarrow> rs_PiecesDone res' = num_hashes t \<and> rs_TotalLength res' = tf_Length t
      \<and> (\<exists>ps. rs_Pieces res' = map Some ps \<and> sum_list (map pc_Length ps) = tf_Length t)"
    "full \<Longrightarrow> fs (tf_Name t) \<noteq> None" "\<not> full \<Longrightarrow> fs (tf_Name t) = None"
    by auto
qed

section \<open>What the partial files hold\<close>

definition pname :: "torrent_file \<Rightarrow> nat \<Rightarrow> string" where
  "pname t i = take 20 (tf_Name t) @ ''.'' @ itoa (int i) @ ''.part''"

lemma part_name_long: "20 \<le> length (tf_Name t) \<Longrightarrow> part_name t i = Inr (pname t i)"
  by (simp add: part_name_def pname_def go_slice_def)

lemma part_name_short: "length (tf_Name t) < 20 \<Longrightarrow> part_name t i = Inl (Panic SliceBounds)"
  by (simp add: part_name_def go_slice_def)

lemma pname_inj [simp]: "pname t i = pname t j \<longleftrightarrow> i = j"
  by (simp add: pname_def)

definition contents :: "fs \<Rightarrow> string \<Rightarrow> byte list" where
  "contents fs name = (case fs name of Some (File bs) \<Rightarrow> bs | _ \<Rightarrow> [])"

text \<open>
  The part files hold the pieces \<open>old\<close>: part \<open>k\<close> is missing, or is the frames of
  \<open>old k\<close>.
\<close>

definition disk_holds :: "torrent_file \<Rightarrow> fs \<Rightarrow> (nat \<Rightarrow> piece list) \<Rightarrow> bool" where
  "disk_holds t fs old \<longleftrightarrow> (\<forall>k < fileNumber t.
     (fs (pname t k) = None \<and> old k = [])
     \<or> fs (pname t k) = Some (File (concat (map piece_frame (old k)))))"

lemma disk_holds_contents:
  "disk_holds t fs old \<Longrightarrow> k < fileNumber t \<Longrightarrow>
    contents fs (pname t k) = concat (map piece_frame (old k)) \<and> fs (pname t k) \<noteq> Some Denied"
  by (auto simp: disk_holds_def contents_def)

lemma open_parts_ok:
  assumes "20 \<le> length (tf_Name t)" and "\<forall>k \<in> {i..<i + n}. fs (pname t k) \<noteq> Some Denied"
  shows "\<exists>fs'. open_parts t (\<lambda>k. []) n i fs =
      (Inr (map (\<lambda>k. (pname t k, \<lparr>w_out = contents fs (pname t k), w_script = []\<rparr>)) [i..<i + n]), fs')
    \<and> (\<forall>x. x \<notin> pname t ` {i..<i + n} \<longrightarrow> fs' x = fs x)"
  using assms
proof (induction n arbitrary: i fs)
  case 0
  then show ?case by simp
next
  case (Suc n)
  define fs1 where "fs1 = (if fs (pname t i) = None then fs(pname t i \<mapsto> File []) else fs)"
  have op: "os_OpenAppend fs (pname t i) [] = (Inr \<lparr>w_out = contents fs (pname t i), w_script = []\<rparr>, fs1)"
    using Suc.prems(2) by (auto simp: os_OpenAppend_def contents_def fs1_def split: option.splits fs_entry.splits)
  have same: "fs1 (pname t k) = fs (pname t k)" if "k \<noteq> i" for k
    using that by (simp add: fs1_def)
  have "\<forall>k \<in> {Suc i..<Suc i + n}. fs1 (pname t k) \<noteq> Some Denied" using Suc.prems(2) same by auto
  from Suc.IH [OF Suc.prems(1) this] obtain fs' where fs':
    "open_parts t (\<lambda>k. []) n (Suc i) fs1 =
      (Inr (map (\<lambda>k. (pname t k, \<lparr>w_out = contents fs1 (pname t k), w_script = []\<rparr>)) [Suc i..<Suc i + n]), fs')"
    "\<forall>x. x \<notin> pname t ` {Suc i..<Suc i + n} \<longrightarrow> fs' x = fs1 x" by auto
  have eq: "\<forall>k \<in> {Suc i..<Suc (i + n)}. contents fs1 (pname t k) = contents fs (pname t k)"
    using same by (auto simp: contents_def)
  have upt: "[i..<i + Suc n] = i # [Suc i..<Suc i + n]" by (simp add: upt_conv_Cons)
  have "fs' x = fs x" if "x \<notin> pname t ` {i..<i + Suc n}" for x
  proof -
    have "x \<noteq> pname t i" "x \<notin> pname t ` {Suc i..<Suc i + n}" using that by auto
    with fs'(2) show ?thesis by (simp add: fs1_def)
  qed
  with fs'(1) op part_name_long [OF Suc.prems(1)] show ?case
    unfolding upt by (simp add: eq del: upt_Suc)
qed

lemma flush_parts_nth:
  assumes "distinct names" and "length ws = length names"
  shows "(\<forall>k < length names. flush_parts names ws fs (names ! k) = Some (File (w_out (ws ! k))))
    \<and> (\<forall>x. x \<notin> set names \<longrightarrow> flush_parts names ws fs x = fs x)"
  using assms
proof (induction names arbitrary: ws fs)
  case (Cons a names)
  then obtain w ws' where ws: "ws = w # ws'" by (cases ws) auto
  define fs1 where "fs1 = fs(a \<mapsto> File (w_out w))"
  have fs1: "fs1 a = Some (File (w_out w))" "x \<noteq> a \<Longrightarrow> fs1 x = fs x" for x
    by (simp_all add: fs1_def)
  have step: "flush_parts (a # names) (w # ws') fs = flush_parts names ws' fs1"
    by (simp add: flush_parts_def fs1_def)
  note IH = Cons.IH [of ws' fs1]
  have "flush_parts (a # names) ws fs ((a # names) ! k) = Some (File (w_out (ws ! k)))"
    if "k < length (a # names)" for k
    using that IH Cons.prems fs1 by (cases k) (auto simp: step ws)
  moreover have "\<forall>x. x \<notin> set (a # names) \<longrightarrow> flush_parts (a # names) ws fs x = fs x"
    using IH Cons.prems fs1(2) by (auto simp: step ws)
  ultimately show ?case by blast
qed (simp add: flush_parts_def)

lemma fileNumber_eq: "int (fileNumber t) = num_hashes t div 1000 + 1"
  by (simp add: fileNumber_def)

text \<open>A save adds the frames of the new pieces to what the disk holds, and touches nothing else.\<close>

lemma savePartialFiles_holds:
  assumes "disk_holds t fs old" and "20 \<le> length (tf_Name t)"
    and "bf_wf saved" and "bf_Length saved = num_hashes t"
    and "\<forall>p. Some p \<in> set (rs_Pieces res) \<longrightarrow> 0 \<le> pc_Index p \<and> pc_Index p < num_hashes t \<and> 0 \<le> pc_Length p"
  shows "\<exists>fs'. savePartialFiles t res saved (\<lambda>k. []) fs = (None, fs')
    \<and> disk_holds t fs' (\<lambda>k. old k @ map on_disk (filter (in_part k) (unsaved saved (rs_Pieces res))))
    \<and> (\<forall>x. x \<notin> pname t ` {0..<fileNumber t} \<longrightarrow> fs' x = fs x)"
proof -
  let ?n = "fileNumber t" and ?c = "\<lambda>k. contents fs (pname t k)"
  let ?ws = "map (\<lambda>k. \<lparr>w_out = ?c k, w_script = []\<rparr>) [0..<?n]"
  have "\<forall>k \<in> {0..<0 + ?n}. fs (pname t k) \<noteq> Some Denied"
    using disk_holds_contents [OF assms(1)] by auto
  from open_parts_ok [OF assms(2) this] obtain fs1 where op: "open_parts t (\<lambda>k. []) ?n 0 fs =
      (Inr (map (\<lambda>k. (pname t k, \<lparr>w_out = ?c k, w_script = []\<rparr>)) [0..<?n]), fs1)"
    and other: "\<forall>x. x \<notin> pname t ` {0..<?n} \<longrightarrow> fs1 x = fs x" by auto
  have idx: "pc_Index p div 1000 < int (length ?ws)" if "Some p \<in> set (rs_Pieces res)" for p
  proof -
    have "pc_Index p \<le> num_hashes t" using assms(5) that by auto
    then have "pc_Index p div 1000 \<le> num_hashes t div 1000" by (rule zdiv_mono1) simp
    then show ?thesis using fileNumber_eq [of t] by simp
  qed
  have rel: "\<forall>w \<in> set ?ws. w_reliable w" by simp
  have "\<forall>p. Some p \<in> set (rs_Pieces res) \<longrightarrow> 0 \<le> pc_Index p \<and> pc_Index p < bf_Length saved
      \<and> pc_Index p div 1000 < int (length ?ws) \<and> 0 \<le> pc_Length p"
    using assms(4,5) idx by simp
  from WritePartialFiles_reliable [OF assms(3) rel this] obtain ws' where
    w: "WritePartialFiles ?ws (rs_Pieces res) saved = (None, ws')" "length ws' = ?n"
      "\<forall>k < ?n. w_out (ws' ! k) = ?c k
        @ concat (map piece_frame (filter (in_part k) (unsaved saved (rs_Pieces res))))"
    by auto
  let ?names = "map (pname t) [0..<?n]"
  have "distinct ?names" by (simp add: distinct_map inj_on_def)
  note fl = flush_parts_nth [OF this, of ws' fs1]
  let ?fs = "flush_parts ?names ws' fs1"
  have "savePartialFiles t res saved (\<lambda>k. []) fs = (None, ?fs)"
    using op w(1) by (simp add: savePartialFiles_def comp_def)
  moreover have "?fs (pname t k) = Some (File (w_out (ws' ! k)))" if "k < ?n" for k
    using fl that w(2) by simp
  then have "disk_holds t ?fs (\<lambda>k. old k @ map on_disk (filter (in_part k) (unsaved saved (rs_Pieces res))))"
    using w(3) disk_holds_contents [OF assms(1)] by (simp add: disk_holds_def comp_def)
  moreover have "\<forall>x. x \<notin> pname t ` {0..<?n} \<longrightarrow> ?fs x = fs x"
    using fl w(2) other by simp
  ultimately show ?thesis by blast
qed

section \<open>Loading what the disk holds\<close>

definition verified_storable :: "(byte list \<Rightarrow> hash) \<Rightarrow> torrent_file \<Rightarrow> piece \<Rightarrow> bool" where
  "verified_storable sha1 t p \<longleftrightarrow> piece_storable p \<and> pc_Index p < num_hashes t
     \<and> sha1 (pc_Data p) = tf_PieceHashes t ! nat (pc_Index p)"

lemma verified_storable_index: "verified_storable sha1 t p \<Longrightarrow> 0 \<le> pc_Index p \<and> pc_Index p < num_hashes t"
  by (simp add: verified_storable_def piece_storable_def)

lemma load_pieces_verified:
  assumes "\<forall>p \<in> set ps. verified_storable sha1 t p" and "bf_wf (rs_Bitfield res)"
    and "bf_Length (rs_Bitfield res) = num_hashes t" and "length (rs_Pieces res) = length (tf_PieceHashes t)"
  shows "\<exists>res'. load_pieces sha1 t ps res = (None, res')"
  using assms
proof (induction ps arbitrary: res)
  case Nil
  then show ?case by simp
next
  case (Cons p ps)
  let ?i = "pc_Index p"
  have i: "0 \<le> ?i" "?i < num_hashes t" "sha1 (pc_Data p) = tf_PieceHashes t ! nat ?i"
    using Cons.prems(1) verified_storable_index [of sha1 t p] by (simp_all add: verified_storable_def)
  obtain b where b: "bf_Set (rs_Bitfield res) ?i True = Inr b" "bf_wf b" "bf_Length b = num_hashes t"
    using bf_Set_in [OF Cons.prems(2) i(1), of True] Cons.prems(3) i(2) by auto
  let ?res = "res\<lparr>rs_Pieces := (rs_Pieces res)[nat ?i := Some p], rs_PiecesDone := rs_PiecesDone res + 1,
     rs_TotalLength := rs_TotalLength res + pc_Length p, rs_Bitfield := b\<rparr>"
  have "load_pieces sha1 t (p # ps) res = load_pieces sha1 t ps ?res"
    using i b(1) Cons.prems(4) by (simp add: Let_def)
  with Cons.IH [of ?res] Cons.prems b(2,3) show ?case by simp
qed

text \<open>The pieces of the parts from \<open>i\<close> to \<open>i + n\<close>, in the order they are read.\<close>

definition held_from :: "(nat \<Rightarrow> piece list) \<Rightarrow> nat \<Rightarrow> nat \<Rightarrow> piece list" where
  "held_from old i n = concat (map old [i..<i + n])"

lemma held_from_Suc: "held_from old i (Suc n) = old i @ held_from old (Suc i) n"
  by (simp add: held_from_def upt_conv_Cons del: upt_Suc)

lemma load_parts_holds:
  assumes "disk_holds t fs old" and "20 \<le> length (tf_Name t)" and "i + n \<le> fileNumber t"
    and "\<forall>k. \<forall>p \<in> set (old k). verified_storable sha1 t p"
    and "bf_wf (rs_Bitfield res)" and "bf_Length (rs_Bitfield res) = num_hashes t"
    and "length (rs_Pieces res) = length (tf_PieceHashes t)"
  shows "\<exists>res'. load_parts sha1 t fs n i res = (None, res')
    \<and> rs_Pieces res' = place (held_from old i n) (rs_Pieces res)
    \<and> rs_PiecesDone res' = rs_PiecesDone res + int (length (held_from old i n))
    \<and> rs_TotalLength res' = rs_TotalLength res + sum_list (map pc_Length (held_from old i n))
    \<and> bf_members (rs_Bitfield res') = bf_members (rs_Bitfield res) \<union> pc_Index ` set (held_from old i n)"
  using assms
proof (induction n arbitrary: i res)
  case 0
  then show ?case by (simp add: held_from_def)
next
  case (Suc n)
  have name: "part_name t i = Inr (pname t i)" using Suc.prems(2) by (rule part_name_long)
  consider (absent) "fs (pname t i) = None" "old i = []"
    | (there) "fs (pname t i) = Some (File (concat (map piece_frame (old i))))"
  proof -
    have "i < fileNumber t" using Suc.prems(3) by simp
    with Suc.prems(1) that show thesis by (auto simp: disk_holds_def)
  qed
  then show ?case
  proof cases
    case absent
    then have "load_parts sha1 t fs (Suc n) i res = load_parts sha1 t fs n (Suc i) res"
      by (simp add: name os_Stat_def)
    with Suc.IH [of "Suc i" res] Suc.prems absent show ?thesis by (simp add: held_from_Suc)
  next
    case there
    let ?ps = "old i" and ?b = "set_bits (rs_Bitfield res) (map pc_Index (old i))"
    let ?r = "\<lparr>rd_data = concat (map piece_frame ?ps), rd_end = EOF, rd_chunks = []\<rparr>"
    have ver: "\<forall>p \<in> set ?ps. verified_storable sha1 t p" using Suc.prems(4) by blast
    then have "\<forall>p \<in> set ?ps. piece_storable p" by (simp add: verified_storable_def)
    then obtain r' where rd: "ReadPartialFile ?r (rs_Bitfield res) = (Inr ?ps, ?b, r')"
      using ReadPartialFile_frames [of ?ps ?r "rs_Bitfield res"] Suc.prems(5) by (auto simp: plain_reader_def)
    have ix: "\<forall>p \<in> set ?ps. 0 \<le> pc_Index p \<and> pc_Index p < num_hashes t"
      using ver verified_storable_index by blast
    then have "\<forall>i \<in> set (map pc_Index ?ps). 0 \<le> i" by auto
    from set_bits_spec [OF Suc.prems(5) this] have b: "bf_wf ?b" "bf_Length ?b = num_hashes t"
      "bf_members ?b = bf_members (rs_Bitfield res) \<union> pc_Index ` set ?ps"
      using ix Suc.prems(6) by auto
    obtain res1 where ld: "load_pieces sha1 t ?ps (res\<lparr>rs_Bitfield := ?b\<rparr>) = (None, res1)"
      using load_pieces_verified [OF ver, of "res\<lparr>rs_Bitfield := ?b\<rparr>"] b Suc.prems(7) by auto
    have "bf_wf (rs_Bitfield (res\<lparr>rs_Bitfield := ?b\<rparr>))" "bf_Length (rs_Bitfield (res\<lparr>rs_Bitfield := ?b\<rparr>)) = num_hashes t"
      using b by simp_all
    note l = load_pieces_ok [OF ld this]
    have step: "load_parts sha1 t fs (Suc n) i res = load_parts sha1 t fs n (Suc i) res1"
      using there rd ld by (simp add: name os_Stat_def os_Open_def)
    obtain res' where "load_parts sha1 t fs n (Suc i) res1 = (None, res')"
        "rs_Pieces res' = place (held_from old (Suc i) n) (rs_Pieces res1)"
        "rs_PiecesDone res' = rs_PiecesDone res1 + int (length (held_from old (Suc i) n))"
        "rs_TotalLength res' = rs_TotalLength res1 + sum_list (map pc_Length (held_from old (Suc i) n))"
        "bf_members (rs_Bitfield res') = bf_members (rs_Bitfield res1) \<union> pc_Index ` set (held_from old (Suc i) n)"
      using Suc.IH [of "Suc i" res1] Suc.prems l by auto
    with step l b(3) show ?thesis by (auto simp: held_from_Suc image_Un)
  qed
qed

section \<open>The parts partition the pieces\<close>

lemma mset_parts:
  assumes "distinct ks" and "\<forall>u \<in> set us. \<exists>k \<in> set ks. P k u"
    and "\<And>u k k'. u \<in> set us \<Longrightarrow> P k u \<Longrightarrow> P k' u \<Longrightarrow> k = k'"
  shows "mset (concat (map (\<lambda>k. filter (P k) us) ks)) = mset us"
  using assms
proof (induction ks arbitrary: us)
  case Nil
  then show ?case by (cases us) auto
next
  case (Cons k ks)
  have other: "filter (P j) (filter (\<lambda>u. \<not> P k u) us) = filter (P j) us" if "j \<in> set ks" for j
  proof -
    have "j \<noteq> k" using that Cons.prems(1) by auto
    then have "\<forall>u \<in> set us. P j u \<longrightarrow> \<not> P k u" using Cons.prems(3) by blast
    then show ?thesis by (auto simp: filter_filter intro!: filter_cong)
  qed
  have "mset (concat (map (\<lambda>j. filter (P j) (filter (\<lambda>u. \<not> P k u) us)) ks)) = mset (filter (\<lambda>u. \<not> P k u) us)"
    by (rule Cons.IH) (use Cons.prems in auto)
  moreover have eq: "map (\<lambda>j. filter (P j) (filter (\<lambda>u. \<not> P k u) us)) ks = map (\<lambda>j. filter (P j) us) ks"
    by (rule map_cong [OF refl]) (rule other)
  ultimately have "mset (concat (map (\<lambda>j. filter (P j) us) ks)) = filter_mset (\<lambda>u. \<not> P k u) (mset us)"
    unfolding eq by simp
  then show ?case using multiset_partition [of "mset us" "P k"] by simp
qed

lemma concat_map_append:
  "mset (concat (map (\<lambda>k. f k @ g k) ks)) = mset (concat (map f ks)) + mset (concat (map g ks))"
  by (induction ks) simp_all

lemma concat_map_map: "concat (map (\<lambda>k. map h (f k)) ks) = map h (concat (map f ks))"
  by (induction ks) simp_all

text \<open>The new pieces of a consistent list are distinct, and each belongs to exactly one part.\<close>

lemma unsaved_distinct:
  assumes "\<forall>i < length xs. \<forall>p. xs ! i = Some p \<longrightarrow> pc_Index p = c + int i"
  shows "distinct (map pc_Index (unsaved saved xs)) \<and> (\<forall>p \<in> set (unsaved saved xs). c \<le> pc_Index p)"
  using assms
proof (induction xs arbitrary: c)
  case Nil
  then show ?case by simp
next
  case (Cons x xs)
  have tl: "\<forall>i < length xs. \<forall>p. xs ! i = Some p \<longrightarrow> pc_Index p = (c + 1) + int i"
  proof (intro allI impI)
    fix i p
    assume "i < length xs" "xs ! i = Some p"
    with Cons.prems [THEN spec, of "Suc i"] show "pc_Index p = (c + 1) + int i" by simp
  qed
  have hd: "\<forall>p. x = Some p \<longrightarrow> pc_Index p = c" using Cons.prems by (auto dest: spec [of _ 0])
  show ?case
  proof (cases x)
    case None
    with Cons.IH [OF tl] show ?thesis by auto
  next
    case (Some p)
    with hd have "pc_Index p = c" by simp
    with Some Cons.IH [OF tl] show ?thesis by force
  qed
qed

lemma results_ok_piece:
  assumes "results_ok sha1 t res" and "Some p \<in> set (rs_Pieces res)"
  shows "0 \<le> pc_Index p \<and> pc_Index p < num_hashes t \<and> rs_Pieces res ! nat (pc_Index p) = Some p
    \<and> sha1 (pc_Data p) = tf_PieceHashes t ! nat (pc_Index p) \<and> pc_Index p \<in> bf_members (rs_Bitfield res)"
proof -
  obtain i where "i < length (rs_Pieces res)" "rs_Pieces res ! i = Some p"
    using assms(2) by (auto simp: in_set_conv_nth)
  with assms(1) show ?thesis by (auto simp: results_ok_def)
qed

lemma results_ok_bit:
  assumes "results_ok sha1 t res"
  shows "i \<in> bf_members (rs_Bitfield res) \<longleftrightarrow> 0 \<le> i \<and> i < num_hashes t \<and> rs_Pieces res ! nat i \<noteq> None"
proof (cases "0 \<le> i \<and> i < num_hashes t")
  case True
  then obtain k where k: "i = int k" using nonneg_int_cases by blast
  with True assms have "k < length (rs_Pieces res)" by (simp add: results_ok_def)
  with assms True k show ?thesis by (simp add: results_ok_def)
next
  case False
  with bf.members_range [of "rs_Bitfield res"] assms show ?thesis by (auto simp: results_ok_def)
qed

lemma in_part_unique: "in_part k p \<Longrightarrow> in_part k' p \<Longrightarrow> k = k'"
  by (simp add: in_part_def)

lemma in_part_exists:
  assumes "0 \<le> pc_Index p" and "pc_Index p < num_hashes t"
  shows "\<exists>k \<in> set [0..<fileNumber t]. in_part k p"
proof -
  have "pc_Index p div 1000 \<le> num_hashes t div 1000" using assms(2) by (intro zdiv_mono1) auto
  then have "nat (pc_Index p div 1000) < fileNumber t" using fileNumber_eq [of t] by linarith
  then show ?thesis using assms(1) by (intro bexI [of _ "nat (pc_Index p div 1000)"]) (auto simp: in_part_def)
qed

text \<open>
  A save on top of what was loaded: together the parts hold every piece of the results exactly
  once.
\<close>

definition saved_parts :: "(nat \<Rightarrow> piece list) \<Rightarrow> bitfield \<Rightarrow> results \<Rightarrow> nat \<Rightarrow> piece list" where
  "saved_parts old saved res k = old k @ map on_disk (filter (in_part k) (unsaved saved (rs_Pieces res)))"

lemma mset_saved_parts:
  assumes "results_ok sha1 t res"
  shows "mset (held_from (saved_parts old saved res) 0 (fileNumber t)) =
    mset (held_from old 0 (fileNumber t)) + mset (map on_disk (unsaved saved (rs_Pieces res)))"
proof -
  let ?u = "unsaved saved (rs_Pieces res)" and ?ks = "[0..<fileNumber t]"
  have "mset (concat (map (\<lambda>k. filter (in_part k) ?u) ?ks)) = mset ?u"
  proof (rule mset_parts)
    show "\<forall>u \<in> set ?u. \<exists>k \<in> set ?ks. in_part k u"
      using results_ok_piece [OF assms] in_part_exists by (auto simp: set_unsaved)
  qed (auto intro: in_part_unique)
  then have "mset (map on_disk (concat (map (\<lambda>k. filter (in_part k) ?u) ?ks))) = mset (map on_disk ?u)"
    by (metis mset_map)
  moreover have "map (saved_parts old saved res) ?ks
      = map (\<lambda>k. old k @ map on_disk (filter (in_part k) ?u)) ?ks"
    by (simp add: saved_parts_def)
  ultimately show ?thesis
    by (simp only: held_from_def add_0 concat_map_append concat_map_map)
qed

section \<open>Resuming a download\<close>

text \<open>The disk is in the state a load left it in: it holds exactly the pieces marked as saved.\<close>

definition resumable :: "(byte list \<Rightarrow> hash) \<Rightarrow> torrent_file \<Rightarrow> fs \<Rightarrow> (nat \<Rightarrow> piece list) \<Rightarrow> bitfield \<Rightarrow> results \<Rightarrow> bool" where
  "resumable sha1 t fs old saved res \<longleftrightarrow> 20 \<le> length (tf_Name t) \<and> fs (tf_Name t) = None
     \<and> tf_Name t \<notin> pname t ` {0..<fileNumber t}
     \<and> disk_holds t fs old \<and> (\<forall>k. \<forall>p \<in> set (old k). verified_storable sha1 t p)
     \<and> (let h = held_from old 0 (fileNumber t)
        in distinct (map pc_Index h) \<and> pc_Index ` set h = bf_members saved
           \<and> (\<forall>p \<in> set h. rs_Pieces res ! nat (pc_Index p) = Some p))
     \<and> bf_wf saved \<and> bf_Length saved = num_hashes t"

lemma on_disk_storable [simp]: "piece_storable p \<Longrightarrow> on_disk p = p"
  by (simp add: on_disk_def piece_storable_def)

lemma saved_parts_pieces:
  assumes "results_ok sha1 t res" and "resumable sha1 t fs old saved res"
  defines "h \<equiv> held_from (saved_parts old saved res) 0 (fileNumber t)"
  shows "distinct (map pc_Index h)" and "pc_Index ` set h = bf_members (rs_Bitfield res)"
    and "\<forall>p \<in> set h. \<exists>q. rs_Pieces res ! nat (pc_Index p) = Some q \<and> p = on_disk q"
proof -
  let ?o = "held_from old 0 (fileNumber t)" and ?u = "unsaved saved (rs_Pieces res)"
  have mh: "mset h = mset (?o @ map on_disk ?u)" using mset_saved_parts [OF assms(1)] by (simp add: h_def)
  then have sh: "set h = set ?o \<union> on_disk ` set ?u"
    by (metis set_mset_mset set_append list.set_map)
  have old: "distinct (map pc_Index ?o)" "pc_Index ` set ?o = bf_members saved"
    "\<forall>p \<in> set ?o. rs_Pieces res ! nat (pc_Index p) = Some p" "\<forall>k. \<forall>p \<in> set (old k). verified_storable sha1 t p"
    using assms(2) by (auto simp: resumable_def Let_def)
  have ver: "verified_storable sha1 t p" if "p \<in> set ?o" for p
    using that old(4) by (auto simp: held_from_def)
  have "\<forall>i < length (rs_Pieces res). \<forall>p. rs_Pieces res ! i = Some p \<longrightarrow> pc_Index p = 0 + int i"
    using assms(1) by (simp add: results_ok_def)
  from unsaved_distinct [OF this, of saved] have "distinct (map pc_Index ?u)" by blast
  moreover have "pc_Index ` set ?o \<inter> pc_Index ` set ?u = {}" using old(2) by (auto simp: set_unsaved)
  ultimately have "distinct (map pc_Index (?o @ map on_disk ?u))" using old(1) by (simp add: comp_def)
  then show "distinct (map pc_Index h)" using mh by (metis mset_eq_imp_distinct_iff mset_map)
  show pieces: "\<forall>p \<in> set h. \<exists>q. rs_Pieces res ! nat (pc_Index p) = Some q \<and> p = on_disk q"
  proof
    fix p
    assume "p \<in> set h"
    then consider "p \<in> set ?o" | q where "q \<in> set ?u" "p = on_disk q" using sh by auto
    then show "\<exists>q. rs_Pieces res ! nat (pc_Index p) = Some q \<and> p = on_disk q"
    proof cases
      case 1
      with old(3) ver [OF 1] show ?thesis by (auto simp: verified_storable_def)
    next
      case 2
      with results_ok_piece [OF assms(1)] show ?thesis by (auto simp: set_unsaved)
    qed
  qed
  have idx: "0 \<le> pc_Index p \<and> pc_Index p < num_hashes t" if "p \<in> set h" for p
    using that sh ver verified_storable_index results_ok_piece [OF assms(1)] by (fastforce simp: set_unsaved)
  show "pc_Index ` set h = bf_members (rs_Bitfield res)"
  proof (intro equalityI subsetI)
    fix i
    assume "i \<in> pc_Index ` set h"
    then obtain p q where p: "p \<in> set h" "i = pc_Index p" "rs_Pieces res ! nat i = Some q"
      using pieces by auto
    then show "i \<in> bf_members (rs_Bitfield res)"
      using idx [OF p(1)] by (simp add: results_ok_bit [OF assms(1)])
  next
    fix i
    assume i: "i \<in> bf_members (rs_Bitfield res)"
    then have ir: "0 \<le> i" "i < num_hashes t" using bf.members_range assms(1) by (fastforce simp: results_ok_def)+
    then have "nat i < length (rs_Pieces res)" using assms(1) by (simp add: results_ok_def)
    then obtain p where p: "rs_Pieces res ! nat i = Some p" "pc_Index p = i"
      using assms(1) i ir by (auto simp: results_ok_def)
    show "i \<in> pc_Index ` set h"
    proof (cases "i \<in> bf_members saved")
      case True
      then show ?thesis using old(2) sh by auto
    next
      case False
      have "Some p \<in> set (rs_Pieces res)" using p(1) \<open>nat i < length (rs_Pieces res)\<close> nth_mem by fastforce
      then have "on_disk p \<in> set h" using False p(2) sh by (auto simp: set_unsaved)
      then have "pc_Index (on_disk p) \<in> pc_Index ` set h" by (rule imageI)
      then show ?thesis using p(2) by simp
    qed
  qed
qed

lemma place_all:
  assumes "\<forall>p \<in> set h. 0 \<le> pc_Index p \<and> (\<exists>q. xs ! nat (pc_Index p) = Some q \<and> p = on_disk q)"
    and "\<forall>i < length xs. xs ! i \<noteq> None \<longrightarrow> int i \<in> pc_Index ` set h"
  shows "place h (replicate (length xs) None) = map (map_option on_disk) xs"
proof (rule nth_equalityI)
  fix i
  assume "i < length (place h (replicate (length xs) None))"
  then have i: "i < length xs" "i < length (replicate (length xs) (None :: piece option))" by simp_all
  have nn: "\<forall>p \<in> set h. 0 \<le> pc_Index p" using assms(1) by blast
  show "place h (replicate (length xs) None) ! i = map (map_option on_disk) xs ! i"
  proof (cases "int i \<in> pc_Index ` set h")
    case True
    obtain p where p: "p \<in> set h" "pc_Index p = int i" "place h (replicate (length xs) None) ! i = Some p"
      using nth_place(2) [OF i(2) nn True] by auto
    with assms(1) i(1) show ?thesis by fastforce
  next
    case False
    with nth_place(1) [OF i(2) nn] assms(2) i(1) show ?thesis by fastforce
  qed
qed simp

lemma resume_load:
  assumes "results_start t = Inr res0" and "results_ok sha1 t res" and "resumable sha1 t fs old saved res"
    and "\<forall>p. Some p \<in> set (rs_Pieces res) \<longrightarrow> piece_storable (on_disk p)"
  shows "\<exists>fs' res'. savePartialFiles t res saved (\<lambda>k. []) fs = (None, fs')
    \<and> loadFromFile sha1 t fs' res0 = (Inr False, res')
    \<and> rs_Pieces res' = map (map_option on_disk) (rs_Pieces res)
    \<and> rs_PiecesDone res' = int (card (bf_members (rs_Bitfield res)))
    \<and> bf_members (rs_Bitfield res') = bf_members (rs_Bitfield res)"
proof -
  note r = assms(3) [unfolded resumable_def Let_def]
  let ?new = "saved_parts old saved res"
  let ?h = "held_from ?new 0 (fileNumber t)"
  note h = saved_parts_pieces [OF assms(2,3)]
  have nonneg: "0 \<le> pc_Index p \<and> pc_Index p < num_hashes t \<and> 0 \<le> pc_Length p" if "Some p \<in> set (rs_Pieces res)" for p
    using results_ok_piece [OF assms(2) that] assms(4) that by (auto simp: piece_storable_def)
  then obtain fs' where sv: "savePartialFiles t res saved (\<lambda>k. []) fs = (None, fs')"
      "disk_holds t fs' ?new" "\<forall>x. x \<notin> pname t ` {0..<fileNumber t} \<longrightarrow> fs' x = fs x"
    using savePartialFiles_holds [of t fs old saved res] r unfolding saved_parts_def by blast
  have ver: "\<forall>k. \<forall>p \<in> set (?new k). verified_storable sha1 t p"
    using r results_ok_piece [OF assms(2)] assms(4) by (auto simp: saved_parts_def set_unsaved verified_storable_def)
  note st = results_start_ok [OF assms(1)]
  have ok0: "results_ok sha1 t res0" by (rule st(1))
  let ?r0 = "res0\<lparr>rs_PiecesDone := 0\<rparr>"
  have "bf_wf (rs_Bitfield ?r0)" "bf_Length (rs_Bitfield ?r0) = num_hashes t" "length (rs_Pieces ?r0) = length (tf_PieceHashes t)"
    using ok0 by (simp_all add: results_ok_def)
  from load_parts_holds [OF sv(2) _ _ ver this, of 0 "fileNumber t"] r obtain res' where res':
    "load_parts sha1 t fs' (fileNumber t) 0 ?r0 = (None, res')" "rs_Pieces res' = place ?h (rs_Pieces res0)"
    "rs_PiecesDone res' = int (length ?h)"
    "bf_members (rs_Bitfield res') = bf_members (rs_Bitfield res0) \<union> pc_Index ` set ?h"
    by auto
  have "fs' (tf_Name t) = None" using sv(3) r by simp
  then have load: "loadFromFile sha1 t fs' res0 = (Inr False, res')"
    using res'(1) by (simp add: loadFromFile_def os_Open_def loadPiecesFromPartialFiles_def)
  have len: "length (rs_Pieces res) = length (tf_PieceHashes t)" using assms(2) by (simp add: results_ok_def)
  have "\<forall>i < length (rs_Pieces res). rs_Pieces res ! i \<noteq> None \<longrightarrow> int i \<in> pc_Index ` set ?h"
    using h(2) assms(2) by (simp add: results_ok_def)
  moreover have "\<forall>p \<in> set ?h. 0 \<le> pc_Index p \<and> (\<exists>q. rs_Pieces res ! nat (pc_Index p) = Some q \<and> p = on_disk q)"
    using h(3) ver verified_storable_index by (fastforce simp: held_from_def)
  ultimately have "rs_Pieces res' = map (map_option on_disk) (rs_Pieces res)"
    using place_all [of ?h "rs_Pieces res"] res'(2) st(4) len by simp
  moreover have "length ?h = card (bf_members (rs_Bitfield res))"
    using h(1,2) by (metis distinct_card length_map list.set_map)
  moreover have "bf_members (rs_Bitfield res0) = {}"
    using st(4) by (auto simp: results_ok_bit [OF ok0])
  ultimately show ?thesis using sv(1) load res' h(2) by auto
qed

section \<open>Deleting\<close>

lemma delete_parts_spec:
  assumes "20 \<le> length (tf_Name t)" and "\<forall>k \<in> {i..<i + n}. fs (pname t k) \<noteq> Some Denied"
  shows "\<exists>fs'. delete_parts t n i fs = (None, fs') \<and> (\<forall>k \<in> {i..<i + n}. fs' (pname t k) = None)
    \<and> (\<forall>x. x \<notin> pname t ` {i..<i + n} \<longrightarrow> fs' x = fs x)"
  using assms
proof (induction n arbitrary: i fs)
  case 0
  then show ?case by simp
next
  case (Suc n)
  define fs1 where "fs1 = fs(pname t i := None)"
  have step: "delete_parts t (Suc n) i fs = delete_parts t n (Suc i) fs1"
    using Suc.prems part_name_long [OF Suc.prems(1), of i]
    by (cases "fs (pname t i)")
       (auto simp: os_Remove_def fs1_def fun_upd_idem split: fs_entry.splits)
  have "\<forall>k \<in> {Suc i..<Suc i + n}. fs1 (pname t k) \<noteq> Some Denied"
    using Suc.prems(2) by (auto simp: fs1_def)
  from Suc.IH [OF Suc.prems(1) this] obtain fs' where fs': "delete_parts t n (Suc i) fs1 = (None, fs')"
    "\<forall>k \<in> {Suc i..<Suc i + n}. fs' (pname t k) = None"
    "\<forall>x. x \<notin> pname t ` {Suc i..<Suc i + n} \<longrightarrow> fs' x = fs1 x" by blast
  have "pname t i \<notin> pname t ` {Suc i..<Suc i + n}" by auto
  then have "fs' (pname t i) = None" using fs'(3) by (simp add: fs1_def)
  then have "\<forall>k \<in> {i..<i + Suc n}. fs' (pname t k) = None"
    using fs'(2) by (auto simp: less_Suc_eq_le le_eq_less_or_eq Suc_le_eq)
  moreover have "fs' x = fs x" if "x \<notin> pname t ` {i..<i + Suc n}" for x
  proof -
    have "x \<noteq> pname t i" "x \<notin> pname t ` {Suc i..<Suc i + n}" using that by auto
    with fs'(3) show ?thesis by (simp add: fs1_def)
  qed
  ultimately show ?case using fs'(1) step by auto
qed

text \<open>Deleting. With a long enough name and no part file that resists, deleting removes every part file
  of the torrent and no other file.\<close>

lemma parts_are_deleted:
  assumes "20 \<le> length (tf_Name t)" and "\<forall>k < fileNumber t. fs (pname t k) \<noteq> Some Denied"
  shows "\<exists>fs'. deletePartialFiles t fs = (None, fs') \<and> (\<forall>k < fileNumber t. fs' (pname t k) = None)
    \<and> (\<forall>x. x \<notin> pname t ` {0..<fileNumber t} \<longrightarrow> fs' x = fs x)"
  using delete_parts_spec [OF assms(1), of 0 "fileNumber t" fs] assms(2)
  by (auto simp: deletePartialFiles_def)

section \<open>Short names\<close>

text \<open>For a torrent whose name has fewer than twenty bytes, starting without a complete file, saving and
  deleting partial files all panic on slicing the name.\<close>

lemma short_name_panics:
  assumes "length (tf_Name t) < 20"
  shows "fs (tf_Name t) = None \<Longrightarrow> fst (loadFromFile sha1 t fs res) = Inl (Panic SliceBounds)"
    and "fst (savePartialFiles t res saved script fs) = Some (Panic SliceBounds)"
    and "fst (deletePartialFiles t fs) = Some (Panic SliceBounds)"
proof -
  obtain n where n: "fileNumber t = Suc n" using fileNumber_eq [of t] by (cases "fileNumber t") auto
  note name = part_name_short [OF assms, of 0]
  show "fs (tf_Name t) = None \<Longrightarrow> fst (loadFromFile sha1 t fs res) = Inl (Panic SliceBounds)"
    "fst (savePartialFiles t res saved script fs) = Some (Panic SliceBounds)"
    "fst (deletePartialFiles t fs) = Some (Panic SliceBounds)"
    by (simp_all add: n name loadFromFile_def os_Open_def loadPiecesFromPartialFiles_def
        savePartialFiles_def deletePartialFiles_def)
qed

end
