(* ===== verification/Store_Properties.thy ===== *)
theory Store_Properties
  imports Local_Store
begin

text \<open>
  The properties of the download on disk: what a load guarantees, and that a finished
  download is recognised.
\<close>

section \<open>Further lemmas\<close>

lemma check_pieces_verified:
  assumes "\<forall>p \<in> set ps. 0 \<le> pc_Index p \<and> pc_Index p < num_hashes t
      \<and> sha1 (pc_Data p) = tf_PieceHashes t ! nat (pc_Index p)"
  shows "check_pieces sha1 t ps tot = Inr (tot + sum_list (map pc_Length ps))"
  using assms by (induction ps arbitrary: tot) simp_all

section \<open>Sample data\<close>

definition toy_sha1 :: "byte list \<Rightarrow> hash" where
  "toy_sha1 bs = take 20 (bs @ replicate 20 0)"

definition store_torrent :: torrent_file where
  "store_torrent = \<lparr>tf_Announce = '''', tf_Name = ''a-file-name-of-24-chars.x'', tf_Comment = '''', tf_CreatedBy = '''',
     tf_CreationDate = 0, tf_Length = 3, tf_PieceLength = 2, tf_PieceHashes = [toy_sha1 [1, 2], toy_sha1 [3]],
     tf_InfoHash = replicate 20 9, tf_AnnounceList = []\<rparr>"

definition store_pieces :: "piece list" where
  "store_pieces = [\<lparr>pc_Index = 0, pc_Length = 2, pc_Data = [1, 2], pc_From = ''peer''\<rparr>,
     \<lparr>pc_Index = 1, pc_Length = 1, pc_Data = [3], pc_From = ''other''\<rparr>]"

definition store_start :: results where
  "store_start = \<lparr>rs_Pieces = [None, None], rs_PiecesDone = 0, rs_TotalLength = 0,
     rs_Bitfield = \<lparr>bf_Length = 2, bf_data = [0]\<rparr>\<rparr>"

lemma store_start: "results_start store_torrent = Inr store_start"
  by code_simp

lemmas store_defs = store_torrent_def store_pieces_def toy_sha1_def

section \<open>Properties\<close>

text \<open>C26: What a successful load guarantees. Whatever the file system holds, when loading succeeds a bit
  is set exactly for the pieces that are present, and every piece stands at its own index and
  hashes to the torrent's hash; after loading a complete file all pieces are there and their
  lengths sum up to the length of the torrent.\<close>

theorem load_is_sound:
  assumes "results_start t = Inr res" and "loadFromFile sha1 t fs res = (Inr full, res')"
  shows "length (rs_Pieces res') = length (tf_PieceHashes t)
    \<and> (\<forall>i < length (tf_PieceHashes t). bf_Get (rs_Bitfield res') (int i) = Inr (rs_Pieces res' ! i \<noteq> None))
    \<and> (\<forall>i < length (tf_PieceHashes t). \<forall>p. rs_Pieces res' ! i = Some p \<longrightarrow>
         pc_Index p = int i \<and> sha1 (pc_Data p) = tf_PieceHashes t ! i)
    \<and> (full \<longrightarrow> rs_PiecesDone res' = num_hashes t \<and> rs_TotalLength res' = tf_Length t
         \<and> (\<exists>ps. rs_Pieces res' = map Some ps \<and> sum_list (map pc_Length ps) = tf_Length t))"
proof -
  note ok = loadFromFile_ok [OF assms(2) results_start_ok(1) [OF assms(1)]]
  have "bf_Get (rs_Bitfield res') (int i) = Inr (rs_Pieces res' ! i \<noteq> None)" if "i < length (tf_PieceHashes t)" for i
    using ok(1) that by (simp add: results_ok_def bf_Get_in)
  with ok show ?thesis by (simp add: results_ok_def)
qed

lemma sample_load:
  "case loadFromFile toy_sha1 store_torrent [''a-file-name-of-24-chars.x'' \<mapsto> File [1, 2, 3]] store_start of
     (Inr full, res') \<Rightarrow> full | _ \<Rightarrow> False"
  by code_simp

theorem load_is_sound_witness:
  "case loadFromFile toy_sha1 store_torrent [''a-file-name-of-24-chars.x'' \<mapsto> File [1, 2, 3]] store_start of
     (Inr full, res') \<Rightarrow> rs_PiecesDone res' = num_hashes store_torrent
       \<and> (\<forall>i < length (tf_PieceHashes store_torrent). bf_Get (rs_Bitfield res') (int i) = Inr (rs_Pieces res' ! i \<noteq> None))
   | _ \<Rightarrow> False"
proof -
  obtain full res' where l: "loadFromFile toy_sha1 store_torrent [''a-file-name-of-24-chars.x'' \<mapsto> File [1, 2, 3]] store_start
      = (Inr full, res')" and full
    using sample_load by (auto split: prod.splits sum.splits)
  then show ?thesis unfolding l using load_is_sound [OF store_start l] by simp
qed

text \<open>C27: A finished download is recognised. When the file written by \<open>Save\<close> at the end of a download is
  there, the next start loads it as complete, with the same pieces.\<close>

theorem finished_download_is_recognised:
  assumes "results_start t = Inr res0" and "in_order 0 (ps @ [p])"
    and "length (ps @ [p]) = length (tf_PieceHashes t)"
    and "\<forall>q \<in> set ps. int (length (pc_Data q)) = tf_PieceLength t" and "0 \<le> tf_PieceLength t"
    and "\<forall>q \<in> set (ps @ [p]). pc_Length q = int (length (pc_Data q))
      \<and> sha1 (pc_Data q) = tf_PieceHashes t ! nat (pc_Index q)"
    and "sum_list (map pc_Length (ps @ [p])) = tf_Length t"
    and "Save \<lparr>w_out = [], w_script = []\<rparr> (map Some (ps @ [p])) = (e, w)"
    and "fs (tf_Name t) = Some (File (w_out w))"
  shows "\<exists>res'. loadFromFile sha1 t fs res0 = (Inr True, res')
    \<and> rs_Pieces res' = map (\<lambda>q. Some (q\<lparr>pc_From := ''local''\<rparr>)) (ps @ [p])
    \<and> rs_PiecesDone res' = num_hashes t \<and> rs_TotalLength res' = tf_Length t"
proof -
  let ?qs = "map (\<lambda>q. q\<lparr>pc_From := ''local''\<rparr>) (ps @ [p])"
  let ?r = "\<lparr>rd_data = w_out w, rd_end = EOF, rd_chunks = []\<rparr>"
  have w: "w_out w = concat (map pc_Data ps) @ pc_Data p"
    using Save_from_reliable [OF assms(2), of "\<lparr>w_out = [], w_script = []\<rparr>"] assms(8) by (auto simp: Save_def)
  have n: "int (length ps) + 1 = num_hashes t" using assms(3) by simp
  have "\<forall>d \<in> set (map pc_Data ps). int (length d) = tf_PieceLength t" using assms(4) by simp
  from Read_blocks [OF this assms(5), of ?r "pc_Data p"] w n
  have rd: "fst (Read ?r (num_hashes t) (tf_PieceLength t)) = Inr (local_pieces 0 (map pc_Data (ps @ [p])))" by simp
  have loc: "local_pieces i (map pc_Data qs) = map (\<lambda>q. q\<lparr>pc_From := ''local''\<rparr>) qs"
    if "in_order i qs" "\<forall>q \<in> set qs. pc_Length q = int (length (pc_Data q))" for i qs
    using that by (induction qs arbitrary: i) (auto simp: local_piece_def)
  have qs: "local_pieces 0 (map pc_Data (ps @ [p])) = ?qs"
    by (rule loc [OF assms(2)]) (use assms(6) in blast)
  obtain r1 where rd': "Read ?r (num_hashes t) (tf_PieceLength t) = (Inr ?qs, r1)"
    using rd qs by (metis prod.collapse)
  have "0 < num_hashes t" using n by linarith
  then obtain b where b: "bf_NewFull (num_hashes t) = Inr b" using bf_NewFull_spec by blast
  have ix: "0 \<le> pc_Index q \<and> pc_Index q < num_hashes t" if q: "q \<in> set (ps @ [p])" for q
  proof -
    obtain i where i: "i < length (ps @ [p])" "q = (ps @ [p]) ! i" using q by (metis in_set_conv_nth)
    have "pc_Index q = int i" using in_order_nth [OF assms(2) i(1)] i(2) by simp
    then show ?thesis using i(1) assms(3) by simp
  qed
  have "\<forall>q \<in> set ?qs. 0 \<le> pc_Index q \<and> pc_Index q < num_hashes t
      \<and> sha1 (pc_Data q) = tf_PieceHashes t ! nat (pc_Index q)"
    using ix assms(6) by auto
  from check_pieces_verified [OF this, of 0] have "check_pieces sha1 t ?qs 0 = Inr (tf_Length t)"
    using assms(7) by (simp add: comp_def)
  with rd' b assms(9) show ?thesis
    by (simp add: loadFromFile_def os_Open_def loadPiecesFromCompleteFile_def Let_def)
qed

theorem finished_download_is_recognised_witness:
  "\<exists>res'. loadFromFile toy_sha1 store_torrent [''a-file-name-of-24-chars.x'' \<mapsto> File [1, 2, 3]] store_start = (Inr True, res')
    \<and> rs_Pieces res' = map (\<lambda>q. Some (q\<lparr>pc_From := ''local''\<rparr>)) ([store_pieces ! 0] @ [store_pieces ! 1])
    \<and> rs_PiecesDone res' = num_hashes store_torrent \<and> rs_TotalLength res' = tf_Length store_torrent"
  by (rule finished_download_is_recognised [OF store_start,
        where e = None and w = "\<lparr>w_out = [1, 2, 3], w_script = []\<rparr>"])
     (simp_all add: store_defs Save_def)

end
