(* ===== verification/Connections.thy ===== *)
theory Connections
  imports Torrent_Types
begin

text \<open>
  The connection pool of \<open>client/types.go\<close> (\<open>IsOpen\<close>, \<open>Add\<close>, \<open>Remove\<close>, the
  blacklist) and its users in \<open>client/client.go\<close>: \<open>updateOnlineConnections\<close>,
  \<open>connectToPeer\<close>, \<open>launchClients\<close> and one round of \<open>listeningServer\<close>. The clock
  is an argument (nanoseconds), and so is the outcome of dialling. \<open>Add\<close> is composed of the two
  critical sections the code has, so that their interleaving can be stated. The locale
  \<open>address_pool\<close> is the contract of the pool, \<open>pool\<close> its interpretation.
\<close>

section \<open>The pool\<close>

definition connectionBlacklistDuration :: int where
  "connectionBlacklistDuration = 60 * 1000000000"

record connection =
  cn_ip :: addr
  cn_unchoke :: "string list list"

record connections =
  cs_peers :: "connection list"
  cs_blacklist :: "string \<Rightarrow> int option"

fun getIpFromAddr :: "addr \<Rightarrow> string result" where
  "getIpFromAddr (TCPAddr n ip port) = Inr ip"
| "getIpFromAddr (OtherAddr n s) = Inl (Errorf ''cannot get IP from addr'')"

fun find_open :: "string \<Rightarrow> connection list \<Rightarrow> bool result" where
  "find_open ip [] = Inr False"
| "find_open ip (p # ps) = (case getIpFromAddr (cn_ip p) of
     Inl e \<Rightarrow> Inl (Errorf ''cannot check IsOpen, invalid address present in connections'')
   | Inr peerIp \<Rightarrow> if peerIp = ip then Inr True else find_open ip ps)"

definition IsOpen :: "connections \<Rightarrow> string \<Rightarrow> bool result" where
  "IsOpen c ip = find_open ip (cs_peers c)"

text \<open>
  \<open>Add\<close>: the check takes and releases the lock, the insertion takes it again.
\<close>

definition Add_check :: "connections \<Rightarrow> addr \<Rightarrow> unit result" where
  "Add_check c a = (case getIpFromAddr a of
     Inl e \<Rightarrow> Inl (Errorf ''cannot check IsOpen, invalid input address'')
   | Inr ip \<Rightarrow> (case IsOpen c ip of
       Inl e \<Rightarrow> Inl (Errorf ''error adding connection, error while checking connection open'')
     | Inr True \<Rightarrow> Inl (Errorf ''error adding connection, connection already open'')
     | Inr False \<Rightarrow> Inr ()))"

definition Add_commit :: "connections \<Rightarrow> addr \<Rightarrow> connection \<times> connections" where
  "Add_commit c a = (let new = \<lparr>cn_ip = a, cn_unchoke = []\<rparr> in (new, c\<lparr>cs_peers := cs_peers c @ [new]\<rparr>))"

definition Add :: "connections \<Rightarrow> addr \<Rightarrow> connection result \<times> connections" where
  "Add c a = (case Add_check c a of
     Inl e \<Rightarrow> (Inl e, c)
   | Inr u \<Rightarrow> (case Add_commit c a of (new, c1) \<Rightarrow> (Inr new, c1)))"

text \<open>
  \<open>Remove\<close> compares the addresses as interface values, that is by identity, and drops the last
  match.
\<close>

definition last_index :: "('a \<Rightarrow> bool) \<Rightarrow> 'a list \<Rightarrow> nat option" where
  "last_index p xs = fold (\<lambda>(i, x) acc. if p x then Some i else acc) (enumerate 0 xs) None"

definition Remove :: "connections \<Rightarrow> addr \<Rightarrow> go_error option \<times> connections" where
  "Remove c a = (case last_index (\<lambda>p. addr_same (cn_ip p) a) (cs_peers c) of
     None \<Rightarrow> (Some (Errorf ''error removing connection, connection not found''), c)
   | Some i \<Rightarrow> (None, c\<lparr>cs_peers := swap_delete i (cs_peers c)\<rparr>))"

definition IsBlacklisted :: "int \<Rightarrow> connections \<Rightarrow> string \<Rightarrow> bool \<times> connections" where
  "IsBlacklisted now c ip = (case cs_blacklist c ip of
     None \<Rightarrow> (False, c)
   | Some since \<Rightarrow>
       if now - since > connectionBlacklistDuration
       then (False, c\<lparr>cs_blacklist := (cs_blacklist c)(ip := None)\<rparr>)
       else (True, c))"

definition BlacklistIp :: "int \<Rightarrow> connections \<Rightarrow> string \<Rightarrow> connections" where
  "BlacklistIp now c ip = c\<lparr>cs_blacklist := (cs_blacklist c)(ip \<mapsto> now)\<rparr>"

definition BlacklistAddr :: "int \<Rightarrow> connections \<Rightarrow> addr \<Rightarrow> go_error option \<times> connections" where
  "BlacklistAddr now c a = (case getIpFromAddr a of
     Inl e \<Rightarrow> (Some (Errorf ''cannot check IsOpen, invalid input address''), c)
   | Inr ip \<Rightarrow> (None, c\<lparr>cs_blacklist := (cs_blacklist c)(ip \<mapsto> now)\<rparr>))"

definition GetConnectedNumber :: "connections \<Rightarrow> int" where
  "GetConnectedNumber c = int (length (cs_peers c))"

section \<open>Finished connections\<close>

text \<open>
  \<open>updateOnlineConnections\<close>: drains the channel of ended connections, forgets what is known of
  their peers, blacklists their addresses and removes them from the pool.
\<close>

definition forget_ended :: "int \<Rightarrow> (string \<times> addr) list \<Rightarrow> connections \<Rightarrow> (string \<Rightarrow> int option) \<Rightarrow> (string \<Rightarrow> bool option)
    \<Rightarrow> connections \<times> (string \<Rightarrow> int option) \<times> (string \<Rightarrow> bool option)" where
  "forget_ended now ended c gen intr =
     fold (\<lambda>(ident, a) (c, gen, intr).
       (snd (BlacklistAddr now c a), gen(ident := None), intr(ident := None))) ended (c, gen, intr)"

definition remove_ended :: "addr list \<Rightarrow> connections \<Rightarrow> connections" where
  "remove_ended as c = fold (\<lambda>a c. snd (Remove c a)) as c"

definition updateOnlineConnections :: "int \<Rightarrow> connections \<Rightarrow> communication \<Rightarrow> (string \<Rightarrow> int option) \<Rightarrow> (string \<Rightarrow> bool option)
    \<Rightarrow> connections \<times> communication \<times> (string \<Rightarrow> int option) \<times> (string \<Rightarrow> bool option)" where
  "updateOnlineConnections now c cm gen intr =
     (case forget_ended now (cm_ConnectionEnded cm) c gen intr of
        (c1, gen1, intr1) \<Rightarrow>
          (remove_ended (map snd (cm_ConnectionEnded cm)) c1, cm\<lparr>cm_ConnectionEnded := []\<rparr>, gen1, intr1))"

section \<open>New connections\<close>

text \<open>\<open>net.IP.String\<close> on the four bytes the tracker's compact list gives for a peer.\<close>

definition ip_String :: "byte list \<Rightarrow> string" where
  "ip_String bs = (case bs of
     [a, b, c, d] \<Rightarrow> dec_nat (unat a) @ ''.'' @ dec_nat (unat b) @ ''.'' @ dec_nat (unat c) @ ''.'' @ dec_nat (unat d)
   | _ \<Rightarrow> ''?'')"

type_synonym dialer = "string \<Rightarrow> 16 word \<Rightarrow> addr option"

text \<open>The result is the address of the connection a goroutine \<open>leech\<close> is started on.\<close>

definition connectToPeer :: "dialer \<Rightarrow> int \<Rightarrow> connections \<Rightarrow> string \<Rightarrow> 16 word \<Rightarrow> addr result \<times> connections" where
  "connectToPeer dial now c ip port = (case IsOpen c ip of
     Inl e \<Rightarrow> (Inl (Errorf ''error while checking if already connected''), c)
   | Inr True \<Rightarrow> (Inl (Errorf ''already connected''), c)
   | Inr False \<Rightarrow> (case dial ip port of
       None \<Rightarrow> (Inl (Errorf ''connection to peer failed''), BlacklistIp now c ip)
     | Some a \<Rightarrow> (case Add c a of
         (Inl e, c1) \<Rightarrow> (Inl (Errorf ''adding a connection to pool failed''), c1)
       | (Inr new, c1) \<Rightarrow> (Inr a, c1))))"

text \<open>
  The loop of \<open>launchClients\<close> over the peers the tracker named, \<open>n\<close> being the number of
  connections made so far: the addresses it started a leech on.
\<close>

fun launch_loop :: "dialer \<Rightarrow> int \<Rightarrow> int \<Rightarrow> (byte list \<times> 16 word option) list \<Rightarrow> int \<Rightarrow> connections
    \<Rightarrow> addr list result \<times> connections" where
  "launch_loop dial now requested [] n c = (Inr [], c)"
| "launch_loop dial now requested ((ipb, port) # rest) n c =
     (let ip = ip_String ipb in
      case IsOpen c ip of
        Inl e \<Rightarrow> launch_loop dial now requested rest n c
      | Inr True \<Rightarrow> launch_loop dial now requested rest n c
      | Inr False \<Rightarrow> (case IsBlacklisted now c ip of
          (True, c1) \<Rightarrow> launch_loop dial now requested rest n c1
        | (False, c1) \<Rightarrow> (case port of
            None \<Rightarrow> (Inl (Panic IndexOutOfRange), c1)
          | Some pt \<Rightarrow> (case connectToPeer dial now c1 ip pt of
              (Inl e, c2) \<Rightarrow>
                if n = requested then (Inr [], c2)
                else if n > requested then (Inl (Panic (Explicit ''connected to more peers than wanted'')), c2)
                else launch_loop dial now requested rest n c2
            | (Inr a, c2) \<Rightarrow>
                if n + 1 = requested then (Inr [a], c2)
                else if n + 1 > requested then (Inl (Panic (Explicit ''connected to more peers than wanted'')), c2)
                else (case launch_loop dial now requested rest (n + 1) c2 of
                    (Inl e, c3) \<Rightarrow> (Inl e, c3)
                  | (Inr as, c3) \<Rightarrow> (Inr (a # as), c3))))))"

definition launchClients :: "dialer \<Rightarrow> int \<Rightarrow> int \<Rightarrow> tracker_information \<Rightarrow> connections
    \<Rightarrow> addr list result \<times> connections" where
  "launchClients dial now requested info c =
     launch_loop dial now requested
       (map (\<lambda>i. (ti_IPs info ! i, if i < length (ti_Ports info) then Some (ti_Ports info ! i) else None))
         [0..<length (ti_IPs info)]) 0 c"

text \<open>
  One round of \<open>listeningServer\<close>. When \<open>Accept\<close> fails the code still asks the nil connection
  for its address. The result is the address a goroutine \<open>seed\<close> is started on, if any.
\<close>

definition listen_round :: "addr option \<Rightarrow> connections \<Rightarrow> addr option result \<times> connections" where
  "listen_round accepted c = (case accepted of
     None \<Rightarrow> (Inl (Panic NilDereference), c)
   | Some a \<Rightarrow> (case Add c a of
       (Inl e, c1) \<Rightarrow> (Inr None, c1)
     | (Inr new, c1) \<Rightarrow> (Inr (Some a), c1)))"

section \<open>The contract of the pool\<close>

definition addr_ip :: "addr \<Rightarrow> string" where
  "addr_ip a = (case a of TCPAddr n ip port \<Rightarrow> ip | OtherAddr n s \<Rightarrow> '''')"

definition is_tcp :: "addr \<Rightarrow> bool" where
  "is_tcp a = (case a of TCPAddr n ip port \<Rightarrow> True | OtherAddr n s \<Rightarrow> False)"

definition pool_ips :: "connections \<Rightarrow> string set" where
  "pool_ips c = (addr_ip \<circ> cn_ip) ` set (cs_peers c)"

text \<open>Every address is a TCP address, and no IP and no address object occurs twice.\<close>

definition pool_inv :: "connections \<Rightarrow> bool" where
  "pool_inv c \<longleftrightarrow> (\<forall>p \<in> set (cs_peers c). is_tcp (cn_ip p))
     \<and> distinct (map (addr_ip \<circ> cn_ip) (cs_peers c))
     \<and> distinct (map (addr_ref \<circ> cn_ip) (cs_peers c))"

lemma getIpFromAddr_tcp: "is_tcp a \<Longrightarrow> getIpFromAddr a = Inr (addr_ip a)"
  by (cases a) (simp_all add: is_tcp_def addr_ip_def)

lemma getIpFromAddr_other: "\<not> is_tcp a \<Longrightarrow> \<exists>m. getIpFromAddr a = Inl (Errorf m)"
  by (cases a) (simp_all add: is_tcp_def)

lemma find_open_tcp:
  "\<forall>p \<in> set ps. is_tcp (cn_ip p) \<Longrightarrow> find_open ip ps = Inr (ip \<in> (addr_ip \<circ> cn_ip) ` set ps)"
  by (induction ps) (auto simp: getIpFromAddr_tcp)

lemma IsOpen_inv: "pool_inv c \<Longrightarrow> IsOpen c ip = Inr (ip \<in> pool_ips c)"
  unfolding IsOpen_def pool_ips_def by (rule find_open_tcp) (simp add: pool_inv_def)

lemma Add_check_inv:
  "pool_inv c \<Longrightarrow> is_tcp a \<Longrightarrow> Add_check c a =
    (if addr_ip a \<in> pool_ips c then Inl (Errorf ''error adding connection, connection already open'') else Inr ())"
  by (simp add: Add_check_def getIpFromAddr_tcp IsOpen_inv)

lemma Add_new:
  assumes "pool_inv c" and "is_tcp a" and "addr_ip a \<notin> pool_ips c"
  shows "Add c a = (Inr \<lparr>cn_ip = a, cn_unchoke = []\<rparr>, c\<lparr>cs_peers := cs_peers c @ [\<lparr>cn_ip = a, cn_unchoke = []\<rparr>]\<rparr>)"
  using assms by (simp add: Add_def Add_check_inv Add_commit_def Let_def)

lemma Add_open:
  assumes "pool_inv c" and "is_tcp a" and "addr_ip a \<in> pool_ips c"
  shows "Add c a = (Inl (Errorf ''error adding connection, connection already open''), c)"
  using assms by (simp add: Add_def Add_check_inv)

lemma Add_other: "\<not> is_tcp a \<Longrightarrow> \<exists>m. Add c a = (Inl (Errorf m), c)"
  using getIpFromAddr_other [of a] by (auto simp: Add_def Add_check_def)

text \<open>A fresh address object: dialling and accepting make a new one every time.\<close>

definition fresh_addr :: "connections \<Rightarrow> addr \<Rightarrow> bool" where
  "fresh_addr c a \<longleftrightarrow> addr_ref a \<notin> (addr_ref \<circ> cn_ip) ` set (cs_peers c)"

lemma Add_inv:
  assumes "pool_inv c" and "fresh_addr c a" and "Add c a = (r, c')"
  shows "pool_inv c' \<and> cs_blacklist c' = cs_blacklist c
    \<and> (case r of Inl e \<Rightarrow> c' = c \<and> \<not> is_panic e
       | Inr new \<Rightarrow> is_tcp a \<and> addr_ip a \<notin> pool_ips c \<and> cn_ip new = a
           \<and> cs_peers c' = cs_peers c @ [new] \<and> pool_ips c' = insert (addr_ip a) (pool_ips c))"
proof (cases "is_tcp a")
  case False
  with Add_other [of a c] assms show ?thesis by auto
next
  case tcp: True
  show ?thesis
  proof (cases "addr_ip a \<in> pool_ips c")
    case True
    with Add_open [OF assms(1) tcp] assms show ?thesis by auto
  next
    case False
    with Add_new [OF assms(1) tcp False] assms tcp show ?thesis
      by (auto simp: pool_inv_def pool_ips_def fresh_addr_def)
  qed
qed

lemma last_index_snoc: "last_index p (xs @ [x]) = (if p x then Some (length xs) else last_index p xs)"
  by (simp add: last_index_def enumerate_append_eq)

lemma last_index_spec:
  "case last_index p xs of
     None \<Rightarrow> \<forall>x \<in> set xs. \<not> p x
   | Some i \<Rightarrow> i < length xs \<and> p (xs ! i) \<and> (\<forall>j. i < j \<and> j < length xs \<longrightarrow> \<not> p (xs ! j))"
proof (induction xs rule: rev_induct)
  case Nil
  then show ?case by (simp add: last_index_def)
next
  case (snoc x xs)
  then show ?case
    by (auto simp: last_index_snoc nth_append less_Suc_eq split: option.splits)
qed

lemma Remove_inv:
  assumes "pool_inv c" and "Remove c a = (e, c')"
  shows "pool_inv c' \<and> cs_blacklist c' = cs_blacklist c
    \<and> set (cs_peers c') = {p \<in> set (cs_peers c). addr_ref (cn_ip p) \<noteq> addr_ref a}
    \<and> (e = None \<longleftrightarrow> addr_ref a \<in> (addr_ref \<circ> cn_ip) ` set (cs_peers c))"
proof (cases "last_index (\<lambda>p. addr_same (cn_ip p) a) (cs_peers c)")
  case None
  then have "\<forall>p \<in> set (cs_peers c). addr_ref (cn_ip p) \<noteq> addr_ref a"
    using last_index_spec [where p = "\<lambda>p. addr_same (cn_ip p) a" and xs = "cs_peers c"] by (simp add: addr_same_def)
  with None assms show ?thesis by (auto simp: Remove_def)
next
  case (Some i)
  then have i: "i < length (cs_peers c)" "addr_ref (cn_ip (cs_peers c ! i)) = addr_ref a"
    using last_index_spec [where p = "\<lambda>p. addr_same (cn_ip p) a" and xs = "cs_peers c"] by (simp_all add: addr_same_def)
  let ?ps = "swap_delete i (cs_peers c)"
  have d: "distinct (map (addr_ip \<circ> cn_ip) (cs_peers c))" "distinct (map (addr_ref \<circ> cn_ip) (cs_peers c))"
    and tcp: "\<forall>p \<in> set (cs_peers c). is_tcp (cn_ip p)"
    using assms(1) by (simp_all add: pool_inv_def)
  have set: "set ?ps = set (cs_peers c) - {cs_peers c ! i}"
    using d(2) by (intro set_swap_delete [OF i(1)]) (simp add: distinct_map)
  have uniq: "p = cs_peers c ! i" if "p \<in> set (cs_peers c)" "addr_ref (cn_ip p) = addr_ref a" for p
    using d(2) that i by (auto simp: distinct_map inj_on_def)
  have "c' = c\<lparr>cs_peers := ?ps\<rparr>" "e = None" using assms(2) Some by (simp_all add: Remove_def)
  moreover have "set ?ps = {p \<in> set (cs_peers c). addr_ref (cn_ip p) \<noteq> addr_ref a}"
    using uniq i(2) by (auto simp: set)
  moreover have "pool_inv (c\<lparr>cs_peers := ?ps\<rparr>)"
    using distinct_map_swap_delete(1) [OF i(1) d(1)] distinct_map_swap_delete(1) [OF i(1) d(2)] tcp
    by (auto simp: pool_inv_def set)
  moreover have "addr_ref a \<in> (addr_ref \<circ> cn_ip) ` set (cs_peers c)"
    using i nth_mem [OF i(1)] by (auto simp: image_iff intro!: bexI [of _ "cs_peers c ! i"])
  ultimately show ?thesis by simp
qed

text \<open>
  What the clients rely on: membership by IP, insertion that refuses an IP that is there, and a
  removal after which the address is gone.
\<close>

locale address_pool =
  fixes is_open :: "'c \<Rightarrow> string \<Rightarrow> bool result"
    and add :: "'c \<Rightarrow> addr \<Rightarrow> 'p result \<times> 'c"
    and remove :: "'c \<Rightarrow> addr \<Rightarrow> go_error option \<times> 'c"
    and members :: "'c \<Rightarrow> addr set"
    and invar :: "'c \<Rightarrow> bool"
  assumes is_open: "invar c \<Longrightarrow> is_open c ip = Inr (ip \<in> addr_ip ` members c)"
    and add_Inr: "invar c \<Longrightarrow> addr_ref a \<notin> addr_ref ` members c \<Longrightarrow> add c a = (Inr p, c') \<Longrightarrow>
      invar c' \<and> members c' = insert a (members c) \<and> addr_ip a \<notin> addr_ip ` members c"
    and add_Inl: "invar c \<Longrightarrow> add c a = (Inl e, c') \<Longrightarrow>
      c' = c \<and> (is_tcp a \<longrightarrow> addr_ip a \<in> addr_ip ` members c)"
    and remove: "invar c \<Longrightarrow> remove c a = (x, c') \<Longrightarrow>
      invar c' \<and> members c' = {b \<in> members c. addr_ref b \<noteq> addr_ref a}"
begin

lemma add_then_open:
  assumes "invar c" and "is_tcp a" and "addr_ref a \<notin> addr_ref ` members c"
  shows "is_open (snd (add c a)) (addr_ip a) = Inr True"
proof (cases "add c a")
  case (Pair r c')
  then show ?thesis
    using assms add_Inr [of c a _ c'] add_Inl [of c a _ c'] by (cases r) (auto simp: is_open)
qed

lemma add_twice_refused:
  assumes "invar c" and "add c a = (Inr p, c')" and "is_tcp b" and "addr_ip b = addr_ip a"
    and "addr_ref a \<notin> addr_ref ` members c" and "addr_ref b \<notin> addr_ref ` members c'"
  shows "\<exists>e. add c' b = (Inl e, c')"
proof -
  note a = add_Inr [OF assms(1,5,2)]
  obtain r c2 where r: "add c' b = (r, c2)" by force
  show ?thesis
  proof (cases r)
    case (Inl e)
    with r add_Inl [of c' b e c2] a show ?thesis by auto
  next
    case (Inr q)
    with r add_Inr [of c' b q c2] a assms(4,6) show ?thesis by auto
  qed
qed

lemma add_remove:
  assumes "invar c" and "add c a = (Inr p, c1)" and "addr_ref a \<notin> addr_ref ` members c"
    and "remove c1 a = (x, c2)"
  shows "members c2 = members c" and "is_open c2 ip = is_open c ip"
proof -
  note a = add_Inr [OF assms(1,3,2)]
  note r = remove [OF _ assms(4)]
  show m: "members c2 = members c" using a r assms(3) by (auto simp: image_iff)
  show "is_open c2 ip = is_open c ip" using is_open [of c2 ip] is_open [OF assms(1), of ip] a r m by auto
qed

end

interpretation pool: address_pool IsOpen Add Remove "\<lambda>c. cn_ip ` set (cs_peers c)" pool_inv
proof unfold_locales
  show "IsOpen c ip = Inr (ip \<in> addr_ip ` cn_ip ` set (cs_peers c))" if "pool_inv c" for c ip
    using IsOpen_inv [OF that] by (simp add: pool_ips_def image_comp)
  show "pool_inv c' \<and> cn_ip ` set (cs_peers c') = insert a (cn_ip ` set (cs_peers c))
      \<and> addr_ip a \<notin> addr_ip ` cn_ip ` set (cs_peers c)"
    if "pool_inv c" "addr_ref a \<notin> addr_ref ` cn_ip ` set (cs_peers c)" "Add c a = (Inr p, c')" for c a p c'
    using Add_inv [OF that(1) _ that(3)] that(2) by (simp add: fresh_addr_def pool_ips_def image_comp)
  show "c' = c \<and> (is_tcp a \<longrightarrow> addr_ip a \<in> addr_ip ` cn_ip ` set (cs_peers c))"
    if "pool_inv c" "Add c a = (Inl e, c')" for c a e c'
    using Add_new [OF that(1), of a] Add_open [OF that(1), of a] Add_other [of a c] that(2)
    by (cases "is_tcp a"; cases "addr_ip a \<in> pool_ips c") (auto simp: pool_ips_def image_comp)
  show "pool_inv c' \<and> cn_ip ` set (cs_peers c') = {b \<in> cn_ip ` set (cs_peers c). addr_ref b \<noteq> addr_ref a}"
    if "pool_inv c" "Remove c a = (e, c')" for c a e c'
    using Remove_inv [OF that] by auto
qed

section \<open>The blacklist\<close>

definition blacklisted :: "int \<Rightarrow> connections \<Rightarrow> string \<Rightarrow> bool" where
  "blacklisted now c ip \<longleftrightarrow> (case cs_blacklist c ip of None \<Rightarrow> False
     | Some since \<Rightarrow> now - since \<le> connectionBlacklistDuration)"

lemma IsBlacklisted_spec:
  "fst (IsBlacklisted now c ip) = blacklisted now c ip"
  "blacklisted now (snd (IsBlacklisted now c ip)) x = blacklisted now c x"
  "cs_peers (snd (IsBlacklisted now c ip)) = cs_peers c"
  by (auto simp: IsBlacklisted_def blacklisted_def split: option.splits)

lemma blacklisted_BlacklistIp:
  "blacklisted now (BlacklistIp at c ip) x \<longleftrightarrow>
    (if x = ip then now - at \<le> connectionBlacklistDuration else blacklisted now c x)"
  by (simp add: blacklisted_def BlacklistIp_def)

lemma pool_BlacklistIp [simp]:
  "cs_peers (BlacklistIp now c ip) = cs_peers c" "pool_inv (BlacklistIp now c ip) = pool_inv c"
  "pool_ips (BlacklistIp now c ip) = pool_ips c"
  by (simp_all add: BlacklistIp_def pool_inv_def pool_ips_def)

lemma pool_inv_peers: "cs_peers c' = cs_peers c \<Longrightarrow> pool_inv c' = pool_inv c \<and> pool_ips c' = pool_ips c"
  by (simp add: pool_inv_def pool_ips_def)

section \<open>Forgetting connections\<close>

lemma forget_ended_spec:
  assumes "forget_ended now ended c gen intr = (c1, gen1, intr1)"
  shows "cs_peers c1 = cs_peers c
    \<and> gen1 = (\<lambda>x. if x \<in> fst ` set ended then None else gen x)
    \<and> intr1 = (\<lambda>x. if x \<in> fst ` set ended then None else intr x)
    \<and> cs_blacklist c1 = (\<lambda>x. if \<exists>a \<in> snd ` set ended. is_tcp a \<and> addr_ip a = x then Some now else cs_blacklist c x)"
  using assms
proof (induction ended arbitrary: c gen intr)
  case Nil
  then show ?case by (auto simp: forget_ended_def)
next
  case (Cons e ended)
  obtain ident a where e: "e = (ident, a)" by (cases e)
  let ?c = "snd (BlacklistAddr now c a)"
  have "forget_ended now ended ?c (gen(ident := None)) (intr(ident := None)) = (c1, gen1, intr1)"
    using Cons.prems by (simp add: forget_ended_def e)
  note IH = Cons.IH [OF this]
  have "cs_peers ?c = cs_peers c"
    and "cs_blacklist ?c = (\<lambda>x. if is_tcp a \<and> addr_ip a = x then Some now else cs_blacklist c x)"
    by (cases a; auto simp: BlacklistAddr_def is_tcp_def addr_ip_def)+
  with IH show ?case by (auto simp: e fun_eq_iff)
qed

lemma remove_ended_spec:
  "pool_inv c \<Longrightarrow> pool_inv (remove_ended as c) \<and> cs_blacklist (remove_ended as c) = cs_blacklist c
    \<and> set (cs_peers (remove_ended as c)) = {p \<in> set (cs_peers c). addr_ref (cn_ip p) \<notin> addr_ref ` set as}"
proof (induction as arbitrary: c)
  case Nil
  then show ?case by (simp add: remove_ended_def)
next
  case (Cons a as)
  obtain e c1 where rm: "Remove c a = (e, c1)" by force
  note r = Remove_inv [OF Cons.prems rm]
  have "remove_ended (a # as) c = remove_ended as c1" by (simp add: remove_ended_def rm)
  with Cons.IH [of c1] r show ?case by auto
qed

section \<open>Launching connections\<close>

text \<open>
  What dialling relies on: a connection to an address has that IP, and every connection has an
  address object of its own.
\<close>

definition dial_ok :: "dialer \<Rightarrow> connections \<Rightarrow> bool" where
  "dial_ok dial c \<longleftrightarrow>
     (\<forall>ip pt a. dial ip pt = Some a \<longrightarrow> is_tcp a \<and> addr_ip a = ip \<and> (ip \<notin> pool_ips c \<longrightarrow> fresh_addr c a))
     \<and> (\<forall>ip pt a ip' pt' a'. dial ip pt = Some a \<and> dial ip' pt' = Some a' \<and> ip \<noteq> ip' \<longrightarrow> addr_ref a \<noteq> addr_ref a')"

lemma dial_ok_peers: "cs_peers c' = cs_peers c \<Longrightarrow> dial_ok dial c' = dial_ok dial c"
  by (simp add: dial_ok_def fresh_addr_def pool_ips_def)

text \<open>New whatever the pool holds, and whatever part of it is removed before the call.\<close>

definition dial_fresh :: "dialer \<Rightarrow> connections \<Rightarrow> bool" where
  "dial_fresh dial c \<longleftrightarrow>
     (\<forall>ip pt a. dial ip pt = Some a \<longrightarrow> is_tcp a \<and> addr_ip a = ip \<and> fresh_addr c a)
     \<and> (\<forall>ip pt a ip' pt' a'. dial ip pt = Some a \<and> dial ip' pt' = Some a' \<and> ip \<noteq> ip' \<longrightarrow> addr_ref a \<noteq> addr_ref a')"

lemma dial_fresh_ok:
  assumes "dial_fresh dial c" and "(addr_ref \<circ> cn_ip) ` set (cs_peers c') \<subseteq> (addr_ref \<circ> cn_ip) ` set (cs_peers c)"
  shows "dial_ok dial c'"
  using assms unfolding dial_fresh_def dial_ok_def fresh_addr_def by blast

lemma connectToPeer_cases:
  assumes "pool_inv c" and "dial_ok dial c" and "ip \<notin> pool_ips c"
  obtains (failed) "dial ip pt = None" and "connectToPeer dial now c ip pt
        = (Inl (Errorf ''connection to peer failed''), BlacklistIp now c ip)"
  | (connected) a c' where "dial ip pt = Some a" and "connectToPeer dial now c ip pt = (Inr a, c')"
      and "pool_inv c'" and "dial_ok dial c'" and "cs_blacklist c' = cs_blacklist c"
      and "cs_peers c' = cs_peers c @ [\<lparr>cn_ip = a, cn_unchoke = []\<rparr>]"
      and "pool_ips c' = insert ip (pool_ips c)" and "addr_ip a = ip"
proof (cases "dial ip pt")
  case None
  with assms IsOpen_inv [OF assms(1), of ip] show ?thesis by (intro failed) (simp_all add: connectToPeer_def)
next
  case (Some a)
  then have a: "is_tcp a" "addr_ip a = ip" "fresh_addr c a" using assms(2,3) by (simp_all add: dial_ok_def)
  have add: "Add c a = (Inr \<lparr>cn_ip = a, cn_unchoke = []\<rparr>, c\<lparr>cs_peers := cs_peers c @ [\<lparr>cn_ip = a, cn_unchoke = []\<rparr>]\<rparr>)"
    using Add_new [OF assms(1) a(1)] a(2) assms(3) by simp
  let ?c = "c\<lparr>cs_peers := cs_peers c @ [\<lparr>cn_ip = a, cn_unchoke = []\<rparr>]\<rparr>"
  have inv: "pool_inv ?c" "pool_ips ?c = insert ip (pool_ips c)" using Add_inv [OF assms(1) a(3) add] a(2) by simp_all
  have "fresh_addr ?c a'" if "dial ip' pt' = Some a'" "ip' \<notin> pool_ips ?c" for ip' pt' a'
  proof -
    have "ip' \<noteq> ip" "ip' \<notin> pool_ips c" using that(2) inv(2) by auto
    then have "fresh_addr c a'" "addr_ref a' \<noteq> addr_ref a" using assms(2) that(1) Some by (auto simp: dial_ok_def)
    then show ?thesis by (simp add: fresh_addr_def)
  qed
  then have "dial_ok dial ?c" using assms(2) by (simp add: dial_ok_def)
  with Some add inv a(2) assms IsOpen_inv [OF assms(1), of ip] show ?thesis
    by (intro connected [of a ?c]) (simp_all add: connectToPeer_def)
qed

lemma launch_loop_spec:
  assumes "pool_inv c" and "dial_ok dial c" and "n < requested" and "\<forall>(ipb, port) \<in> set peers. port \<noteq> None"
  shows "\<exists>as c'. launch_loop dial now requested peers n c = (Inr as, c') \<and> pool_inv c'
    \<and> n + int (length as) \<le> requested
    \<and> map cn_ip (cs_peers c') = map cn_ip (cs_peers c) @ as
    \<and> (\<forall>a \<in> set as. addr_ip a \<in> (ip_String \<circ> fst) ` set peers \<and> addr_ip a \<notin> pool_ips c \<and> \<not> blacklisted now c (addr_ip a))"
  using assms
proof (induction peers arbitrary: n c)
  case Nil
  then show ?case by simp
next
  case (Cons peer peers)
  obtain ipb pt where peer: "peer = (ipb, Some pt)" using Cons.prems(4) by (cases peer) auto
  let ?ip = "ip_String ipb"
  have ports: "\<forall>(ipb, port) \<in> set peers. port \<noteq> None" using Cons.prems(4) by simp
  obtain b1 c1 where bl: "IsBlacklisted now c ?ip = (b1, c1)" by force
  have b1: "b1 = blacklisted now c ?ip" and c1: "cs_peers c1 = cs_peers c" "\<And>x. blacklisted now c1 x = blacklisted now c x"
    using IsBlacklisted_spec [of now c ?ip] bl by auto
  have inv1: "pool_inv c1" "pool_ips c1 = pool_ips c" "dial_ok dial c1"
    using pool_inv_peers [OF c1(1)] dial_ok_peers [OF c1(1)] Cons.prems(1,2) by auto
  note IH = Cons.IH [OF _ _ _ ports]
  consider (skip_open) "?ip \<in> pool_ips c" | (skip_bl) "?ip \<notin> pool_ips c" "b1" | (go) "?ip \<notin> pool_ips c" "\<not> b1" by blast
  then show ?case
  proof cases
    case skip_open
    then have "launch_loop dial now requested (peer # peers) n c = launch_loop dial now requested peers n c"
      using IsOpen_inv [OF Cons.prems(1)] by (simp add: peer Let_def)
    with IH [OF Cons.prems(1,2,3)] show ?thesis by auto
  next
    case skip_bl
    then have "launch_loop dial now requested (peer # peers) n c = launch_loop dial now requested peers n c1"
      using IsOpen_inv [OF Cons.prems(1)] bl by (simp add: peer Let_def)
    with IH [OF inv1(1,3) Cons.prems(3)] c1 inv1(2) show ?thesis by auto
  next
    case go
    have notopen: "?ip \<notin> pool_ips c1" using go(1) inv1(2) by simp
    from inv1(1,3) notopen show ?thesis
    proof (cases rule: connectToPeer_cases [of c1 dial ?ip pt now])
      case failed
      let ?c2 = "BlacklistIp now c1 ?ip"
      have eq: "launch_loop dial now requested (peer # peers) n c = launch_loop dial now requested peers n ?c2"
        using go IsOpen_inv [OF Cons.prems(1)] bl failed(2) Cons.prems(3) by (simp add: peer Let_def)
      have mono: "\<not> blacklisted now ?c2 x \<Longrightarrow> \<not> blacklisted now c x" for x
        using c1(2) go(2) b1 by (auto simp: blacklisted_BlacklistIp split: if_splits)
      have "dial_ok dial ?c2" using dial_ok_peers [of ?c2 c1] inv1(3) by simp
      with IH [of ?c2 n] inv1 Cons.prems(3) c1(1) eq mono show ?thesis by fastforce
    next
      case (connected a c2)
      have nb: "\<not> blacklisted now c ?ip" using go(2) b1 by simp
      show ?thesis
      proof (cases "n + 1 = requested")
        case True
        then have "launch_loop dial now requested (peer # peers) n c = (Inr [a], c2)"
          using go IsOpen_inv [OF Cons.prems(1)] bl connected(2) by (simp add: peer Let_def)
        with connected c1(1) True go(1) nb show ?thesis by (simp add: peer)
      next
        case False
        then have lt: "n + 1 < requested" using Cons.prems(3) by simp
        from IH [OF connected(3,4) lt] obtain as c3 where as: "launch_loop dial now requested peers (n + 1) c2 = (Inr as, c3)"
          "pool_inv c3" "n + 1 + int (length as) \<le> requested" "map cn_ip (cs_peers c3) = map cn_ip (cs_peers c2) @ as"
          "\<forall>a \<in> set as. addr_ip a \<in> (ip_String \<circ> fst) ` set peers \<and> addr_ip a \<notin> pool_ips c2 \<and> \<not> blacklisted now c2 (addr_ip a)"
          by auto
        have "blacklisted now c2 x = blacklisted now c x" for x
          using connected(5) c1(2) by (simp add: blacklisted_def)
        moreover have "launch_loop dial now requested (peer # peers) n c = (Inr (a # as), c3)"
          using go IsOpen_inv [OF Cons.prems(1)] bl connected(2) False lt as(1) by (simp add: peer Let_def)
        ultimately show ?thesis
          using as connected c1(1) go(1) nb inv1(2) by (auto simp: peer)
      qed
    qed
  qed
qed

end
