(* ===== verification/Connection_Properties.thy ===== *)
theory Connection_Properties
  imports Connections
begin

text \<open>
  The properties of the connection pool: which addresses it admits, what the two critical sections
  of \<open>Add\<close> allow when they interleave, how many connections a launch opens and to whom, and what is
  forgotten of the connections that ended.
\<close>

section \<open>Sequences of operations\<close>

datatype pool_op = OpAdd addr | OpRemove addr

fun pool_apply :: "pool_op \<Rightarrow> connections \<Rightarrow> connections" where
  "pool_apply (OpAdd a) c = snd (Add c a)"
| "pool_apply (OpRemove a) c = snd (Remove c a)"

fun added_refs :: "pool_op list \<Rightarrow> nat list" where
  "added_refs [] = []"
| "added_refs (OpAdd a # ops) = addr_ref a # added_refs ops"
| "added_refs (OpRemove a # ops) = added_refs ops"

definition pool_refs :: "connections \<Rightarrow> nat set" where
  "pool_refs c = (addr_ref \<circ> cn_ip) ` set (cs_peers c)"

lemma pool_ops_inv:
  assumes "pool_inv c" and "distinct (added_refs ops)" and "set (added_refs ops) \<inter> pool_refs c = {}"
  shows "pool_inv (fold pool_apply ops c)"
  using assms
proof (induction ops arbitrary: c)
  case Nil
  then show ?case by simp
next
  case (Cons x ops)
  show ?case
  proof (cases x)
    case (OpAdd a)
    obtain r c1 where add: "Add c a = (r, c1)" by force
    have "fresh_addr c a" using Cons.prems(3) OpAdd by (simp add: fresh_addr_def pool_refs_def)
    from Add_inv [OF Cons.prems(1) this add] have "pool_inv c1 \<and> pool_refs c1 \<subseteq> insert (addr_ref a) (pool_refs c)"
      by (cases r) (auto simp: pool_refs_def)
    with Cons OpAdd add show ?thesis by auto
  next
    case (OpRemove a)
    obtain e c1 where rm: "Remove c a = (e, c1)" by force
    from Remove_inv [OF Cons.prems(1) rm] have "pool_inv c1 \<and> pool_refs c1 \<subseteq> pool_refs c"
      by (auto simp: pool_refs_def)
    with Cons OpRemove rm show ?thesis by auto
  qed
qed

section \<open>Sample pools\<close>

definition pool_one :: connections where
  "pool_one = \<lparr>cs_peers = [\<lparr>cn_ip = TCPAddr 1 ''10.0.0.1'' 6881, cn_unchoke = []\<rparr>], cs_blacklist = (\<lambda>x. None)\<rparr>"

definition sample_dial :: dialer where
  "sample_dial ip pt = (if ip = ''10.0.0.2'' then Some (TCPAddr 2 ip 6881) else None)"

definition sample_info :: tracker_information where
  "sample_info = \<lparr>ti_Tracker = None, ti_Interval = 900,
     ti_IPs = [[10, 0, 0, 1], [10, 0, 0, 3], [10, 0, 0, 2]], ti_Ports = [1, 2, 3]\<rparr>"

lemma sample_dial_ok: "dial_ok sample_dial pool_one"
  by (auto simp: dial_ok_def sample_dial_def is_tcp_def addr_ip_def fresh_addr_def pool_one_def split: if_splits)

lemma pool_one_inv: "pool_inv pool_one"
  by (simp add: pool_inv_def pool_one_def is_tcp_def)

section \<open>Properties\<close>

text \<open>One connection per IP. As long as the two halves of \<open>Add\<close> are not separated, every sequence of
  additions of new address objects and removals, from a pool in good order, leaves a pool in which
  all addresses are TCP addresses and no IP occurs twice; an IP is open exactly when it is there.\<close>

lemma pool_holds_each_ip_once:
  assumes "pool_inv c" and "distinct (added_refs ops)" and "set (added_refs ops) \<inter> pool_refs c = {}"
  shows "let c' = fold pool_apply ops c in
    distinct (map (addr_ip \<circ> cn_ip) (cs_peers c'))
    \<and> (\<forall>ip. IsOpen c' ip = Inr (\<exists>p \<in> set (cs_peers c'). addr_ip (cn_ip p) = ip))"
  using pool_ops_inv [OF assms] pool.is_open by (auto simp: Let_def pool_inv_def image_iff)

text \<open>C28: The race in \<open>Add\<close>. Two additions of addresses with the same new IP that both check before either
  inserts both pass the check, and the pool ends up with the IP twice; run one after the other,
  the second is refused.\<close>

theorem interleaved_adds_duplicate:
  assumes "pool_inv c" and "is_tcp a" and "is_tcp b" and "addr_ip a = addr_ip b" and "addr_ip a \<notin> pool_ips c"
    and "addr_ref a \<noteq> addr_ref b" and "fresh_addr c a" and "fresh_addr c b"
  shows "Add_check c a = Inr () \<and> Add_check c b = Inr ()
    \<and> \<not> distinct (map (addr_ip \<circ> cn_ip) (cs_peers (snd (Add_commit (snd (Add_commit c a)) b))))
    \<and> (\<exists>e. Add (snd (Add c a)) b = (Inl e, snd (Add c a)))"
proof -
  have new: "Add c a = (Inr \<lparr>cn_ip = a, cn_unchoke = []\<rparr>, c\<lparr>cs_peers := cs_peers c @ [\<lparr>cn_ip = a, cn_unchoke = []\<rparr>]\<rparr>)"
    using Add_new [OF assms(1,2,5)] .
  have "\<exists>e. Add (snd (Add c a)) b = (Inl e, snd (Add c a))"
    using pool.add_twice_refused [OF assms(1) new assms(3)] assms(4,6-8) new
    by (simp add: fresh_addr_def image_comp)
  with assms show ?thesis by (simp add: Add_check_inv Add_commit_def Let_def)
qed

theorem interleaved_adds_duplicate_witness:
  "Add_check pool_one (TCPAddr 2 ''10.0.0.2'' 1) = Inr () \<and> Add_check pool_one (TCPAddr 3 ''10.0.0.2'' 2) = Inr ()
    \<and> \<not> distinct (map (addr_ip \<circ> cn_ip) (cs_peers (snd (Add_commit (snd (Add_commit pool_one (TCPAddr 2 ''10.0.0.2'' 1))) (TCPAddr 3 ''10.0.0.2'' 2)))))
    \<and> (\<exists>e. Add (snd (Add pool_one (TCPAddr 2 ''10.0.0.2'' 1))) (TCPAddr 3 ''10.0.0.2'' 2)
         = (Inl e, snd (Add pool_one (TCPAddr 2 ''10.0.0.2'' 1))))"
  by (rule interleaved_adds_duplicate [OF pool_one_inv])
     (simp_all add: is_tcp_def addr_ip_def pool_ips_def fresh_addr_def pool_one_def)

text \<open>C29: Launching connections. Asked for a positive number of connections, with a port for every IP,
  \<open>launchClients\<close> never panics and opens at most as many as asked for; each goes to an IP the
  tracker named that was neither open nor blacklisted, and the pool still has each IP once.\<close>

theorem launch_respects_limits:
  assumes "pool_inv c" and "dial_ok dial c" and "0 < requested"
    and "length (ti_IPs info) \<le> length (ti_Ports info)"
  shows "\<exists>as c'. launchClients dial now requested info c = (Inr as, c')
    \<and> int (length as) \<le> requested \<and> pool_inv c'
    \<and> map cn_ip (cs_peers c') = map cn_ip (cs_peers c) @ as
    \<and> (\<forall>a \<in> set as. addr_ip a \<in> ip_String ` set (ti_IPs info) \<and> addr_ip a \<notin> pool_ips c
        \<and> \<not> fst (IsBlacklisted now c (addr_ip a)))"
proof -
  let ?peers = "map (\<lambda>i. (ti_IPs info ! i, if i < length (ti_Ports info) then Some (ti_Ports info ! i) else None))
    [0..<length (ti_IPs info)]"
  have ports: "\<forall>(ipb, port) \<in> set ?peers. port \<noteq> None" using assms(4) by auto
  have "(ip_String \<circ> fst) ` set ?peers \<subseteq> ip_String ` set (ti_IPs info)" by auto
  with launch_loop_spec [OF assms(1-3) ports, of now] show ?thesis
    unfolding launchClients_def IsBlacklisted_spec by fastforce
qed

theorem launch_respects_limits_witness:
  "\<exists>as c'. launchClients sample_dial 0 5 sample_info pool_one = (Inr as, c')
    \<and> int (length as) \<le> 5 \<and> pool_inv c'
    \<and> map cn_ip (cs_peers c') = map cn_ip (cs_peers pool_one) @ as
    \<and> (\<forall>a \<in> set as. addr_ip a \<in> ip_String ` set (ti_IPs sample_info) \<and> addr_ip a \<notin> pool_ips pool_one
        \<and> \<not> fst (IsBlacklisted 0 pool_one (addr_ip a)))"
  by (rule launch_respects_limits [OF pool_one_inv sample_dial_ok]) (simp_all add: sample_info_def)

text \<open>Ended connections: \<open>updateOnlineConnections\<close> empties the channel of ended connections, forgets
  generosity and interest of exactly the peers that ended, blacklists their IPs from now on and
  removes exactly their address objects from the pool, whose IPs stay distinct.\<close>

lemma ended_connections_forgotten:
  assumes "pool_inv c"
  shows "case updateOnlineConnections now c cm gen intr of (c', cm', gen', intr') \<Rightarrow>
    cm_ConnectionEnded cm' = [] \<and> pool_inv c'
    \<and> gen' = (\<lambda>x. if x \<in> fst ` set (cm_ConnectionEnded cm) then None else gen x)
    \<and> intr' = (\<lambda>x. if x \<in> fst ` set (cm_ConnectionEnded cm) then None else intr x)
    \<and> set (cs_peers c') = {p \<in> set (cs_peers c). addr_ref (cn_ip p) \<notin> addr_ref ` snd ` set (cm_ConnectionEnded cm)}
    \<and> (\<forall>(ident, a) \<in> set (cm_ConnectionEnded cm). is_tcp a \<longrightarrow> fst (IsBlacklisted now c' (addr_ip a)))"
proof -
  obtain c1 gen1 intr1 where f: "forget_ended now (cm_ConnectionEnded cm) c gen intr = (c1, gen1, intr1)"
    by (metis prod_cases3)
  note fs = forget_ended_spec [OF f]
  have "pool_inv c1" using pool_inv_peers [of c1 c] fs assms by simp
  note rs = remove_ended_spec [OF this, of "map snd (cm_ConnectionEnded cm)"]
  have "fst (IsBlacklisted now (remove_ended (map snd (cm_ConnectionEnded cm)) c1) (addr_ip a))"
    if "(ident, a) \<in> set (cm_ConnectionEnded cm)" "is_tcp a" for ident a
  proof -
    have "cs_blacklist c1 (addr_ip a) = Some now" using fs that by force
    then show ?thesis using rs by (simp add: IsBlacklisted_spec blacklisted_def connectionBlacklistDuration_def)
  qed
  then show ?thesis
    using fs rs by (auto simp: updateOnlineConnections_def f)
qed

end
