(* ===== verification/Choke.thy ===== *)
theory Choke
  imports Go_IO
begin

text \<open>
  \<open>chokeAlgorithm\<close> of \<open>client/client.go\<close>: which peers to unchoke. The two maps are
  functions; the orders in which Go happens to iterate over them are arguments, and so are
  \<open>sort.Slice\<close> (the locale \<open>slice_sort\<close> is its documented contract, interpreted on the
  insertion sort it uses for up to twelve elements) and \<open>rand.Intn\<close>.
\<close>

section \<open>Sorting\<close>

definition strict_weak :: "('a \<Rightarrow> 'a \<Rightarrow> bool) \<Rightarrow> bool" where
  "strict_weak lt \<longleftrightarrow> (\<forall>x. \<not> lt x x) \<and> (\<forall>x y z. lt x y \<and> lt y z \<longrightarrow> lt x z)
     \<and> (\<forall>x y z. \<not> lt x y \<and> \<not> lt y z \<longrightarrow> \<not> lt x z)"

locale slice_sort =
  fixes srt :: "('a \<Rightarrow> 'a \<Rightarrow> bool) \<Rightarrow> 'a list \<Rightarrow> 'a list"
  assumes mset_srt: "mset (srt lt xs) = mset xs"
    and sorted_srt: "strict_weak lt \<Longrightarrow> sorted_wrt (\<lambda>x y. \<not> lt y x) (srt lt xs)"
begin

lemma length_srt: "length (srt lt xs) = length xs"
  using mset_srt by (metis size_mset)

lemma set_srt: "set (srt lt xs) = set xs"
  using mset_srt by (metis set_mset_mset)

lemma distinct_srt: "distinct (map f (srt lt xs)) = distinct (map f xs)"
  using mset_srt by (metis mset_map mset_eq_imp_distinct_iff)

lemma srt_le:
  "strict_weak lt \<Longrightarrow> i < j \<Longrightarrow> j < length xs \<Longrightarrow> \<not> lt (srt lt xs ! j) (srt lt xs ! i)"
  using sorted_srt [of lt xs] by (simp add: sorted_wrt_iff_nth_less length_srt)

end

text \<open>
  \<open>insertionSort\<close>: each element in turn moves down past the ones it is less than.
\<close>

definition sink :: "('a \<Rightarrow> 'a \<Rightarrow> bool) \<Rightarrow> 'a \<Rightarrow> 'a list \<Rightarrow> 'a list" where
  "sink lt x ys = rev (takeWhile (lt x) (rev ys) @ x # dropWhile (lt x) (rev ys))"

definition insertion_sort :: "('a \<Rightarrow> 'a \<Rightarrow> bool) \<Rightarrow> 'a list \<Rightarrow> 'a list" where
  "insertion_sort lt xs = fold (sink lt) xs []"

lemma mset_sink: "mset (sink lt x ys) = add_mset x (mset ys)"
proof -
  have "mset (takeWhile (lt x) (rev ys)) + mset (dropWhile (lt x) (rev ys)) = mset ys"
    by (metis mset_append mset_rev takeWhile_dropWhile_id)
  then show ?thesis by (simp add: sink_def add.commute)
qed

lemma mset_sinks: "mset (fold (sink lt) xs ys) = mset xs + mset ys"
  by (induction xs arbitrary: ys) (simp_all add: mset_sink)

lemma strict_weak_trans: "strict_weak lt \<Longrightarrow> \<not> lt x y \<Longrightarrow> \<not> lt y z \<Longrightarrow> \<not> lt x z"
  unfolding strict_weak_def by blast

lemma strict_weak_asym: "strict_weak lt \<Longrightarrow> lt x y \<Longrightarrow> \<not> lt y x"
  unfolding strict_weak_def by blast

lemma not_less_after:
  assumes "strict_weak lt" and "sorted_wrt (\<lambda>x y. \<not> lt x y) b" and "y \<in> set b" and "\<not> lt x (hd b)"
  shows "\<not> lt x y"
proof (cases b)
  case (Cons z zs)
  then have "y = z \<or> \<not> lt z y" using assms(2,3) by auto
  moreover have "\<not> lt x z" using Cons assms(4) by simp
  ultimately show ?thesis using strict_weak_trans [OF assms(1)] by metis
qed (use assms(3) in simp)

lemma sorted_insert_between:
  assumes lt: "strict_weak lt" and ab: "sorted_wrt (\<lambda>x y. \<not> lt x y) (a @ b)"
    and a: "\<forall>y \<in> set a. lt x y" and b: "b \<noteq> [] \<longrightarrow> \<not> lt x (hd b)"
  shows "sorted_wrt (\<lambda>x y. \<not> lt x y) (a @ x # b)"
proof -
  have "\<not> lt x y" if "y \<in> set b" for y
    using not_less_after [OF lt _ that] ab b that by (auto simp: sorted_wrt_append)
  moreover have "\<not> lt y x" if "y \<in> set a" for y
    using a that strict_weak_asym [OF lt] by metis
  ultimately show ?thesis using ab by (auto simp: sorted_wrt_append)
qed

lemma sorted_sink:
  assumes "strict_weak lt" and "sorted_wrt (\<lambda>x y. \<not> lt y x) ys"
  shows "sorted_wrt (\<lambda>x y. \<not> lt y x) (sink lt x ys)"
proof -
  have "sorted_wrt (\<lambda>x y. \<not> lt x y) (takeWhile (lt x) (rev ys) @ dropWhile (lt x) (rev ys))"
    using assms(2) by (simp add: sorted_wrt_rev)
  moreover have "\<forall>y \<in> set (takeWhile (lt x) (rev ys)). lt x y" by (auto dest: set_takeWhileD)
  moreover have "dropWhile (lt x) (rev ys) \<noteq> [] \<longrightarrow> \<not> lt x (hd (dropWhile (lt x) (rev ys)))"
    by (simp add: hd_dropWhile)
  ultimately have "sorted_wrt (\<lambda>x y. \<not> lt x y) (takeWhile (lt x) (rev ys) @ x # dropWhile (lt x) (rev ys))"
    by (rule sorted_insert_between [OF assms(1)])
  then show ?thesis unfolding sink_def by (subst sorted_wrt_rev)
qed

lemma sorted_sinks:
  "strict_weak lt \<Longrightarrow> sorted_wrt (\<lambda>x y. \<not> lt y x) ys \<Longrightarrow> sorted_wrt (\<lambda>x y. \<not> lt y x) (fold (sink lt) xs ys)"
  by (induction xs arbitrary: ys) (simp_all add: sorted_sink)

interpretation ins: slice_sort insertion_sort
  by unfold_locales (simp_all add: insertion_sort_def mset_sinks sorted_sinks)

section \<open>The algorithm\<close>

definition interested_ids :: "(string \<Rightarrow> bool option) \<Rightarrow> string list \<Rightarrow> string list" where
  "interested_ids intr iorder = filter (\<lambda>i. intr i = Some True) iorder"

definition generous :: "(string \<Rightarrow> int option) \<Rightarrow> (string \<Rightarrow> bool option) \<Rightarrow> string list \<Rightarrow> (string \<times> int) list" where
  "generous gen intr gorder =
     map (\<lambda>i. (i, the (gen i))) (filter (\<lambda>i. intr i = Some True) gorder)"

definition more_generous :: "string \<times> int \<Rightarrow> string \<times> int \<Rightarrow> bool" where
  "more_generous a b \<longleftrightarrow> snd a > snd b"

definition chokeAlgorithm ::
    "((string \<times> int \<Rightarrow> string \<times> int \<Rightarrow> bool) \<Rightarrow> (string \<times> int) list \<Rightarrow> (string \<times> int) list) \<Rightarrow> (nat \<Rightarrow> nat)
      \<Rightarrow> string list \<Rightarrow> string list \<Rightarrow> (string \<Rightarrow> int option) \<Rightarrow> (string \<Rightarrow> bool option) \<Rightarrow> string list result" where
  "chokeAlgorithm srt randIntn iorder gorder gen intr =
     (let interestedPeers = interested_ids intr iorder
      in if length interestedPeers < 5 then Inr interestedPeers
         else
           let sortedGenerosity = srt more_generous (generous gen intr gorder);
               picked = fold (\<lambda>i ps. ps[i := fst (sortedGenerosity ! i)])
                 [0..<min 4 (length sortedGenerosity)] (replicate 5 '''')
           in if length sortedGenerosity < 5 then Inr picked
              else
                let fifthRandom = randIntn (length sortedGenerosity - 4)
                in bind_result (go_index sortedGenerosity (int (4 + fifthRandom))) (\<lambda>fifth.
                  let picked5 = picked[4 := fst fifth]
                  in if length picked5 \<noteq> 5 then Inl (Panic (Explicit ''incorrect number peers picked''))
                     else Inr picked5))"

section \<open>Lemmas\<close>

lemma strict_weak_more_generous: "strict_weak more_generous"
  by (auto simp: strict_weak_def more_generous_def)

lemma fold_fill:
  assumes "n \<le> length xs"
  shows "fold (\<lambda>i ps. ps[i := f i]) [0..<n] xs = map f [0..<n] @ drop n xs"
  using assms
proof (induction n)
  case (Suc n)
  then have "drop n xs = xs ! n # drop (Suc n) xs" by (simp add: Cons_nth_drop_Suc)
  with Suc show ?case by (simp add: list_update_append)
qed simp

lemma generous_ids:
  "map fst (generous gen intr gorder) = filter (\<lambda>i. intr i = Some True) gorder"
  by (simp add: generous_def comp_def)

lemma in_generous: "(i, d) \<in> set (generous gen intr gorder) \<longleftrightarrow> i \<in> set gorder \<and> intr i = Some True \<and> d = the (gen i)"
  by (auto simp: generous_def)

text \<open>The three outcomes.\<close>

lemma choke_few:
  "length (interested_ids intr iorder) < 5 \<Longrightarrow>
    chokeAlgorithm srt randIntn iorder gorder gen intr = Inr (interested_ids intr iorder)"
  by (simp add: chokeAlgorithm_def Let_def)

lemma choke_short:
  assumes "5 \<le> length (interested_ids intr iorder)" and "slice_sort srt"
    and "length (generous gen intr gorder) < 5"
  shows "chokeAlgorithm srt randIntn iorder gorder gen intr = Inr (let g = srt more_generous (generous gen intr gorder);
      n = min 4 (length g) in map (\<lambda>i. fst (g ! i)) [0..<n] @ replicate (5 - n) '''')"
  using assms slice_sort.length_srt [OF assms(2), of more_generous "generous gen intr gorder"]
  by (simp add: chokeAlgorithm_def Let_def fold_fill)

lemma choke_full:
  assumes "5 \<le> length (interested_ids intr iorder)" and "slice_sort srt"
    and "5 \<le> length (generous gen intr gorder)" and "\<And>n. 0 < n \<Longrightarrow> randIntn n < n"
  obtains k where "4 \<le> k" and "k < length (generous gen intr gorder)"
    and "chokeAlgorithm srt randIntn iorder gorder gen intr
      = Inr (map (\<lambda>i. fst (srt more_generous (generous gen intr gorder) ! i)) [0, 1, 2, 3, k])"
proof -
  let ?g = "srt more_generous (generous gen intr gorder)"
  let ?k = "4 + randIntn (length ?g - 4)"
  have len: "length ?g = length (generous gen intr gorder)" by (rule slice_sort.length_srt [OF assms(2)])
  then have k: "?k < length ?g" using assms(3) assms(4) [of "length ?g - 4"] by simp
  have "[0..<4] = [0, 1, 2, 3 :: nat]" by (simp add: upt_rec)
  then have "chokeAlgorithm srt randIntn iorder gorder gen intr = Inr (map (\<lambda>i. fst (?g ! i)) [0, 1, 2, 3, ?k])"
    using assms(1,3) len k by (simp add: chokeAlgorithm_def Let_def fold_fill min_def go_index_def nat_add_distrib)
  with k len that [of ?k] show ?thesis by simp
qed

end
