(* ===== verification/Choke_Properties.thy ===== *)
theory Choke_Properties
  imports Choke
begin

text \<open>
  What \<open>chokeAlgorithm\<close> returns: at most five interested peers, all of them when there are fewer
  than five, the most generous first when there are enough of them - and nobody new when there
  are not.
\<close>

section \<open>The two maps and their iteration orders\<close>

text \<open>A \<open>for range\<close> over a map visits each key once, in some order.\<close>

definition range_order :: "('k \<Rightarrow> 'v option) \<Rightarrow> 'k list \<Rightarrow> bool" where
  "range_order m ks \<longleftrightarrow> distinct ks \<and> set ks = dom m"

definition interested :: "(string \<Rightarrow> bool option) \<Rightarrow> string set" where
  "interested intr = {i. intr i = Some True}"

definition rand_in_range :: "(nat \<Rightarrow> nat) \<Rightarrow> bool" where
  "rand_in_range r \<longleftrightarrow> (\<forall>n > 0. r n < n)"

lemma interested_ids_spec:
  assumes "range_order intr iorder"
  shows "set (interested_ids intr iorder) = interested intr"
    and "length (interested_ids intr iorder) = card (interested intr)"
proof -
  have "distinct (interested_ids intr iorder)"
    using assms by (simp add: interested_ids_def range_order_def)
  moreover show set: "set (interested_ids intr iorder) = interested intr"
    using assms by (auto simp: interested_ids_def range_order_def interested_def)
  ultimately show "length (interested_ids intr iorder) = card (interested intr)"
    by (metis distinct_card)
qed

lemma generous_spec:
  assumes "range_order gen gorder"
  shows "distinct (map fst (generous gen intr gorder))"
    and "fst ` set (generous gen intr gorder) = interested intr \<inter> dom gen"
    and "length (generous gen intr gorder) = card (interested intr \<inter> dom gen)"
proof -
  show d: "distinct (map fst (generous gen intr gorder))"
    using assms by (simp add: generous_ids range_order_def)
  show s: "fst ` set (generous gen intr gorder) = interested intr \<inter> dom gen"
    using assms by (force simp: generous_def range_order_def interested_def)
  show "length (generous gen intr gorder) = card (interested intr \<inter> dom gen)"
    using distinct_card [OF d] by (simp add: s)
qed

lemma finite_interested: "range_order intr iorder \<Longrightarrow> finite (interested intr)"
  using interested_ids_spec(1) by (metis finite_set)

lemma few_generous:
  "range_order intr iorder \<Longrightarrow> card (interested intr \<inter> dom gen) \<le> card (interested intr)"
  by (intro card_mono finite_interested) auto

text \<open>The ids in the order of generosity.\<close>

locale ranked = slice_sort srt
  for srt :: "(string \<times> int \<Rightarrow> string \<times> int \<Rightarrow> bool) \<Rightarrow> (string \<times> int) list \<Rightarrow> (string \<times> int) list"
begin

abbreviation rank :: "(string \<times> int) list \<Rightarrow> (string \<times> int) list" where
  "rank g \<equiv> srt more_generous g"

lemma rank_id:
  "i < length g \<Longrightarrow> fst (rank g ! i) \<in> fst ` set g"
  using set_srt [of more_generous g] by (metis imageI length_srt nth_mem)

lemma rank_distinct:
  "distinct (map fst g) \<Longrightarrow> i < length g \<Longrightarrow> j < length g \<Longrightarrow> fst (rank g ! i) = fst (rank g ! j) \<longleftrightarrow> i = j"
  using distinct_srt [of fst more_generous g] nth_eq_iff_index_eq [of "map fst (rank g)" i j]
  by (simp add: length_srt)

lemma rank_le:
  "i < j \<Longrightarrow> j < length g \<Longrightarrow> snd (rank g ! j) \<le> snd (rank g ! i)"
  using srt_le [OF strict_weak_more_generous, of i j g] by (simp add: more_generous_def)

lemma rank_onto:
  assumes "p \<in> set g"
  obtains j where "j < length g" and "rank g ! j = p"
  using assms set_srt [of more_generous g] by (metis in_set_conv_nth length_srt)

text \<open>The picked peers when five can be ranked.\<close>

lemma choke_ranked:
  assumes intr: "range_order intr iorder" and gen: "range_order gen gorder"
    and five: "5 \<le> card (interested intr \<inter> dom gen)" and rand: "rand_in_range randIntn"
  obtains g k where "g = generous gen intr gorder" and "4 \<le> k" and "k < length g"
    and "chokeAlgorithm srt randIntn iorder gorder gen intr = Inr (map (\<lambda>i. fst (rank g ! i)) [0, 1, 2, 3, k])"
proof -
  have "5 \<le> length (interested_ids intr iorder)"
    using five few_generous [OF intr, of gen] interested_ids_spec(2) [OF intr] by simp
  moreover have "5 \<le> length (generous gen intr gorder)" using five generous_spec(3) [OF gen, of intr] by simp
  moreover have "\<And>n. 0 < n \<Longrightarrow> randIntn n < n" using rand by (simp add: rand_in_range_def)
  ultimately show ?thesis
    using choke_full [of intr iorder srt gen gorder randIntn, OF _ slice_sort_axioms] that by metis
qed

lemma choke_distinct:
  assumes "distinct (map fst g)" and "4 \<le> k" and "k < length g"
  shows "distinct (map (\<lambda>i. fst (rank g ! i)) [0, 1, 2, 3, k])"
proof -
  have "g \<noteq> []" using assms(3) by auto
  with assms(2,3) show ?thesis by (simp add: rank_distinct [OF assms(1)])
qed

lemma choke_best:
  assumes q: "(q, d) \<in> set g" and k: "4 \<le> k" "k < length g" and i: "i < 4"
    and out: "q \<notin> set (map (\<lambda>i. fst (rank g ! i)) [0, 1, 2, 3])"
  shows "d \<le> snd (rank g ! i)"
proof -
  obtain j where j: "j < length g" "rank g ! j = (q, d)" using rank_onto [OF q] .
  have "j \<noteq> 0" "j \<noteq> 1" "j \<noteq> 2" "j \<noteq> 3" using out j(2) by (auto intro: gr0I)
  then have "i < j" using i by simp
  with rank_le [OF this j(1)] j(2) show ?thesis by simp
qed

lemma choke_five:
  assumes intr: "range_order intr iorder" and gen: "range_order gen gorder"
    and five: "5 \<le> card (interested intr \<inter> dom gen)" and rand: "rand_in_range randIntn"
  shows "\<exists>ps. chokeAlgorithm srt randIntn iorder gorder gen intr = Inr ps \<and> length ps = 5 \<and> set ps \<subseteq> interested intr"
proof -
  obtain g k where g: "g = generous gen intr gorder" and k: "4 \<le> k" "k < length g"
    and run: "chokeAlgorithm srt randIntn iorder gorder gen intr = Inr (map (\<lambda>i. fst (rank g ! i)) [0, 1, 2, 3, k])"
    using choke_ranked [OF assms] .
  have "fst (rank g ! i) \<in> interested intr" if "i \<in> {0, 1, 2, 3, k}" for i
  proof -
    have "i < length g" using that k by auto
    from rank_id [OF this] generous_spec(2) [OF gen, of intr] show ?thesis by (simp add: g)
  qed
  then have "set (map (\<lambda>i. fst (rank g ! i)) [0, 1, 2, 3, k]) \<subseteq> interested intr"
    by (simp only: set_map) (auto simp only: list.set)
  with run show ?thesis by (intro exI [of _ "map (\<lambda>i. fst (rank g ! i)) [0, 1, 2, 3, k]"]) simp
qed

lemma choke_picks:
  assumes intr: "range_order intr iorder" and gen: "range_order gen gorder"
    and five: "5 \<le> card (interested intr \<inter> dom gen)" and rand: "rand_in_range randIntn"
  shows "\<exists>a b c d e. chokeAlgorithm srt randIntn iorder gorder gen intr = Inr [a, b, c, d, e]
    \<and> distinct [a, b, c, d, e] \<and> {a, b, c, d, e} \<subseteq> interested intr \<inter> dom gen
    \<and> (\<forall>p \<in> {a, b, c, d}. \<forall>q \<in> interested intr \<inter> dom gen - {a, b, c, d}. the (gen q) \<le> the (gen p))"
proof -
  obtain g k where g: "g = generous gen intr gorder" and k: "4 \<le> k" "k < length g"
    and run: "chokeAlgorithm srt randIntn iorder gorder gen intr = Inr (map (\<lambda>i. fst (rank g ! i)) [0, 1, 2, 3, k])"
    using choke_ranked [OF assms] .
  let ?r = "\<lambda>i. fst (rank g ! i)"
  note d = choke_distinct [OF generous_spec(1) [OF gen, of intr, folded g] k]
  have ids: "?r i \<in> interested intr \<inter> dom gen" if "i < length g" for i
    using rank_id [OF that] generous_spec(2) [OF gen, of intr] by (simp add: g)
  have snd: "snd (rank g ! i) = the (gen (?r i))" if "i < length g" for i
    using that set_srt [of more_generous g] in_generous [of "?r i" "snd (rank g ! i)" gen intr gorder]
    by (metis g length_srt nth_mem prod.collapse)
  have best: "the (gen q) \<le> the (gen (?r i))"
    if "i < 4" and "q \<in> interested intr \<inter> dom gen - {?r 0, ?r 1, ?r 2, ?r 3}" for i q
  proof -
    have "(q, the (gen q)) \<in> set g"
      using that(2) gen by (auto simp: g in_generous range_order_def interested_def)
    with choke_best [OF this k that(1)] that(2) snd [of i] that(1) k show ?thesis by auto
  qed
  have "{?r 0, ?r 1, ?r 2, ?r 3, ?r k} \<subseteq> interested intr \<inter> dom gen"
    by (simp only: insert_subset empty_subsetI, intro conjI TrueI ids) (use k in linarith)+
  moreover have "\<forall>p \<in> {?r 0, ?r 1, ?r 2, ?r 3}. \<forall>q \<in> interested intr \<inter> dom gen - {?r 0, ?r 1, ?r 2, ?r 3}. the (gen q) \<le> the (gen p)"
    using best [of 0] best [of 1] best [of 2] best [of 3] by simp
  ultimately show ?thesis using run d by (intro exI [of _ "?r 0"] exI [of _ "?r 1"] exI [of _ "?r 2"] exI [of _ "?r 3"] exI [of _ "?r k"]) simp
qed

end

interpretation ins_rank: ranked insertion_sort
  ..

text \<open>The list when fewer than five can be ranked.\<close>

lemma choke_padded:
  assumes srt: "slice_sort srt" and intr: "range_order intr iorder" and gen: "range_order gen gorder"
    and "5 \<le> card (interested intr)" and few: "card (interested intr \<inter> dom gen) < 5"
  shows "\<exists>ps. chokeAlgorithm srt randIntn iorder gorder gen intr = Inr ps \<and> length ps = 5
    \<and> set ps \<subseteq> insert '''' (interested intr \<inter> dom gen)
    \<and> (dom gen = {} \<longrightarrow> set ps = {''''})"
proof -
  let ?g = "generous gen intr gorder"
  let ?n = "min 4 (length (srt more_generous ?g))"
  let ?ps = "map (\<lambda>i. fst (srt more_generous ?g ! i)) [0..<?n] @ replicate (5 - ?n) ''''"
  note g = generous_spec [OF gen, of intr]
  have len: "length (srt more_generous ?g) = length ?g" by (rule slice_sort.length_srt [OF srt])
  have run: "chokeAlgorithm srt randIntn iorder gorder gen intr = Inr ?ps"
    using choke_short [of intr iorder srt gen gorder randIntn, OF _ srt] assms(4) few g(3)
      interested_ids_spec(2) [OF intr] by (simp add: Let_def)
  define S where "S = interested intr \<inter> dom gen"
  have "fst (srt more_generous ?g ! i) \<in> S" if "i < length ?g" for i
    using ranked.rank_id [OF ranked.intro [OF srt] that] g(2) by (simp add: S_def)
  then have "set ?ps \<subseteq> insert '''' (interested intr \<inter> dom gen)"
    using len unfolding S_def [symmetric] by auto
  moreover have "set ?ps = {''''}" if "dom gen = {}"
    using g(3) len that by simp
  ultimately show ?thesis using run by (intro exI [of _ ?ps]) auto
qed

section \<open>Properties\<close>

text \<open>C30: When at least five interested peers have delivered pieces, \<open>chokeAlgorithm\<close> unchokes five
  distinct ones of them, and each of the first four has delivered at least as much as every
  interested peer that is not among these four; the fifth is any other one.\<close>

theorem unchokes_the_most_generous:
  assumes "slice_sort srt" and "rand_in_range randIntn"
    and "range_order intr iorder" and "range_order gen gorder"
    and "5 \<le> card (interested intr \<inter> dom gen)"
  shows "\<exists>a b c d e. chokeAlgorithm srt randIntn iorder gorder gen intr = Inr [a, b, c, d, e]
    \<and> distinct [a, b, c, d, e] \<and> {a, b, c, d, e} \<subseteq> interested intr \<inter> dom gen
    \<and> (\<forall>p \<in> {a, b, c, d}. \<forall>q \<in> interested intr \<inter> dom gen - {a, b, c, d}. the (gen q) \<le> the (gen p))"
  by (rule ranked.choke_picks [OF ranked.intro [OF assms(1)] assms(3,4,5,2)])

definition sample_ids :: "string list" where
  "sample_ids = [''a'', ''b'', ''c'', ''d'', ''e'', ''f'']"

definition sample_intr :: "string \<Rightarrow> bool option" where
  "sample_intr = map_of (map (\<lambda>i. (i, True)) sample_ids)"

definition sample_gen :: "string \<Rightarrow> int option" where
  "sample_gen = map_of (zip sample_ids [3, 1, 4, 1, 5, 9])"

lemma sample_orders: "range_order sample_intr sample_ids" "range_order sample_gen sample_ids"
  by (simp_all add: range_order_def sample_intr_def sample_gen_def sample_ids_def insert_commute)

lemma sample_interested: "interested sample_intr = set sample_ids"
  by (auto simp: interested_def sample_intr_def sample_ids_def split: if_splits)

lemma sample_cards: "card (set sample_ids) = 6" "dom sample_gen = set sample_ids"
proof -
  show "card (set sample_ids) = 6" by (simp add: sample_ids_def)
  show "dom sample_gen = set sample_ids" using sample_orders(2) by (simp only: range_order_def)
qed

lemma rand_zero: "rand_in_range (\<lambda>n. 0)"
  by (simp add: rand_in_range_def)

theorem unchokes_the_most_generous_witness:
  "(\<exists>ps. chokeAlgorithm insertion_sort (\<lambda>n. 0) sample_ids sample_ids sample_gen sample_intr = Inr ps
      \<and> length ps = 5 \<and> distinct ps)
   \<and> chokeAlgorithm insertion_sort (\<lambda>n. 0) sample_ids sample_ids sample_gen sample_intr
     = Inr [''f'', ''e'', ''c'', ''a'', ''b'']"
proof
  have "5 \<le> card (interested sample_intr \<inter> dom sample_gen)" by (simp add: sample_interested sample_cards)
  from unchokes_the_most_generous [OF ins.slice_sort_axioms rand_zero sample_orders this]
  obtain a b c d e
    where "chokeAlgorithm insertion_sort (\<lambda>n. 0) sample_ids sample_ids sample_gen sample_intr = Inr [a, b, c, d, e]"
      and "distinct [a, b, c, d, e]" by (elim exE conjE)
  then show "\<exists>ps. chokeAlgorithm insertion_sort (\<lambda>n. 0) sample_ids sample_ids sample_gen sample_intr = Inr ps
      \<and> length ps = 5 \<and> distinct ps"
    by (intro exI [of _ "[a, b, c, d, e]"]) simp
  show "chokeAlgorithm insertion_sort (\<lambda>n. 0) sample_ids sample_ids sample_gen sample_intr
     = Inr [''f'', ''e'', ''c'', ''a'', ''b'']"
    by code_simp
qed

text \<open>\<open>chokeAlgorithm\<close> never fails. It names at most five peers; every name is that of an
  interested peer, or the empty string that pads the list; and with fewer than five interested
  peers it names exactly these.\<close>

lemma unchokes_at_most_five:
  assumes "slice_sort srt" and "rand_in_range randIntn"
    and "range_order intr iorder" and "range_order gen gorder"
  shows "\<exists>ps. chokeAlgorithm srt randIntn iorder gorder gen intr = Inr ps \<and> length ps \<le> 5
    \<and> set ps \<subseteq> insert '''' (interested intr)
    \<and> (card (interested intr) < 5 \<longrightarrow> set ps = interested intr \<and> distinct ps)"
proof -
  note i = interested_ids_spec [OF assms(3)]
  consider "card (interested intr) < 5" | "5 \<le> card (interested intr)" "card (interested intr \<inter> dom gen) < 5"
    | "5 \<le> card (interested intr)" "5 \<le> card (interested intr \<inter> dom gen)" by linarith
  then show ?thesis
  proof cases
    case 1
    with i card_distinct [of "interested_ids intr iorder"] show ?thesis by (auto simp: choke_few)
  next
    case 2
    from choke_padded [OF assms(1,3,4) this, of randIntn] obtain ps
      where "chokeAlgorithm srt randIntn iorder gorder gen intr = Inr ps" "length ps = 5"
        "set ps \<subseteq> insert '''' (interested intr \<inter> dom gen)" by (elim exE conjE)
    moreover have "set ps \<subseteq> insert '''' (interested intr)" using calculation(3) by blast
    ultimately show ?thesis using 2(1) by (intro exI [of _ ps]) simp
  next
    case 3
    from ranked.choke_five [OF ranked.intro [OF assms(1)] assms(3,4) this(2) assms(2)] obtain ps
      where "chokeAlgorithm srt randIntn iorder gorder gen intr = Inr ps" "length ps = 5"
        "set ps \<subseteq> interested intr" by (elim exE conjE)
    then show ?thesis using 3(1) by (intro exI [of _ ps]) (simp add: subset_insertI2)
  qed
qed



text \<open>C31: When five or more peers are interested but fewer than five of them have delivered a piece,
  only peers that have delivered are unchoked: a new peer gets no chance, and a client that only
  seeds, to which nobody delivers, unchokes nobody.\<close>

theorem newcomers_stay_choked:
  assumes "slice_sort srt" and "range_order intr iorder" and "range_order gen gorder"
    and "5 \<le> card (interested intr)" and "card (interested intr \<inter> dom gen) < 5"
  shows "\<exists>ps. chokeAlgorithm srt randIntn iorder gorder gen intr = Inr ps \<and> length ps = 5
    \<and> set ps \<subseteq> insert '''' (interested intr \<inter> dom gen)
    \<and> (dom gen = {} \<longrightarrow> set ps = {''''})"
  using choke_padded [OF assms] .

theorem newcomers_stay_choked_witness:
  "(\<exists>ps. chokeAlgorithm insertion_sort (\<lambda>n. 0) sample_ids [] (\<lambda>x. None) sample_intr = Inr ps \<and> length ps = 5
    \<and> set ps = {''''})"
proof -
  have "range_order (\<lambda>x. None :: int option) []" by (simp add: range_order_def)
  from newcomers_stay_choked [OF ins.slice_sort_axioms sample_orders(1) this]
  show ?thesis by (simp add: sample_interested sample_cards) blast
qed

end
