(* ===== verification/Random_Ids.thy ===== *)
theory Random_Ids
  imports Go_IO
begin

text \<open>
  \<open>random/random.go\<close> and \<open>bittorrent/peer_id.go\<close>: random strings, the shuffling of the
  tiers of an announce list, the peer id. What \<open>math/rand\<close> returns is an argument: the results of
  the calls in turn. The locale \<open>shuffler\<close> is what is documented of \<open>rand.Perm\<close>; it is
  interpreted on the loop of \<open>math/rand\<close>.
\<close>

section \<open>Random strings\<close>

definition letterRunes :: string where
  "letterRunes = ''abcdefghijklmnopqrstuvwxyzABCDEFGHIJKLMNOPQRSTUVWXYZ0123456789''"

text \<open>\<open>randIntn k n\<close> is what the \<open>k\<close>-th call, \<open>rand.Intn(n)\<close>, returns.\<close>

definition MakeRandomString :: "(nat \<Rightarrow> nat \<Rightarrow> nat) \<Rightarrow> int \<Rightarrow> string result" where
  "MakeRandomString randIntn n = bind_result (go_make n (CHR 0x00)) (\<lambda>result.
     Inr (map (\<lambda>i. letterRunes ! randIntn i (length letterRunes)) [0..<length result]))"

definition ClientId :: string where
  "ClientId = ''SH01''"

definition MakePeerId :: "(nat \<Rightarrow> nat \<Rightarrow> nat) \<Rightarrow> string result" where
  "MakePeerId randIntn = bind_result (MakeRandomString randIntn (20 - int (length ClientId) - 1))
     (\<lambda>r. Inr (ClientId @ ''-'' @ r))"

definition intn_in_range :: "(nat \<Rightarrow> nat \<Rightarrow> nat) \<Rightarrow> bool" where
  "intn_in_range randIntn \<longleftrightarrow> (\<forall>k. \<forall>n > 0. randIntn k n < n)"

lemma length_letterRunes: "length letterRunes = 62"
  by (simp add: letterRunes_def)

lemma MakeRandomString_spec:
  assumes "intn_in_range randIntn" and "0 \<le> n"
  obtains s where "MakeRandomString randIntn n = Inr s" and "length s = nat n" and "set s \<subseteq> set letterRunes"
proof -
  have "randIntn i (length letterRunes) < length letterRunes" for i
    using assms(1) by (simp add: intn_in_range_def length_letterRunes)
  then have "set (map (\<lambda>i. letterRunes ! randIntn i (length letterRunes)) [0..<nat n]) \<subseteq> set letterRunes"
    by auto
  with assms(2) show ?thesis
    by (intro that [of "map (\<lambda>i. letterRunes ! randIntn i (length letterRunes)) [0..<nat n]"])
      (simp_all add: MakeRandomString_def)
qed

section \<open>Shuffling\<close>

locale shuffler =
  fixes perm :: "nat \<Rightarrow> nat \<Rightarrow> nat list"
  assumes mset_perm: "mset (perm c n) = mset [0..<n]"
begin

lemma length_perm: "length (perm c n) = n"
  using mset_perm by (metis length_upt minus_nat.diff_0 size_mset)

lemma distinct_perm: "distinct (perm c n)"
  using mset_perm by (metis distinct_upt mset_eq_imp_distinct_iff)

lemma set_perm: "set (perm c n) = {0..<n}"
  using mset_perm by (metis set_mset_mset set_upt)

lemma mset_map_perm: "mset (map f (perm c n)) = mset (map f [0..<n])"
  by (metis mset_map mset_perm)

end

text \<open>
  \<open>rand.Perm\<close>: \<open>draw i\<close> is what \<open>Intn(i+1)\<close> returns in round \<open>i\<close>.
\<close>

fun perm_loop :: "(nat \<Rightarrow> nat) \<Rightarrow> nat \<Rightarrow> nat \<Rightarrow> nat list \<Rightarrow> nat list" where
  "perm_loop draw 0 i m = m"
| "perm_loop draw (Suc n) i m = perm_loop draw n (Suc i) ((m[i := m ! draw i])[draw i := i])"

definition go_Perm :: "(nat \<Rightarrow> nat) \<Rightarrow> nat \<Rightarrow> nat list" where
  "go_Perm draw n = perm_loop draw n 0 (replicate n 0)"

text \<open>Round \<open>i\<close> makes a permutation of the first \<open>i + 1\<close> entries.\<close>

lemma perm_round:
  assumes "i < length m" and "j \<le> i" and "mset (take i m) = mset [0..<i]"
  shows "mset (take (Suc i) ((m[i := m ! j])[j := i])) = mset [0..<Suc i]"
proof (cases "j = i")
  case True
  with assms show ?thesis by (simp add: take_Suc_conv_app_nth)
next
  case False
  then have "j < i" using assms(2) by simp
  then have "take (Suc i) ((m[i := m ! j])[j := i]) = (take i m)[j := i] @ [m ! j]"
    using assms(1) by (simp add: take_Suc_conv_app_nth take_update_swap list_update_append min_def)
  moreover have "mset ((take i m)[j := i]) = add_mset i (mset (take i m) - {#m ! j#})"
    using \<open>j < i\<close> assms(1) by (simp add: mset_update)
  moreover have "m ! j \<in># mset (take i m)" using \<open>j < i\<close> assms(1) by (auto simp: in_set_conv_nth)
  ultimately show ?thesis using assms(3) by simp
qed

lemma mset_perm_loop:
  assumes "i + n = length m" and "\<And>k. draw k \<le> k" and "mset (take i m) = mset [0..<i]"
  shows "mset (perm_loop draw n i m) = mset [0..<length m]"
  using assms
proof (induction n arbitrary: i m)
  case (Suc n)
  let ?m = "(m[i := m ! draw i])[draw i := i]"
  have "mset (take (Suc i) ?m) = mset [0..<Suc i]"
    using Suc.prems by (intro perm_round) simp_all
  with Suc.IH [of "Suc i" ?m] Suc.prems(1,2) show ?case by simp
qed simp

interpretation go_perm: shuffler "\<lambda>c. go_Perm (\<lambda>i. draw c i mod Suc i)" for draw
proof unfold_locales
  fix c n
  have "draw c k mod Suc k \<le> k" for k by (simp add: less_Suc_eq_le [symmetric])
  then show "mset (go_Perm (\<lambda>i. draw c i mod Suc i) n) = mset [0..<n]"
    using mset_perm_loop [of 0 n "replicate n 0" "\<lambda>i. draw c i mod Suc i"] by (simp add: go_Perm_def)
qed

section \<open>Announce lists\<close>

definition shuffle_tier :: "nat list \<Rightarrow> string list \<Rightarrow> string list" where
  "shuffle_tier indeces tier =
     fold (\<lambda>pos r. r[indeces ! pos := tier ! pos]) [0..<length tier] (replicate (length tier) '''')"

definition RandomizeAnnounceList :: "(nat \<Rightarrow> nat \<Rightarrow> nat list) \<Rightarrow> string list list \<Rightarrow> string list list" where
  "RandomizeAnnounceList perm announceList =
     map (\<lambda>i. if length (announceList ! i) = 1 then [announceList ! i ! 0]
              else shuffle_tier (perm i (length (announceList ! i))) (announceList ! i))
       [0..<length announceList]"

lemma fold_scatter:
  assumes "distinct is" and "n \<le> length is" and "\<forall>i \<in> set is. i < length r"
  shows "length (fold (\<lambda>pos r. r[is ! pos := xs ! pos]) [0..<n] r) = length r
    \<and> (\<forall>pos < n. fold (\<lambda>pos r. r[is ! pos := xs ! pos]) [0..<n] r ! (is ! pos) = xs ! pos)"
  using assms(2)
proof (induction n)
  case (Suc n)
  have "is ! n < length r" using Suc.prems assms(3) by simp
  moreover have "is ! n \<noteq> is ! pos" if "pos < n" for pos
    using that Suc.prems assms(1) by (simp add: nth_eq_iff_index_eq)
  ultimately show ?case using Suc by (auto simp: less_Suc_eq nth_list_update)
qed simp

context shuffler
begin

lemma mset_shuffle_tier: "mset (shuffle_tier (perm c (length tier)) tier) = mset tier"
proof -
  let ?p = "perm c (length tier)" and ?r = "shuffle_tier (perm c (length tier)) tier"
  have r: "length ?r = length tier" "\<forall>pos < length tier. ?r ! (?p ! pos) = tier ! pos"
    using fold_scatter [of ?p "length tier" "replicate (length tier) ''''" tier]
    by (auto simp: shuffle_tier_def distinct_perm length_perm set_perm)
  then have "tier = map (\<lambda>j. ?r ! j) ?p" by (intro nth_equalityI) (simp_all add: length_perm)
  then have "mset tier = mset (map (\<lambda>j. ?r ! j) [0..<length tier])" by (metis mset_map_perm)
  also have "map (\<lambda>j. ?r ! j) [0..<length tier] = ?r" using r(1) by (metis map_nth)
  finally show ?thesis by simp
qed

lemma randomized_tiers:
  "map mset (RandomizeAnnounceList perm al) = map mset al"
proof (rule nth_equalityI)
  fix i assume "i < length (map mset (RandomizeAnnounceList perm al))"
  then have i: "i < length al" by (simp add: RandomizeAnnounceList_def)
  show "map mset (RandomizeAnnounceList perm al) ! i = map mset al ! i"
  proof (cases "length (al ! i) = 1")
    case True
    then have "al ! i = [al ! i ! 0]" by (metis One_nat_def length_0_conv length_Suc_conv nth_Cons_0)
    then have "mset [al ! i ! 0] = mset (al ! i)" by metis
    with True i show ?thesis by (simp add: RandomizeAnnounceList_def)
  qed (use i mset_shuffle_tier in \<open>simp add: RandomizeAnnounceList_def\<close>)
qed (simp add: RandomizeAnnounceList_def)

end

end
