(* ===== verification/Torrent_Decode.thy ===== *)
theory Torrent_Decode
  imports Random_Ids Torrent_Types
begin

text \<open>
  \<open>decode/decode.go\<close>: from the bencoded structures to the metadata of the torrent and to the peers
  a tracker names. \<open>bencode.Unmarshal\<close> and \<open>bencode.Marshal\<close> are of a third party and
  arguments here, as is SHA-1. Go strings that hold binary data are byte lists.
\<close>

section \<open>The bencoded structures\<close>

record bitTorrentInfo =
  bi_Name :: string
  bi_Length :: int
  bi_PieceLength :: int
  bi_Pieces :: "byte list"

record bitTorrentFile =
  bt_Announce :: string
  bt_Comment :: string
  bt_CreatedBy :: string
  bt_CreationDate :: int
  bt_Info :: bitTorrentInfo
  bt_AnnounceList :: "string list list"

record bitTorrentPeers =
  bp_Interval :: int
  bp_Peers :: "byte list"
  bp_Peers6 :: "byte list"

section \<open>The torrent file\<close>

definition computeInfoHash ::
    "(bitTorrentInfo \<Rightarrow> byte list result) \<Rightarrow> (byte list \<Rightarrow> hash) \<Rightarrow> bitTorrentInfo \<Rightarrow> hash result" where
  "computeInfoHash marshal sha1 info = (case marshal info of
     Inl e \<Rightarrow> Inl (rewrap ''could not bencode bitTorrentInfo'' e)
   | Inr buffer \<Rightarrow> Inr (sha1 buffer))"

text \<open>The loop that cuts the hashes, from hash \<open>i\<close> on, \<open>n\<close> to go.\<close>

fun hash_loop :: "byte list \<Rightarrow> nat \<Rightarrow> nat \<Rightarrow> hash list \<Rightarrow> hash list result" where
  "hash_loop pieces 0 i hs = Inr hs"
| "hash_loop pieces (Suc n) i hs =
     bind_result (go_slice pieces (int i * 20) ((int i + 1) * 20)) (\<lambda>s.
       hash_loop pieces n (Suc i) (hs[i := go_copy_at (hs ! i) 0 s]))"

definition DecodeTorrentFile ::
    "(reader \<Rightarrow> bitTorrentFile result) \<Rightarrow> (bitTorrentInfo \<Rightarrow> byte list result) \<Rightarrow> (byte list \<Rightarrow> hash)
      \<Rightarrow> (nat \<Rightarrow> nat \<Rightarrow> nat list) \<Rightarrow> reader \<Rightarrow> torrent_file result" where
  "DecodeTorrentFile unmarshal marshal sha1 perm file = (case unmarshal file of
     Inl e \<Rightarrow> Inl (rewrap ''decoding the bencode failed'' e)
   | Inr torrent \<Rightarrow>
       if int (length (bi_Pieces (bt_Info torrent))) mod 20 \<noteq> 0
       then Inl (Errorf ''length of pieces is not divisable by 20'')
       else
         let numberOfHashes = length (bi_Pieces (bt_Info torrent)) div 20
         in (case computeInfoHash marshal sha1 (bt_Info torrent) of
           Inl e \<Rightarrow> Inl (rewrap ''cannot compute info_hash'' e)
         | Inr infoHash \<Rightarrow>
             bind_result (hash_loop (bi_Pieces (bt_Info torrent)) numberOfHashes 0
                 (replicate numberOfHashes (replicate 20 0)))
               (\<lambda>hashes. Inr \<lparr>tf_Announce = bt_Announce torrent, tf_Name = bi_Name (bt_Info torrent),
                 tf_Comment = bt_Comment torrent, tf_CreatedBy = bt_CreatedBy torrent,
                 tf_CreationDate = bt_CreationDate torrent, tf_Length = bi_Length (bt_Info torrent),
                 tf_PieceLength = bi_PieceLength (bt_Info torrent), tf_PieceHashes = hashes,
                 tf_InfoHash = infoHash,
                 tf_AnnounceList = RandomizeAnnounceList perm (bt_AnnounceList torrent)\<rparr>)))"

section \<open>The peers\<close>

text \<open>The loop over the compact peer list, from peer \<open>index\<close> on, \<open>n\<close> to go.\<close>

fun peer_loop :: "byte list \<Rightarrow> nat \<Rightarrow> nat \<Rightarrow> byte list list \<Rightarrow> 16 word list
    \<Rightarrow> (byte list list \<times> 16 word list) result" where
  "peer_loop peers 0 index ips ports = Inr (ips, ports)"
| "peer_loop peers (Suc n) index ips ports = (let i = 6 * int index in
     bind_result (go_slice peers i (i + 4)) (\<lambda>ip.
     bind_result (go_slice peers (i + 4) (i + 6)) (\<lambda>p.
     bind_result (be_get16 p) (\<lambda>port.
       peer_loop peers n (Suc index) (ips[index := ip]) (ports[index := port])))))"

definition DecodePeerInformation ::
    "(reader \<Rightarrow> bitTorrentPeers result) \<Rightarrow> reader \<Rightarrow> tracker_information result" where
  "DecodePeerInformation unmarshal body = (case unmarshal body of
     Inl e \<Rightarrow> Inl (rewrap ''error while de-bencoding peer information from tracker'' e)
   | Inr peers \<Rightarrow>
       if int (length (bp_Peers peers)) mod 6 \<noteq> 0
       then Inl (Errorf ''peers array has to be divisible by 6'')
       else
         let numberOfPeers = length (bp_Peers peers) div 6
         in bind_result (peer_loop (bp_Peers peers) numberOfPeers 0 (replicate numberOfPeers [])
               (replicate numberOfPeers 0))
             (\<lambda>(ips, ports). Inr \<lparr>ti_Tracker = None, ti_Interval = bp_Interval peers, ti_IPs = ips, ti_Ports = ports\<rparr>))"

section \<open>Lemmas\<close>

text \<open>The loops cut the input into blocks.\<close>

lemma go_slice_blocks:
  assumes "length pre = k" and "length s = m"
  shows "go_slice (pre @ s @ post) (int k) (int k + int m) = Inr s"
  using assms by (simp add: go_slice_def)

lemma hash_loop_blocks:
  assumes "length pre = 20 * i" and "\<forall>h \<in> set hs. length h = 20"
    and "length acc = i + length hs" and "\<forall>h \<in> set acc. length h = 20"
  shows "hash_loop (pre @ concat hs) (length hs) i acc = Inr (take i acc @ hs)"
  using assms
proof (induction hs arbitrary: pre i acc)
  case (Cons h hs)
  have h: "length h = 20" and acc: "length (acc ! i) = 20" using Cons.prems(2-4) by simp_all
  have "go_slice (pre @ h @ concat hs) (int (20 * i)) (int (20 * i) + int 20) = Inr h"
    by (rule go_slice_blocks [OF Cons.prems(1) h])
  then have "go_slice (pre @ h @ concat hs) (int i * 20) ((int i + 1) * 20) = Inr h"
    by (simp add: algebra_simps)
  moreover have "go_copy_at (acc ! i) 0 h = h" using h acc by (simp add: go_copy_at_def)
  ultimately have "hash_loop (pre @ concat (h # hs)) (length (h # hs)) i acc
      = hash_loop ((pre @ h) @ concat hs) (length hs) (Suc i) (acc[i := h])" by simp
  also have "\<dots> = Inr (take (Suc i) (acc[i := h]) @ hs)"
    using Cons.prems h by (intro Cons.IH) (auto dest: set_update_subset_insert [THEN subsetD])
  also have "take (Suc i) (acc[i := h]) = take i acc @ [h]"
    using Cons.prems(3) by (simp add: take_Suc_conv_app_nth)
  finally show ?case by simp
qed simp

text \<open>The compact form of a peer list.\<close>

definition compact :: "(byte list \<times> 16 word) list \<Rightarrow> byte list" where
  "compact peers = concat (map (\<lambda>(ip, port). ip @ be_put16 port) peers)"

lemma length_compact: "\<forall>p \<in> set peers. length (fst p) = 4 \<Longrightarrow> length (compact peers) = 6 * length peers"
  by (induction peers) (auto simp: compact_def)

lemma peer_loop_compact:
  assumes "length pre = 6 * i" and "\<forall>p \<in> set peers. length (fst p) = 4"
    and "length ips = i + length peers" and "length ports = i + length peers"
  shows "peer_loop (pre @ compact peers) (length peers) i ips ports
    = Inr (take i ips @ map fst peers, take i ports @ map snd peers)"
  using assms
proof (induction peers arbitrary: pre i ips ports)
  case (Cons p peers)
  obtain ip port where p: "p = (ip, port)" by (cases p)
  have ip: "length ip = 4" using Cons.prems(2) by (simp add: p)
  let ?all = "pre @ compact (p # peers)"
  have a: "go_slice ?all (6 * int i) (6 * int i + 4) = Inr ip"
    using go_slice_blocks [OF Cons.prems(1) ip] by (simp add: compact_def p)
  have b: "go_slice ?all (6 * int i + 4) (6 * int i + 6) = Inr (be_put16 port)"
    using go_slice_blocks [of "pre @ ip" "6 * i + 4" "be_put16 port" 2 "compact peers"] Cons.prems(1) ip
    by (simp add: compact_def p add.commute)
  have "peer_loop ?all (length (p # peers)) i ips ports
      = peer_loop ((pre @ ip @ be_put16 port) @ compact peers) (length peers) (Suc i) (ips[i := ip]) (ports[i := port])"
    using a b by (simp add: Let_def compact_def p)
  also have "\<dots> = Inr (take (Suc i) (ips[i := ip]) @ map fst peers, take (Suc i) (ports[i := port]) @ map snd peers)"
    using Cons.prems ip by (intro Cons.IH) simp_all
  finally show ?case using Cons.prems(3,4) by (simp add: p take_Suc_conv_app_nth)
qed (simp add: compact_def)

end
