(* ===== verification/Tracker_Client.thy ===== *)
theory Tracker_Client
  imports Torrent_Decode "HOL-Library.Char_ord" "HOL-Library.List_Lexorder"
begin

text \<open>
  \<open>bittorrent/tracker.go\<close>: the query of an announce, the choice of a tracker and the search for
  one that answers. \<open>url.Parse\<close> is an argument, and so is what becomes of each request:
  \<open>net k\<close> is the outcome of the \<open>k\<close>-th one. The search is a loop with no bound, a
  \<open>partial_function\<close>: \<open>None\<close> means that it never returns.
\<close>

section \<open>The query\<close>

text \<open>\<open>url.QueryEscape\<close>.\<close>

definition unreserved :: "char \<Rightarrow> bool" where
  "unreserved c \<longleftrightarrow> (let n = of_char c :: nat in
     48 \<le> n \<and> n \<le> 57 \<or> 65 \<le> n \<and> n \<le> 90 \<or> 97 \<le> n \<and> n \<le> 122 \<or> n = 45 \<or> n = 46 \<or> n = 95 \<or> n = 126)"

definition hex_digit :: "nat \<Rightarrow> char" where
  "hex_digit d = (if d < 10 then char_of (48 + d) else char_of (55 + d))"

definition escape_char :: "char \<Rightarrow> string" where
  "escape_char c = (if unreserved c then [c] else if c = CHR '' '' then ''+''
     else [CHR ''%'', hex_digit (of_char c div 16), hex_digit (of_char c mod 16)])"

definition QueryEscape :: "string \<Rightarrow> string" where
  "QueryEscape s = concat (map escape_char s)"

text \<open>\<open>url.Values\<close>: a map from keys to the values added, encoded in the order of the keys.\<close>

type_synonym url_values = "(string \<times> string list) list"

fun values_Add :: "string \<Rightarrow> string \<Rightarrow> url_values \<Rightarrow> url_values" where
  "values_Add k v [] = [(k, [v])]"
| "values_Add k v ((k', vs) # q) = (if k = k' then (k, vs @ [v]) # q else (k', vs) # values_Add k v q)"

fun join_amp :: "string list \<Rightarrow> string" where
  "join_amp [] = ''''"
| "join_amp [s] = s"
| "join_amp (s # t # ss) = s @ ''&'' @ join_amp (t # ss)"

definition values_Encode :: "url_values \<Rightarrow> string" where
  "values_Encode q = join_amp (concat (map (\<lambda>(k, vs). map (\<lambda>v. QueryEscape k @ ''='' @ QueryEscape v) vs)
     (sort_key fst q)))"

definition bytes_string :: "byte list \<Rightarrow> string" where
  "bytes_string bs = map (\<lambda>b. char_of (unat b)) bs"

definition addGetPeersQuery ::
    "url \<Rightarrow> torrent_file \<Rightarrow> string \<Rightarrow> 16 word \<Rightarrow> int \<Rightarrow> int \<Rightarrow> int \<Rightarrow> url" where
  "addGetPeersQuery u torrent peerId port uploaded downloaded leftToDownload =
     (let query = [];
          query = values_Add ''info_hash'' (bytes_string (tf_InfoHash torrent)) query;
          query = values_Add ''peer_id'' peerId query;
          query = values_Add ''port'' (itoa (uint port)) query;
          query = values_Add ''uploaded'' (itoa uploaded) query;
          query = values_Add ''downloaded'' (itoa downloaded) query;
          query = values_Add ''left'' (itoa leftToDownload) query;
          query = values_Add ''event'' ''started'' query;
          query = values_Add ''compact'' (itoa 1) query
      in u\<lparr>url_RawQuery := values_Encode query\<rparr>)"

section \<open>Choosing a tracker\<close>

record tracker =
  tk_url :: url
  tk_tier :: int
  tk_tierIndex :: int

text \<open>The inner loop, over the trackers of tier \<open>i\<close> from position \<open>t\<close> on.\<close>

fun scan_tier :: "(string \<Rightarrow> url result) \<Rightarrow> int \<Rightarrow> int \<Rightarrow> string list \<Rightarrow> tracker option" where
  "scan_tier url_Parse i t [] = None"
| "scan_tier url_Parse i t (a # as) = (case url_Parse a of
     Inl e \<Rightarrow> scan_tier url_Parse i (t + 1) as
   | Inr announceUrl \<Rightarrow>
       if url_Scheme announceUrl = ''http'' then Some \<lparr>tk_url = announceUrl, tk_tier = i, tk_tierIndex = t\<rparr>
       else scan_tier url_Parse i (t + 1) as)"

text \<open>The outer loop, over the tiers from tier \<open>i\<close> on; \<open>start\<close> is where the first of them starts.\<close>

fun scan_tiers :: "(string \<Rightarrow> url result) \<Rightarrow> int \<Rightarrow> nat \<Rightarrow> string list list \<Rightarrow> tracker option" where
  "scan_tiers url_Parse i start [] = None"
| "scan_tiers url_Parse i start (tier # tiers) =
     (case scan_tier url_Parse i (int start) (drop start tier) of
        Some tracker \<Rightarrow> Some tracker
      | None \<Rightarrow> scan_tiers url_Parse (i + 1) 0 tiers)"

definition getFirstSupportedTracker ::
    "(string \<Rightarrow> url result) \<Rightarrow> torrent_file \<Rightarrow> int \<Rightarrow> int \<Rightarrow> tracker result" where
  "getFirstSupportedTracker url_Parse torrent startTier startTierPosition =
     (if tf_AnnounceList torrent = [] then
        (case url_Parse (tf_Announce torrent) of
           Inl e \<Rightarrow> Inl e
         | Inr ann \<Rightarrow> Inr \<lparr>tk_url = ann, tk_tier = -1, tk_tierIndex = -1\<rparr>)
      else if startTier < 0 \<or> (startTierPosition + 1 < 0 \<and> nat startTier < length (tf_AnnounceList torrent))
        then Inl (Panic IndexOutOfRange)
      else
        (case scan_tiers url_Parse startTier (nat (startTierPosition + 1))
            (drop (nat startTier) (tf_AnnounceList torrent)) of
           Some tracker \<Rightarrow> Inr tracker
         | None \<Rightarrow> Inl (Errorf ''no supported tracker found'')))"

section \<open>A request\<close>

text \<open>
  What \<open>http.DefaultClient.Do\<close> sends back over the channel, and the ways a request ends: it could
  not be made, the context's half second ran out first, or the channel delivered.
\<close>

record response =
  rp_response :: "(int \<times> reader) option"
  rp_err :: "go_error option"

datatype get_outcome = NotCreated | TimedOut | Delivered response

definition handleGetPeersResponse ::
    "(reader \<Rightarrow> bitTorrentPeers result) \<Rightarrow> response \<Rightarrow> tracker_information result" where
  "handleGetPeersResponse unmarshal r = (case rp_err r of
     Some e \<Rightarrow> Inl (Errorf ''GET request ended with an error'')
   | None \<Rightarrow> (case rp_response r of
       None \<Rightarrow> Inl (Panic (Explicit ''GET error: both err and response are nil''))
     | Some (statusCode, body) \<Rightarrow>
         if statusCode \<noteq> 200 then Inl (Errorf ''server answered GET request with an error'')
         else (case DecodePeerInformation unmarshal body of
           Inl e \<Rightarrow> Inl (rewrap ''IO read from HTTP response failed'' e)
         | Inr information \<Rightarrow> Inr information)))"

definition getPeers :: "(reader \<Rightarrow> bitTorrentPeers result) \<Rightarrow> get_outcome \<Rightarrow> tracker_information result" where
  "getPeers unmarshal out = (case out of
     NotCreated \<Rightarrow> Inl (Errorf ''could not create context'')
   | TimedOut \<Rightarrow> Inl (Errorf ''GET request timed out'')
   | Delivered r \<Rightarrow> handleGetPeersResponse unmarshal r)"

section \<open>The search\<close>

text \<open>The data of an announce.\<close>

record announce =
  an_peerId :: string
  an_port :: "16 word"
  an_uploaded :: int
  an_downloaded :: int
  an_left :: int

definition announce_url :: "torrent_file \<Rightarrow> announce \<Rightarrow> url \<Rightarrow> url" where
  "announce_url torrent a u =
     addGetPeersQuery u torrent (an_peerId a) (an_port a) (an_uploaded a) (an_downloaded a) (an_left a)"

text \<open>\<open>sent\<close> lists the trackers asked so far.\<close>

partial_function (option) tracker_loop ::
    "(string \<Rightarrow> url result) \<Rightarrow> (reader \<Rightarrow> bitTorrentPeers result) \<Rightarrow> (nat \<Rightarrow> url \<Rightarrow> get_outcome)
      \<Rightarrow> torrent_file \<Rightarrow> announce \<Rightarrow> tracker list \<Rightarrow> int \<Rightarrow> int
      \<Rightarrow> (tracker_information result \<times> tracker list) option" where
  "tracker_loop url_Parse unmarshal net torrent a sent tier tierPos =
     (case getFirstSupportedTracker url_Parse torrent tier tierPos of
        Inl e \<Rightarrow> Some (Inl (rewrap ''encoutered error while getting supported tracker'' e), sent)
      | Inr tracker \<Rightarrow>
          (case getPeers unmarshal (net (length sent) (announce_url torrent a (tk_url tracker))) of
             Inl e \<Rightarrow>
               if is_panic e then Some (Inl e, sent @ [tracker])
               else tracker_loop url_Parse unmarshal net torrent a (sent @ [tracker])
                 (tk_tier tracker) (tierPos + tk_tierIndex tracker + 1)
           | Inr result \<Rightarrow>
               Some (Inr (result\<lparr>ti_Tracker := Some ((tk_url tracker)\<lparr>url_RawQuery := ''''\<rparr>)\<rparr>), sent @ [tracker])))"

declare tracker_loop.simps [code]

definition GetTrackerFromFile ::
    "(string \<Rightarrow> url result) \<Rightarrow> (reader \<Rightarrow> bitTorrentPeers result) \<Rightarrow> (nat \<Rightarrow> url \<Rightarrow> get_outcome)
      \<Rightarrow> torrent_file \<Rightarrow> announce \<Rightarrow> (tracker_information result \<times> tracker list) option" where
  "GetTrackerFromFile url_Parse unmarshal net torrent a = tracker_loop url_Parse unmarshal net torrent a [] 0 (- 1)"

definition UpdateTracker ::
    "(reader \<Rightarrow> bitTorrentPeers result) \<Rightarrow> (url \<Rightarrow> get_outcome) \<Rightarrow> url \<Rightarrow> torrent_file \<Rightarrow> announce
      \<Rightarrow> tracker_information result" where
  "UpdateTracker unmarshal net trackerUrl torrent a =
     (case getPeers unmarshal (net (announce_url torrent a trackerUrl)) of
        Inl e \<Rightarrow> Inl (rewrap ''encountered error while updating tracker'' e)
      | Inr result \<Rightarrow> Inr (result\<lparr>ti_Tracker := Some (trackerUrl\<lparr>url_RawQuery := ''''\<rparr>)\<rparr>))"

section \<open>The choice\<close>

lemma scan_tier_Some:
  assumes "scan_tier url_Parse i t us = Some tracker"
  shows "tk_tier tracker = i \<and> t \<le> tk_tierIndex tracker \<and> tk_tierIndex tracker < t + int (length us)
    \<and> url_Scheme (tk_url tracker) = ''http''
    \<and> url_Parse (us ! nat (tk_tierIndex tracker - t)) = Inr (tk_url tracker)"
  using assms
proof (induction us arbitrary: t)
  case (Cons u us)
  show ?case
  proof (cases "scan_tier url_Parse i (t + 1) us = Some tracker")
    case True
    note IH = Cons.IH [OF this]
    then have "nat (tk_tierIndex tracker - t) = Suc (nat (tk_tierIndex tracker - (t + 1)))" by linarith
    with IH show ?thesis by simp
  next
    case False
    with Cons.prems show ?thesis by (auto split: sum.splits if_splits)
  qed
qed simp

lemma scan_tiers_Some:
  assumes "scan_tiers url_Parse i start ts = Some tracker"
  shows "\<exists>j < length ts. tk_tier tracker = i + int j \<and> 0 \<le> tk_tierIndex tracker
    \<and> nat (tk_tierIndex tracker) < length (ts ! j) \<and> (j = 0 \<longrightarrow> int start \<le> tk_tierIndex tracker)
    \<and> url_Scheme (tk_url tracker) = ''http''
    \<and> url_Parse (ts ! j ! nat (tk_tierIndex tracker)) = Inr (tk_url tracker)"
  using assms
proof (induction ts arbitrary: i start)
  case (Cons us ts)
  show ?case
  proof (cases "scan_tier url_Parse i (int start) (drop start us)")
    case None
    with Cons obtain j where "j < length ts" "tk_tier tracker = i + 1 + int j"
      "0 \<le> tk_tierIndex tracker" "nat (tk_tierIndex tracker) < length (ts ! j)"
      "url_Scheme (tk_url tracker) = ''http''"
      "url_Parse (ts ! j ! nat (tk_tierIndex tracker)) = Inr (tk_url tracker)"
      by fastforce
    then show ?thesis by (intro exI [of _ "Suc j"]) simp
  next
    case (Some tk)
    with Cons.prems scan_tier_Some [OF Some] have s: "tk = tracker" "int start \<le> tk_tierIndex tracker"
      "tk_tierIndex tracker < int start + int (length (drop start us))" "tk_tier tracker = i"
      "url_Scheme (tk_url tracker) = ''http''"
      "url_Parse (drop start us ! nat (tk_tierIndex tracker - int start)) = Inr (tk_url tracker)" by auto
    moreover from s(2,3) have "start + nat (tk_tierIndex tracker - int start) = nat (tk_tierIndex tracker)"
      and "start \<le> length us" by auto
    ultimately show ?thesis by (intro exI [of _ 0]) auto
  qed
qed simp

text \<open>A tracker that is found comes after the position the search starts from.\<close>

definition tracker_of :: "(string \<Rightarrow> url result) \<Rightarrow> torrent_file \<Rightarrow> tracker \<Rightarrow> bool" where
  "tracker_of url_Parse torrent tk \<longleftrightarrow> 0 \<le> tk_tier tk \<and> nat (tk_tier tk) < length (tf_AnnounceList torrent)
     \<and> 0 \<le> tk_tierIndex tk \<and> nat (tk_tierIndex tk) < length (tf_AnnounceList torrent ! nat (tk_tier tk))
     \<and> url_Scheme (tk_url tk) = ''http''
     \<and> url_Parse (tf_AnnounceList torrent ! nat (tk_tier tk) ! nat (tk_tierIndex tk)) = Inr (tk_url tk)"

lemma found_tracker:
  assumes "getFirstSupportedTracker url_Parse torrent tier pos = Inr tk"
    and "tf_AnnounceList torrent \<noteq> []" and "0 \<le> tier" and "-1 \<le> pos"
  shows "tracker_of url_Parse torrent tk \<and> (tier < tk_tier tk \<or> tier = tk_tier tk \<and> pos < tk_tierIndex tk)"
proof -
  have "scan_tiers url_Parse tier (nat (pos + 1)) (drop (nat tier) (tf_AnnounceList torrent)) = Some tk"
    using assms by (auto simp: getFirstSupportedTracker_def split: if_splits option.splits)
  from scan_tiers_Some [OF this] obtain j where
    "j < length (drop (nat tier) (tf_AnnounceList torrent))" "tk_tier tk = tier + int j"
    "0 \<le> tk_tierIndex tk" "nat (tk_tierIndex tk) < length (drop (nat tier) (tf_AnnounceList torrent) ! j)"
    "j = 0 \<longrightarrow> int (nat (pos + 1)) \<le> tk_tierIndex tk" "url_Scheme (tk_url tk) = ''http''"
    "url_Parse (drop (nat tier) (tf_AnnounceList torrent) ! j ! nat (tk_tierIndex tk)) = Inr (tk_url tk)"
    by blast
  with assms(3,4) show ?thesis by (cases "j = 0") (auto simp: tracker_of_def nat_add_distrib)
qed

section \<open>Termination of the search\<close>

text \<open>The trackers from position \<open>p\<close> of tier \<open>t\<close> on: every request leaves fewer of them.\<close>

definition ahead :: "string list list \<Rightarrow> nat \<Rightarrow> nat \<Rightarrow> nat" where
  "ahead al t p = length (al ! t) - p + length (concat (drop (Suc t) al))"

lemma ahead_later_tier:
  assumes "t < t'" and "t' < length al"
  shows "ahead al t' 0 \<le> ahead al t p"
proof -
  have "ahead al t' 0 = length (concat (drop t' al))"
    using assms(2) by (simp add: ahead_def Cons_nth_drop_Suc [symmetric])
  also have "\<dots> \<le> length (concat (drop (Suc t) al))"
  proof -
    have "drop (Suc t) al = take (t' - Suc t) (drop (Suc t) al) @ drop t' al"
      using assms by (metis Suc_leI append_take_drop_id drop_drop le_add_diff_inverse2)
    then show ?thesis by (metis concat_append length_append le_add2)
  qed
  finally show ?thesis by (simp add: ahead_def)
qed

lemma ahead_decreases:
  assumes "t < t' \<or> t = t' \<and> p \<le> i" and "t' < length al" and "i < length (al ! t')" and "i < q"
  shows "ahead al t' q < ahead al t p"
proof -
  have "ahead al t' q < ahead al t' 0" "p \<le> i \<Longrightarrow> ahead al t' q < ahead al t' p"
    using assms(3,4) by (auto simp: ahead_def)
  with assms(1) ahead_later_tier [of t t' al p] assms(2) show ?thesis by auto
qed

lemma tracker_loop_ends:
  assumes "tf_AnnounceList torrent \<noteq> []" and "0 \<le> tier" and "nat tier < length (tf_AnnounceList torrent)"
    and "- 1 \<le> pos"
  shows "\<exists>r asked. tracker_loop url_Parse unmarshal net torrent a sent tier pos = Some (r, sent @ asked)
    \<and> length asked \<le> ahead (tf_AnnounceList torrent) (nat tier) (nat (pos + 1))
    \<and> (\<forall>tk \<in> set asked. tracker_of url_Parse torrent tk)"
  using assms(2-)
proof (induction "ahead (tf_AnnounceList torrent) (nat tier) (nat (pos + 1))" arbitrary: sent tier pos rule: less_induct)
  case less
  show ?case
  proof (cases "getFirstSupportedTracker url_Parse torrent tier pos")
    case (Inl e)
    then show ?thesis by (subst tracker_loop.simps) simp
  next
    case (Inr tk)
    have tk: "tracker_of url_Parse torrent tk" "tier < tk_tier tk \<or> tier = tk_tier tk \<and> pos < tk_tierIndex tk"
      using found_tracker [OF Inr assms(1) less.prems(1,3)] by auto
    let ?pos = "pos + tk_tierIndex tk + 1" and ?al = "tf_AnnounceList torrent"
    have dec: "ahead ?al (nat (tk_tier tk)) (nat (?pos + 1)) < ahead ?al (nat tier) (nat (pos + 1))"
      using tk less.prems by (intro ahead_decreases [where i = "nat (tk_tierIndex tk)"]) (auto simp: tracker_of_def)
    show ?thesis
    proof (cases "getPeers unmarshal (net (length sent) (announce_url torrent a (tk_url tk)))")
      case (Inr info)
      with \<open>getFirstSupportedTracker url_Parse torrent tier pos = Inr tk\<close> dec tk(1) show ?thesis
        by (subst tracker_loop.simps) (intro exI [of _ "[tk]"] exI, simp)
    next
      case (Inl e)
      note step = \<open>getFirstSupportedTracker url_Parse torrent tier pos = Inr tk\<close> Inl
      show ?thesis
      proof (cases "is_panic e")
        case True
        with step dec tk(1) show ?thesis
          by (subst tracker_loop.simps) (intro exI [of _ "[tk]"] exI, simp)
      next
        case False
        have "0 \<le> tk_tier tk" "nat (tk_tier tk) < length ?al" "- 1 \<le> ?pos"
          using tk(1) less.prems by (auto simp: tracker_of_def)
        from less.hyps [OF dec this, of "sent @ [tk]"] obtain r asked where
          "tracker_loop url_Parse unmarshal net torrent a (sent @ [tk]) (tk_tier tk) ?pos = Some (r, sent @ tk # asked)"
          "length asked \<le> ahead ?al (nat (tk_tier tk)) (nat (?pos + 1))"
          "\<forall>tk \<in> set asked. tracker_of url_Parse torrent tk" by auto
        with step False dec tk(1) show ?thesis
          by (subst tracker_loop.simps) (intro exI [of _ "tk # asked"] exI [of _ r], simp)
      qed
    qed
  qed
qed

text \<open>With a single announce URL there is one tracker to ask, again and again.\<close>

definition fails :: "'a result \<Rightarrow> bool" where
  "fails r \<longleftrightarrow> (case r of Inl e \<Rightarrow> \<not> is_panic e | Inr x \<Rightarrow> False)"

definition ask_announce ::
    "(reader \<Rightarrow> bitTorrentPeers result) \<Rightarrow> (nat \<Rightarrow> url \<Rightarrow> get_outcome) \<Rightarrow> torrent_file \<Rightarrow> announce \<Rightarrow> url \<Rightarrow> nat
      \<Rightarrow> tracker_information result" where
  "ask_announce unmarshal net torrent a ann k = getPeers unmarshal (net k (announce_url torrent a ann))"

lemma announce_only:
  "tf_AnnounceList torrent = [] \<Longrightarrow> url_Parse (tf_Announce torrent) = Inr ann \<Longrightarrow>
    getFirstSupportedTracker url_Parse torrent tier pos = Inr \<lparr>tk_url = ann, tk_tier = -1, tk_tierIndex = -1\<rparr>"
  by (simp add: getFirstSupportedTracker_def)

lemma announce_answered:
  assumes "tf_AnnounceList torrent = []" and "url_Parse (tf_Announce torrent) = Inr ann"
    and "\<not> fails (ask_announce unmarshal net torrent a ann (length sent + n))"
  shows "tracker_loop url_Parse unmarshal net torrent a sent tier pos \<noteq> None"
  using assms(3)
proof (induction n arbitrary: sent tier pos)
  case 0
  with announce_only [of torrent url_Parse ann, OF assms(1,2)] show ?case
    by (subst tracker_loop.simps) (auto simp: fails_def ask_announce_def split: sum.splits)
next
  case (Suc n)
  from Suc.IH [of "sent @ [\<lparr>tk_url = ann, tk_tier = -1, tk_tierIndex = -1\<rparr>]" "-1" pos] Suc.prems
    announce_only [of torrent url_Parse ann, OF assms(1,2)]
  show ?case by (subst tracker_loop.simps) (simp split: sum.splits)
qed

lemma announce_unanswered:
  assumes "tf_AnnounceList torrent = []" and "url_Parse (tf_Announce torrent) = Inr ann"
    and "\<forall>k. fails (ask_announce unmarshal net torrent a ann k)"
  shows "tracker_loop url_Parse unmarshal net torrent a sent tier pos = None"
proof (rule ccontr)
  assume "tracker_loop url_Parse unmarshal net torrent a sent tier pos \<noteq> None"
  then obtain y where y: "tracker_loop url_Parse unmarshal net torrent a sent tier pos = Some y" by auto
  have "\<not> (tf_AnnounceList torrent = [] \<and> url_Parse (tf_Announce torrent) = Inr ann
      \<and> (\<forall>k. fails (ask_announce unmarshal net torrent a ann k)))"
    using y
  proof (induction rule: tracker_loop.raw_induct [rotated, consumes 1])
    case (1 loop url_Parse unmarshal net torrent a sent tier pos y)
    show ?case
    proof (intro notI, elim conjE)
      assume ann: "tf_AnnounceList torrent = []" "url_Parse (tf_Announce torrent) = Inr ann"
        and all: "\<forall>k. fails (ask_announce unmarshal net torrent a ann k)"
      from all obtain e where "getPeers unmarshal (net (length sent) (announce_url torrent a ann)) = Inl e" "\<not> is_panic e"
        unfolding fails_def ask_announce_def by (metis (no_types, lifting) old.sum.exhaust sum.simps(5,6))
      with 1(2) announce_only [of torrent url_Parse ann tier pos, OF ann]
      have "loop url_Parse unmarshal net torrent a (sent @ [\<lparr>tk_url = ann, tk_tier = -1, tk_tierIndex = -1\<rparr>]) (-1) pos = Some y"
        by simp
      from 1(1) [OF this] ann all show False by simp
    qed
  qed
  with assms show False by simp
qed

section \<open>The trackers that are skipped\<close>

text \<open>
  After a failure the next position is the sum of the last one and of the index of the tracker
  that failed: within a tier the positions double.
\<close>

lemma scan_tier_first:
  assumes "us \<noteq> []" and "url_Parse (hd us) = Inr u" and "url_Scheme u = ''http''"
  shows "scan_tier url_Parse i t us = Some \<lparr>tk_url = u, tk_tier = i, tk_tierIndex = t\<rparr>"
  using assms by (cases us) simp_all

lemma one_tier_next:
  assumes "tf_AnnounceList torrent = [tier]" and "p < length tier"
    and "url_Parse (tier ! p) = Inr u" and "url_Scheme u = ''http''"
  shows "getFirstSupportedTracker url_Parse torrent 0 (int p - 1) = Inr \<lparr>tk_url = u, tk_tier = 0, tk_tierIndex = int p\<rparr>"
  using assms scan_tier_first [of "drop p tier" url_Parse u 0 "int p"]
  by (simp add: getFirstSupportedTracker_def hd_drop_conv_nth)

lemma one_tier_end:
  assumes "tf_AnnounceList torrent = [tier]" and "length tier \<le> p"
  shows "getFirstSupportedTracker url_Parse torrent 0 (int p - 1) = Inl (Errorf ''no supported tracker found'')"
  using assms by (simp add: getFirstSupportedTracker_def)

definition doubling :: "nat \<Rightarrow> nat \<Rightarrow> nat set" where
  "doubling k n = {2 ^ j - 1 | j. k \<le> j \<and> 2 ^ j - 1 < n}"

lemma doubling_step:
  "2 ^ k - 1 < n \<Longrightarrow> doubling k n = insert (2 ^ k - 1) (doubling (Suc k) n)"
  unfolding doubling_def by (auto simp: Suc_le_eq) (metis le_neq_implies_less)

lemma doubling_end: "n \<le> 2 ^ k - 1 \<Longrightarrow> doubling k n = {}"
proof -
  assume "n \<le> 2 ^ k - 1"
  have "\<not> (2 ^ j - 1 < n)" if "k \<le> j" for j
    using \<open>n \<le> 2 ^ k - 1\<close> power_increasing [OF that, of "2 :: nat"] by linarith
  then show ?thesis by (auto simp: doubling_def)
qed

lemma ring_sum: "x + x + 1 - 1 = x - 1 + x + (1 :: int)"
  by simp

lemma silent_tier_skips:
  assumes al: "tf_AnnounceList torrent = [tier]"
    and http: "\<forall>p < length tier. \<exists>u. url_Parse (tier ! p) = Inr u \<and> url_Scheme u = ''http''"
    and silent: "\<forall>k u. fails (getPeers unmarshal (net k u))"
  shows "\<exists>asked. tracker_loop url_Parse unmarshal net torrent a sent 0 (int (2 ^ k - 1) - 1)
      = Some (Inl (Errorf ''encoutered error while getting supported tracker''), sent @ asked)
    \<and> tk_tierIndex ` set asked = int ` doubling k (length tier)"
proof (induction "length tier - (2 ^ k - 1)" arbitrary: k sent rule: less_induct)
  case less
  let ?p = "2 ^ k - 1 :: nat"
  show ?case
  proof (cases "?p < length tier")
    case False
    with one_tier_end [OF al, of ?p url_Parse] show ?thesis
      by (subst tracker_loop.simps) (simp add: rewrap_def doubling_end)
  next
    case True
    with http obtain u where u: "url_Parse (tier ! ?p) = Inr u" "url_Scheme u = ''http''" by blast
    let ?tk = "\<lparr>tk_url = u, tk_tier = 0, tk_tierIndex = int ?p\<rparr>"
    note found = one_tier_next [of torrent tier ?p url_Parse u, OF al True u]
    from silent obtain e where e: "getPeers unmarshal (net (length sent) (announce_url torrent a u)) = Inl e" "\<not> is_panic e"
      unfolding fails_def by (metis (no_types, lifting) old.sum.exhaust sum.simps(5,6))
    have "(1 :: nat) \<le> 2 ^ k" by simp
    then have two: "(2 :: nat) ^ Suc k - 1 = ?p + ?p + 1" unfolding power_Suc by linarith
    then have "length tier - (2 ^ Suc k - 1) < length tier - ?p" using True by linarith
    from less.hyps [OF this, of "sent @ [?tk]"] obtain asked where
      rest: "tracker_loop url_Parse unmarshal net torrent a (sent @ [?tk]) 0 (int (2 ^ Suc k - 1) - 1)
        = Some (Inl (Errorf ''encoutered error while getting supported tracker''), sent @ ?tk # asked)"
      and idx: "tk_tierIndex ` set asked = int ` doubling (Suc k) (length tier)" by auto
    have "int (2 ^ Suc k - 1) - 1 = (int ?p - 1) + int ?p + 1"
      unfolding two of_nat_add of_nat_1 by (rule ring_sum)
    with rest have "tracker_loop url_Parse unmarshal net torrent a sent 0 (int ?p - 1)
        = Some (Inl (Errorf ''encoutered error while getting supported tracker''), sent @ ?tk # asked)"
      by (subst tracker_loop.simps) (simp only: found e sum.case if_False tracker.simps)
    with idx doubling_step [OF True] show ?thesis by (intro exI [of _ "?tk # asked"]) simp
  qed
qed

section \<open>The query string\<close>

lemma QueryEscape_simps [simp]:
  "QueryEscape [] = []"
  "QueryEscape (c # s) = escape_char c @ QueryEscape s"
  by (simp_all add: QueryEscape_def)

lemma addGetPeersQuery_eq:
  "addGetPeersQuery u torrent peerId port uploaded downloaded left = u\<lparr>url_RawQuery := join_amp
     [''compact=1'', ''downloaded='' @ QueryEscape (itoa downloaded), ''event=started'',
      ''info_hash='' @ QueryEscape (bytes_string (tf_InfoHash torrent)), ''left='' @ QueryEscape (itoa left),
      ''peer_id='' @ QueryEscape peerId, ''port='' @ QueryEscape (itoa (uint port)),
      ''uploaded='' @ QueryEscape (itoa uploaded)]\<rparr>"
proof -
  have one: "itoa 1 = ''1''" by code_simp
  have esc: "QueryEscape ''compact'' = ''compact''" "QueryEscape ''downloaded'' = ''downloaded''"
    "QueryEscape ''event'' = ''event''" "QueryEscape ''info_hash'' = ''info_hash''" "QueryEscape ''left'' = ''left''"
    "QueryEscape ''peer_id'' = ''peer_id''" "QueryEscape ''port'' = ''port''" "QueryEscape ''uploaded'' = ''uploaded''"
    "QueryEscape ''started'' = ''started''" "QueryEscape ''1'' = ''1''"
    by code_simp+
  show ?thesis
    unfolding addGetPeersQuery_def Let_def one
    by (simp add: values_Encode_def esc less_eq_char_def less_char_def del: QueryEscape_simps)
qed

text \<open>What the tracker makes of an escaped value.\<close>

definition hex_value :: "char \<Rightarrow> nat" where
  "hex_value c = (let n = of_char c in if n < 58 then n - 48 else n - 55)"

fun query_unescape :: "string \<Rightarrow> string" where
  "query_unescape [] = []"
| "query_unescape (c # s) =
     (if c = CHR ''%'' then (case s of
          a # b # s' \<Rightarrow> char_of (16 * hex_value a + hex_value b) # query_unescape s'
        | _ \<Rightarrow> [])
      else (if c = CHR ''+'' then CHR '' '' else c) # query_unescape s)"

lemma hex_value_digit: "d < 16 \<Longrightarrow> hex_value (hex_digit d) = d"
  by (simp add: hex_value_def hex_digit_def Let_def)

lemma unreserved_plain: "unreserved c \<Longrightarrow> c \<noteq> CHR ''%'' \<and> c \<noteq> CHR ''+''"
  by (auto simp: unreserved_def Let_def)

lemma char_split: "char_of (16 * (of_char c div 16) + of_char c mod (16 :: nat)) = c"
  by (simp add: mult_div_mod_eq)

lemma high_nibble: "(of_char c :: nat) div 16 < 16"
proof -
  have "(of_char c :: nat) < 16 * 16" by simp
  then show ?thesis by (rule less_mult_imp_div_less)
qed

lemma query_unescape_escape: "query_unescape (QueryEscape s) = s"
proof (induction s)
  case (Cons c s)
  with high_nibble [of c] unreserved_plain [of c] show ?case
    by (simp add: escape_char_def hex_value_digit char_split)
qed simp

lemma hex_digit_unreserved: "d < 16 \<Longrightarrow> unreserved (hex_digit d)"
  by (auto simp: unreserved_def hex_digit_def Let_def)

lemma QueryEscape_chars: "c \<in> set (QueryEscape s) \<Longrightarrow> unreserved c \<or> c = CHR ''+'' \<or> c = CHR ''%''"
proof (induction s)
  case (Cons x s)
  with high_nibble [of x] show ?case by (auto simp: escape_char_def hex_digit_unreserved split: if_splits)
qed simp

lemma QueryEscape_plain: "\<forall>c \<in> set s. unreserved c \<Longrightarrow> QueryEscape s = s"
  by (induction s) (simp_all add: escape_char_def)

lemma QueryEscape_itoa: "QueryEscape (itoa i) = itoa i"
proof (rule QueryEscape_plain)
  have "unreserved (digit_char d)" if "d < 10" for d
    using that by (simp add: unreserved_def digit_char_def)
  then have "\<forall>c \<in> set (dec_nat n). unreserved c" for n using dec_nat_digits [of n] by auto
  then show "\<forall>c \<in> set (itoa i). unreserved c" by (auto simp: itoa_def unreserved_def)
qed

end
