(* ===== verification/Tracker_Properties.thy ===== *)
theory Tracker_Properties
  imports Tracker_Client
begin

text \<open>
  The properties of what comes from outside before a peer is contacted: the torrent file, the
  tracker that is found, the query it gets, the peers it names, and the client's own id.
\<close>

section \<open>Samples\<close>

text \<open>A parser for URLs that begin with the scheme and a colon.\<close>

definition sample_parse :: "string \<Rightarrow> url result" where
  "sample_parse s = Inr \<lparr>url_Scheme = takeWhile (\<lambda>c. c \<noteq> CHR '':'') s, url_base = s, url_ForceQuery = False,
     url_RawQuery = '''', url_fragment = ''''\<rparr>"

definition sample_torrent :: "string list list \<Rightarrow> torrent_file" where
  "sample_torrent al = \<lparr>tf_Announce = ''http://t0'', tf_Name = ''sample'', tf_Comment = '''', tf_CreatedBy = '''',
     tf_CreationDate = 0, tf_Length = 4, tf_PieceLength = 4, tf_PieceHashes = [replicate 20 7],
     tf_InfoHash = replicate 20 97, tf_AnnounceList = al\<rparr>"

definition sample_announce :: announce where
  "sample_announce = \<lparr>an_peerId = ''SH01-ziYDZM5WilvkDy9'', an_port = 1234, an_uploaded = 0,
     an_downloaded = 0, an_left = 666\<rparr>"

definition sample_peers :: "reader \<Rightarrow> bitTorrentPeers result" where
  "sample_peers r = Inr \<lparr>bp_Interval = 900, bp_Peers = [49, 49, 50, 50, 49, 50], bp_Peers6 = []\<rparr>"

definition silent_net :: "nat \<Rightarrow> url \<Rightarrow> get_outcome" where
  "silent_net k u = TimedOut"

lemma silent: "fails (getPeers sample_peers (silent_net k u))"
  by (simp add: fails_def getPeers_def silent_net_def)

section \<open>Properties\<close>

text \<open>C32: The search for a tracker. \<open>GetTrackerFromFile\<close> never returns exactly when the torrent has
  no announce list, its announce URL is well formed and no request to it is ever answered; it then
  repeats the request for ever. With an announce list it returns after at most one request per
  tracker of the list, each to an HTTP tracker of the list.\<close>

theorem tracker_search_returns:
  "(GetTrackerFromFile url_Parse unmarshal net torrent a = None \<longleftrightarrow>
      tf_AnnounceList torrent = [] \<and> (\<exists>ann. url_Parse (tf_Announce torrent) = Inr ann
        \<and> (\<forall>k. fails (ask_announce unmarshal net torrent a ann k))))
    \<and> (tf_AnnounceList torrent \<noteq> [] \<longrightarrow> (\<exists>r asked. GetTrackerFromFile url_Parse unmarshal net torrent a = Some (r, asked)
      \<and> length asked \<le> length (concat (tf_AnnounceList torrent))
      \<and> (\<forall>tk \<in> set asked. tracker_of url_Parse torrent tk)))"
proof -
  have listed: "\<exists>r asked. GetTrackerFromFile url_Parse unmarshal net torrent a = Some (r, asked)
      \<and> length asked \<le> length (concat (tf_AnnounceList torrent))
      \<and> (\<forall>tk \<in> set asked. tracker_of url_Parse torrent tk)" if "tf_AnnounceList torrent \<noteq> []"
    using tracker_loop_ends [of torrent 0 "-1" url_Parse unmarshal net a "[]", OF that] that
    by (cases "tf_AnnounceList torrent") (simp_all add: GetTrackerFromFile_def ahead_def)
  have "GetTrackerFromFile url_Parse unmarshal net torrent a = None \<longleftrightarrow>
      tf_AnnounceList torrent = [] \<and> (\<exists>ann. url_Parse (tf_Announce torrent) = Inr ann
        \<and> (\<forall>k. fails (ask_announce unmarshal net torrent a ann k)))"
  proof (cases "tf_AnnounceList torrent = []")
    case False
    with listed show ?thesis by auto
  next
    case True
    show ?thesis
    proof (cases "url_Parse (tf_Announce torrent)")
      case (Inl e)
      with True show ?thesis
        unfolding GetTrackerFromFile_def by (subst tracker_loop.simps) (simp add: getFirstSupportedTracker_def)
    next
      case (Inr ann)
      have "tracker_loop url_Parse unmarshal net torrent a [] 0 (-1) = None
          \<longleftrightarrow> (\<forall>k. fails (ask_announce unmarshal net torrent a ann k))"
        using announce_unanswered [of torrent url_Parse ann unmarshal net a "[]" 0 "-1", OF True Inr]
          announce_answered [of torrent url_Parse ann unmarshal net a "[]" _ 0 "-1", OF True Inr]
        by (metis add_0 list.size(3))
      with True Inr show ?thesis by (simp add: GetTrackerFromFile_def)
    qed
  qed
  with listed show ?thesis by blast
qed

theorem tracker_search_returns_witness:
  "GetTrackerFromFile sample_parse sample_peers silent_net (sample_torrent []) sample_announce = None
   \<and> (\<exists>r asked. GetTrackerFromFile sample_parse sample_peers silent_net
        (sample_torrent [[''udp://t1'', ''http://t2''], [''http://t3'']]) sample_announce = Some (r, asked)
      \<and> length asked \<le> 3)"
proof
  have "sample_parse (tf_Announce (sample_torrent [])) = Inr (projr (sample_parse ''http://t0''))"
    by (simp add: sample_parse_def sample_torrent_def)
  then show "GetTrackerFromFile sample_parse sample_peers silent_net (sample_torrent []) sample_announce = None"
    using tracker_search_returns [of sample_parse sample_peers silent_net "sample_torrent []" sample_announce]
    by (auto simp: ask_announce_def silent) (simp add: sample_torrent_def)
  show "\<exists>r asked. GetTrackerFromFile sample_parse sample_peers silent_net
        (sample_torrent [[''udp://t1'', ''http://t2''], [''http://t3'']]) sample_announce = Some (r, asked) \<and> length asked \<le> 3"
    using tracker_search_returns [of sample_parse sample_peers silent_net
        "sample_torrent [[''udp://t1'', ''http://t2''], [''http://t3'']]" sample_announce]
    by (auto simp: sample_torrent_def)
qed

text \<open>C33: The trackers that are skipped. In a tier of \<open>n\<close> HTTP trackers of which none answers, exactly
  the trackers at the positions 0, 1, 3, 7, 15, ... below \<open>n\<close> are asked before the search gives up.\<close>

theorem silent_tier_asks_doubling_positions:
  assumes "tf_AnnounceList torrent = [tier]"
    and "\<forall>p < length tier. \<exists>u. url_Parse (tier ! p) = Inr u \<and> url_Scheme u = ''http''"
    and "\<forall>k u. fails (getPeers unmarshal (net k u))"
  shows "\<exists>asked. GetTrackerFromFile url_Parse unmarshal net torrent a
      = Some (Inl (Errorf ''encoutered error while getting supported tracker''), asked)
    \<and> tk_tierIndex ` set asked = int ` {2 ^ j - 1 | j. 2 ^ j - 1 < length tier}"
  using silent_tier_skips [of torrent tier url_Parse unmarshal net a "[]" 0, OF assms]
  by (simp add: GetTrackerFromFile_def doubling_def)

theorem silent_tier_asks_doubling_positions_witness:
  "\<exists>asked. GetTrackerFromFile sample_parse sample_peers silent_net
        (sample_torrent [[''http://t0'', ''http://t1'', ''http://t2'']]) sample_announce
      = Some (Inl (Errorf ''encoutered error while getting supported tracker''), asked)
    \<and> tk_tierIndex ` set asked = int ` {2 ^ j - 1 | j. 2 ^ j - 1 < length [''http://t0'', ''http://t1'', ''http://t2'']}"
proof (rule silent_tier_asks_doubling_positions)
  have "\<forall>u \<in> set [''http://t0'', ''http://t1'', ''http://t2'']. \<exists>v. sample_parse u = Inr v \<and> url_Scheme v = ''http''"
    by (simp add: sample_parse_def)
  then show "\<forall>p < length [''http://t0'', ''http://t1'', ''http://t2''].
      \<exists>u. sample_parse ([''http://t0'', ''http://t1'', ''http://t2''] ! p) = Inr u \<and> url_Scheme u = ''http''"
    by (simp only: all_set_conv_all_nth)
qed (simp_all add: sample_torrent_def silent)

text \<open>C34: The announce. The query gives the tracker eight parameters in the order of their names, and
  the tracker reads back every value as it was sent: no escaped value contains a separator, and
  unescaping gives the 20 bytes of the info hash and the peer id; numbers are in plain decimal.\<close>

theorem announce_query_readable:
  "\<exists>h i. announce_url torrent a u = u\<lparr>url_RawQuery := join_amp
       [''compact=1'', ''downloaded='' @ itoa (an_downloaded a), ''event=started'', ''info_hash='' @ h,
        ''left='' @ itoa (an_left a), ''peer_id='' @ i, ''port='' @ itoa (uint (an_port a)),
        ''uploaded='' @ itoa (an_uploaded a)]\<rparr>
    \<and> query_unescape h = map (\<lambda>b. char_of (unat b)) (tf_InfoHash torrent)
    \<and> query_unescape i = an_peerId a
    \<and> {CHR ''&'', CHR ''='', CHR ''#'', CHR '' ''} \<inter> set (h @ i) = {}"
proof -
  let ?h = "QueryEscape (bytes_string (tf_InfoHash torrent))" and ?i = "QueryEscape (an_peerId a)"
  have "c \<notin> {CHR ''&'', CHR ''='', CHR ''#'', CHR '' ''}" if "c \<in> set (?h @ ?i)" for c
    using QueryEscape_chars [of c] that by (auto simp: unreserved_def Let_def)
  then have "{CHR ''&'', CHR ''='', CHR ''#'', CHR '' ''} \<inter> set (?h @ ?i) = {}" by blast
  then show ?thesis
    by (intro exI [of _ ?h] exI [of _ ?i])
      (simp add: announce_url_def addGetPeersQuery_eq query_unescape_escape QueryEscape_itoa bytes_string_def)
qed

text \<open>C35: The peers a tracker names. A compact peer list is decoded to the addresses and ports it was
  made of, one port per address; a list that is no multiple of six bytes is refused.\<close>

theorem compact_peers_decoded:
  assumes "unmarshal body = Inr p"
  shows "(bp_Peers p = compact peers \<and> (\<forall>q \<in> set peers. length (fst q) = 4) \<longrightarrow>
      DecodePeerInformation unmarshal body
        = Inr \<lparr>ti_Tracker = None, ti_Interval = bp_Interval p, ti_IPs = map fst peers, ti_Ports = map snd peers\<rparr>)
    \<and> (\<not> 6 dvd length (bp_Peers p) \<longrightarrow>
      DecodePeerInformation unmarshal body = Inl (Errorf ''peers array has to be divisible by 6''))"
proof (intro conjI impI)
  assume "bp_Peers p = compact peers \<and> (\<forall>q \<in> set peers. length (fst q) = 4)"
  moreover from this have "length (compact peers) = 6 * length peers" by (simp add: length_compact)
  ultimately show "DecodePeerInformation unmarshal body
      = Inr \<lparr>ti_Tracker = None, ti_Interval = bp_Interval p, ti_IPs = map fst peers, ti_Ports = map snd peers\<rparr>"
    using assms peer_loop_compact [of "[]" 0 peers "replicate (length peers) []" "replicate (length peers) 0"]
    by (simp add: DecodePeerInformation_def)
next
  assume "\<not> 6 dvd length (bp_Peers p)"
  then have "int (length (bp_Peers p)) mod 6 \<noteq> 0" by presburger
  with assms show "DecodePeerInformation unmarshal body = Inl (Errorf ''peers array has to be divisible by 6'')"
    by (simp add: DecodePeerInformation_def)
qed

theorem compact_peers_decoded_witness:
  "DecodePeerInformation sample_peers \<lparr>rd_data = [], rd_end = EOF, rd_chunks = []\<rparr>
    = Inr \<lparr>ti_Tracker = None, ti_Interval = 900, ti_IPs = [[49, 49, 50, 50]], ti_Ports = [12594]\<rparr>"
  using compact_peers_decoded [of sample_peers "\<lparr>rd_data = [], rd_end = EOF, rd_chunks = []\<rparr>"
      "\<lparr>bp_Interval = 900, bp_Peers = [49, 49, 50, 50, 49, 50], bp_Peers6 = []\<rparr>" "[([49, 49, 50, 50], 12594)]"]
  by (simp add: sample_peers_def compact_def be_put16_def)

text \<open>The metadata. A torrent file that unmarshals, whose hashes are whole blocks of 20 bytes and whose
  info dictionary marshals is accepted: the piece hashes are these blocks in their order, the info hash is that of the marshalled info dictionary, and every tier of the announce list
  keeps its trackers, in some order.\<close>

lemma metadata_decoded:
  assumes "unmarshal file = Inr bt" and "marshal (bt_Info bt) = Inr encoded" and "shuffler perm"
    and "bi_Pieces (bt_Info bt) = concat hashes" and "\<forall>h \<in> set hashes. length h = 20"
  shows "\<exists>t. DecodeTorrentFile unmarshal marshal sha1 perm file = Inr t \<and> tf_PieceHashes t = hashes
    \<and> tf_InfoHash t = sha1 encoded \<and> map mset (tf_AnnounceList t) = map mset (bt_AnnounceList bt)
    \<and> tf_Length t = bi_Length (bt_Info bt) \<and> tf_PieceLength t = bi_PieceLength (bt_Info bt)
    \<and> tf_Name t = bi_Name (bt_Info bt) \<and> tf_Announce t = bt_Announce bt"
proof -
  have "length (concat hashes) = 20 * length hashes"
    using assms(5) by (induction hashes) simp_all
  moreover have "hash_loop (concat hashes) (length hashes) 0 (replicate (length hashes) (replicate 20 0)) = Inr hashes"
    using hash_loop_blocks [of "[]" 0 hashes "replicate (length hashes) (replicate 20 0)"] assms(5) by auto
  ultimately show ?thesis
    using assms shuffler.randomized_tiers [OF assms(3)] by (simp add: DecodeTorrentFile_def computeInfoHash_def Let_def)
qed

text \<open>C36: The client's own id: always 20 characters, \<open>SH01-\<close> and 15 letters or digits.\<close>

theorem peer_id_well_formed:
  assumes "intn_in_range randIntn"
  shows "\<exists>s. MakePeerId randIntn = Inr (''SH01-'' @ s) \<and> length (''SH01-'' @ s) = 20 \<and> set s \<subseteq> set letterRunes"
proof -
  obtain s where "MakeRandomString randIntn 15 = Inr s" "length s = 15" "set s \<subseteq> set letterRunes"
    using MakeRandomString_spec [OF assms, of 15] by auto
  then show ?thesis by (simp add: MakePeerId_def ClientId_def)
qed

theorem peer_id_well_formed_witness:
  "\<exists>s. MakePeerId (\<lambda>k n. (k + 10) mod n) = Inr (''SH01-'' @ s) \<and> length (''SH01-'' @ s) = 20 \<and> set s \<subseteq> set letterRunes"
  by (rule peer_id_well_formed) (simp add: intn_in_range_def)
end
