(* ===== verification/Main_Client.thy ===== *)
theory Main_Client
  imports Session_Events Local_Store Connections Choke Tracker_Client
begin

text \<open>
  \<open>Main\<close> of \<open>client/client.go\<close>: what is done before the main loop, the cases of its
  \<open>select\<close>, the code after the \<open>select\<close>, and what is done after the loop. The pieces
  of the earlier theories are put together here: the store, the pool, the choke algorithm and the
  tracker client. \<open>os.Exit\<close> and a panic are the left summand of a result; \<open>None\<close> stands
  for a search for a tracker that never ends.
\<close>

section \<open>The state of the main goroutine\<close>

text \<open>What stays fixed while the client runs: parameters and what was computed at the start.\<close>

record config =
  cf_torrent :: torrent_file
  cf_peerId :: string
  cf_port :: "16 word"
  cf_parse :: "string \<Rightarrow> url result"
  cf_unmarshal :: "reader \<Rightarrow> bitTorrentPeers result"
  cf_savedNumber :: int
  cf_savedPieces :: bitfield

record main_state =
  mn_results :: results
  mn_comms :: communication
  mn_conns :: connections
  mn_generosity :: "string \<Rightarrow> int option"
  mn_interested :: "string \<Rightarrow> bool option"
  mn_uploaded :: int
  mn_tracker :: tracker_information
  mn_saved :: bool
  mn_fs :: fs

definition maximumDownloaders :: int where
  "maximumDownloaders = 20"

section \<open>Before the loop\<close>

definition open_torrent ::
    "(reader \<Rightarrow> bitTorrentFile result) \<Rightarrow> (bitTorrentInfo \<Rightarrow> byte list result) \<Rightarrow> (byte list \<Rightarrow> hash)
      \<Rightarrow> (nat \<Rightarrow> nat \<Rightarrow> nat list) \<Rightarrow> fs \<Rightarrow> string \<Rightarrow> torrent_file result" where
  "open_torrent unmarshal marshal sha1 perm fs filename =
     (if \<not> os_Stat fs filename then Inl (Errorf ''file does not exist'')
      else case os_Open fs filename of
        Inl e \<Rightarrow> Inl (Errorf ''error while opening a file'')
      | Inr torrentFile \<Rightarrow> (case DecodeTorrentFile unmarshal marshal sha1 perm torrentFile of
          Inl e \<Rightarrow> Inl (rewrap ''error while decoding the .torrent file'' e)
        | Inr torrent \<Rightarrow>
            if tf_Length torrent = 0 then Inl (Errorf ''unsupported .torrent file, key length is missing'')
            else Inr torrent))"

text \<open>The loop that queues an order for every missing piece, in the order of the permutation.\<close>

fun order_loop :: "torrent_file \<Rightarrow> results \<Rightarrow> nat list \<Rightarrow> piece_order list \<Rightarrow> piece_order list result" where
  "order_loop t res [] orders = Inr orders"
| "order_loop t res (r # rs) orders = (case bf_Get (rs_Bitfield res) (int r) of
     Inl e \<Rightarrow> Inl (rewrap ''error while checking bitfield'' e)
   | Inr True \<Rightarrow> order_loop t res rs orders
   | Inr False \<Rightarrow> (case go_index (tf_PieceHashes t) (int r) of
       Inl e \<Rightarrow> Inl e
     | Inr h \<Rightarrow> order_loop t res rs
         (ch_send \<lparr>po_Index = int r, po_Length = tf_PieceLength t, po_Hash = h\<rparr> orders)))"

definition make_orders :: "torrent_file \<Rightarrow> results \<Rightarrow> (nat \<Rightarrow> nat list) \<Rightarrow> piece_order list result" where
  "make_orders t res perm = bind_result (GetNumberOfPieces t) (\<lambda>n.
     if n < 0 then Inl (Panic MakeSlice) else order_loop t res (perm (nat n)) [])"

definition comms_start :: "piece_order list \<Rightarrow> communication" where
  "comms_start orders = \<lparr>cm_Orders = orders, cm_Results = [], cm_PeerInterested = [], cm_ConnectionEnded = [],
     cm_Uploaded = []\<rparr>"

text \<open>From the torrent to the state in which the main loop starts.\<close>

definition main_start ::
    "(byte list \<Rightarrow> hash) \<Rightarrow> (string \<Rightarrow> url result) \<Rightarrow> (reader \<Rightarrow> bitTorrentPeers result) \<Rightarrow> (nat \<Rightarrow> url \<Rightarrow> get_outcome)
      \<Rightarrow> (nat \<Rightarrow> nat list) \<Rightarrow> string \<Rightarrow> 16 word \<Rightarrow> torrent_file \<Rightarrow> fs \<Rightarrow> (config \<times> main_state) result option" where
  "main_start sha1 url_Parse unmarshal net perm peerId port t fs =
     (case results_start t of
        Inl e \<Rightarrow> Some (Inl e)
      | Inr res0 \<Rightarrow> (case loadFromFile sha1 t fs res0 of
          (Inl e, res) \<Rightarrow> Some (Inl (rewrap ''error while loading data from downloaded files'' e))
        | (Inr alreadySavedFinalFile, res) \<Rightarrow>
            (case (if alreadySavedFinalFile then deletePartialFiles t fs else (None, fs)) of
               (Some (Panic p), fs1) \<Rightarrow> Some (Inl (Panic p))
             | (_, fs1) \<Rightarrow>
                 let a = \<lparr>an_peerId = peerId, an_port = port, an_uploaded = 0, an_downloaded = rs_TotalLength res,
                          an_left = tf_Length t - rs_TotalLength res\<rparr>
                 in (case GetTrackerFromFile url_Parse unmarshal net t a of
                      None \<Rightarrow> None
                    | Some (Inl e, asked) \<Rightarrow> Some (Inl (rewrap ''error while retrieving peers from tracker'' e))
                    | Some (Inr trackerInfo, asked) \<Rightarrow> (case make_orders t res perm of
                        Inl e \<Rightarrow> Some (Inl e)
                      | Inr orders \<Rightarrow> Some (Inr
                          (\<lparr>cf_torrent = t, cf_peerId = peerId, cf_port = port, cf_parse = url_Parse,
                            cf_unmarshal = unmarshal, cf_savedNumber = rs_PiecesDone res,
                            cf_savedPieces = bf_Copy (rs_Bitfield res)\<rparr>,
                           \<lparr>mn_results = res, mn_comms = comms_start orders,
                            mn_conns = \<lparr>cs_peers = [], cs_blacklist = (\<lambda>x. None)\<rparr>,
                            mn_generosity = (\<lambda>x. None), mn_interested = (\<lambda>x. None), mn_uploaded = 0,
                            mn_tracker = trackerInfo, mn_saved = alreadySavedFinalFile, mn_fs = fs1\<rparr>)))))))"

definition first_launch :: "config \<Rightarrow> dialer \<Rightarrow> int \<Rightarrow> main_state \<Rightarrow> (addr list \<times> main_state) result" where
  "first_launch cf dial now m =
     (if rs_PiecesDone (mn_results m) \<noteq> num_hashes (cf_torrent cf)
      then (case launchClients dial now maximumDownloaders (mn_tracker m) (mn_conns m) of
          (Inl e, c) \<Rightarrow> Inl e
        | (Inr as, c) \<Rightarrow> Inr (as, m\<lparr>mn_conns := c\<rparr>))
      else Inr ([], m))"

section \<open>The cases of the select\<close>

text \<open>A verified piece arrives; an error of the bit field is only logged.\<close>

definition take_piece :: "piece \<Rightarrow> main_state \<Rightarrow> main_state result" where
  "take_piece p m = bind_result (go_index (rs_Pieces (mn_results m)) (pc_Index p)) (\<lambda>old.
     let res = mn_results m;
         res1 = res\<lparr>rs_Pieces := (rs_Pieces res)[nat (pc_Index p) := Some p], rs_PiecesDone := rs_PiecesDone res + 1\<rparr>;
         gen = mn_generosity m
     in bind_result (case bf_Set (rs_Bitfield res1) (pc_Index p) True of
            Inl e \<Rightarrow> if is_panic e then Inl e else Inr res1
          | Inr b \<Rightarrow> Inr (res1\<lparr>rs_Bitfield := b\<rparr>)) (\<lambda>res2.
          Inr (m\<lparr>mn_results := res2,
                 mn_generosity := (case gen (pc_From p) of
                   Some n \<Rightarrow> gen(pc_From p \<mapsto> n + 1) | None \<Rightarrow> gen(pc_From p \<mapsto> 1))\<rparr>)))"

text \<open>The channel of a connection holds one list; a peer that has not read the last one misses this one.\<close>

definition offer_unchoke :: "string list \<Rightarrow> connection \<Rightarrow> connection" where
  "offer_unchoke ids c = (if cn_unchoke c = [] then c\<lparr>cn_unchoke := [ids]\<rparr> else c)"

type_synonym sorter = "(string \<times> int \<Rightarrow> string \<times> int \<Rightarrow> bool) \<Rightarrow> (string \<times> int) list \<Rightarrow> (string \<times> int) list"

definition choke_tick :: "sorter \<Rightarrow> (nat \<Rightarrow> nat) \<Rightarrow> string list \<Rightarrow> string list \<Rightarrow> main_state \<Rightarrow> main_state result" where
  "choke_tick srt rnd iorder gorder m =
     bind_result (chokeAlgorithm srt rnd iorder gorder (mn_generosity m) (mn_interested m)) (\<lambda>unchokedPeers.
       Inr (m\<lparr>mn_conns := (mn_conns m)\<lparr>cs_peers := map (offer_unchoke unchokedPeers) (cs_peers (mn_conns m))\<rparr>\<rparr>))"

text \<open>The result says whether the loop is to end: no tracker can be reached any more.\<close>

definition tracker_tick ::
    "config \<Rightarrow> (url \<Rightarrow> get_outcome) \<Rightarrow> (nat \<Rightarrow> url \<Rightarrow> get_outcome) \<Rightarrow> main_state \<Rightarrow> (bool \<times> main_state) result option" where
  "tracker_tick cf get net m =
     (let t = cf_torrent cf;
          a = \<lparr>an_peerId = cf_peerId cf, an_port = cf_port cf, an_uploaded = mn_uploaded m * tf_PieceLength t,
               an_downloaded = (rs_PiecesDone (mn_results m) - cf_savedNumber cf) * tf_PieceLength t,
               an_left = tf_Length t - rs_PiecesDone (mn_results m) * tf_PieceLength t\<rparr>
      in case ti_Tracker (mn_tracker m) of
           None \<Rightarrow> Some (Inl (Panic NilDereference))
         | Some u \<Rightarrow> (case UpdateTracker (cf_unmarshal cf) get u t a of
             Inr info \<Rightarrow> Some (Inr (False, m\<lparr>mn_tracker := info\<rparr>))
           | Inl (Panic p) \<Rightarrow> Some (Inl (Panic p))
           | Inl e \<Rightarrow> (case GetTrackerFromFile (cf_parse cf) (cf_unmarshal cf) net t a of
               None \<Rightarrow> None
             | Some (Inr info, asked) \<Rightarrow> Some (Inr (False, m\<lparr>mn_tracker := info\<rparr>))
             | Some (Inl (Panic p), asked) \<Rightarrow> Some (Inl (Panic p))
             | Some (Inl e', asked) \<Rightarrow> Some (Inr (True, m\<lparr>mn_tracker :=
                 \<lparr>ti_Tracker = None, ti_Interval = 0, ti_IPs = [], ti_Ports = []\<rparr>\<rparr>)))))"

datatype main_event =
    Interrupted
  | LoggingTick
  | PieceArrived
  | ChokeTick sorter "nat \<Rightarrow> nat" "string list" "string list"
  | TrackerTick "url \<Rightarrow> get_outcome" "nat \<Rightarrow> url \<Rightarrow> get_outcome"
  | InterestChanged
  | ChunkUploaded

text \<open>
  A receive is chosen only when its channel holds something: \<open>select_ready\<close>.
\<close>

fun select_ready :: "main_event \<Rightarrow> main_state \<Rightarrow> bool" where
  "select_ready PieceArrived m = (cm_Results (mn_comms m) \<noteq> [])"
| "select_ready InterestChanged m = (cm_PeerInterested (mn_comms m) \<noteq> [])"
| "select_ready ChunkUploaded m = (cm_Uploaded (mn_comms m) \<noteq> [])"
| "select_ready ev m = True"

fun main_select :: "config \<Rightarrow> main_event \<Rightarrow> main_state \<Rightarrow> (bool \<times> main_state) result option" where
  "main_select cf Interrupted m = Some (Inr (True, m))"
| "main_select cf LoggingTick m = Some (Inr (False, m))"
| "main_select cf PieceArrived m = (case cm_Results (mn_comms m) of
     [] \<Rightarrow> Some (Inr (False, m))
   | p # ps \<Rightarrow> Some (bind_result (take_piece p (m\<lparr>mn_comms := (mn_comms m)\<lparr>cm_Results := ps\<rparr>\<rparr>)) (\<lambda>m1. Inr (False, m1))))"
| "main_select cf (ChokeTick srt rnd iorder gorder) m =
     Some (bind_result (choke_tick srt rnd iorder gorder m) (\<lambda>m1. Inr (False, m1)))"
| "main_select cf (TrackerTick get net) m = tracker_tick cf get net m"
| "main_select cf InterestChanged m = (case cm_PeerInterested (mn_comms m) of
     [] \<Rightarrow> Some (Inr (False, m))
   | (i, b) # is \<Rightarrow> Some (Inr (False, m\<lparr>mn_comms := (mn_comms m)\<lparr>cm_PeerInterested := is\<rparr>,
       mn_interested := (mn_interested m)(i \<mapsto> b)\<rparr>)))"
| "main_select cf ChunkUploaded m = (case cm_Uploaded (mn_comms m) of
     [] \<Rightarrow> Some (Inr (False, m))
   | k # ks \<Rightarrow> Some (Inr (False, m\<lparr>mn_comms := (mn_comms m)\<lparr>cm_Uploaded := ks\<rparr>, mn_uploaded := mn_uploaded m + 1\<rparr>)))"

section \<open>After the select\<close>

definition update_online :: "int \<Rightarrow> main_state \<Rightarrow> main_state" where
  "update_online now m =
     (case updateOnlineConnections now (mn_conns m) (mn_comms m) (mn_generosity m) (mn_interested m) of
        (c, cm, gen, intr) \<Rightarrow> m\<lparr>mn_conns := c, mn_comms := cm, mn_generosity := gen, mn_interested := intr\<rparr>)"

text \<open>The addresses are those of the connections a \<open>leech\<close> goroutine is started on.\<close>

definition relaunch :: "config \<Rightarrow> dialer \<Rightarrow> int \<Rightarrow> main_state \<Rightarrow> (addr list \<times> main_state) result" where
  "relaunch cf dial now m =
     (let open_now = int (length (cs_peers (mn_conns m))) in
      if rs_PiecesDone (mn_results m) \<noteq> num_hashes (cf_torrent cf) \<and> open_now < maximumDownloaders
      then (case launchClients dial now (maximumDownloaders - open_now) (mn_tracker m) (mn_conns m) of
          (Inl e, c) \<Rightarrow> Inl e
        | (Inr as, c) \<Rightarrow> Inr (as, m\<lparr>mn_conns := c\<rparr>))
      else Inr ([], m))"

definition os_Create :: "fs \<Rightarrow> string \<Rightarrow> nat option list \<Rightarrow> wstream result \<times> fs" where
  "os_Create fs name script = (case fs name of
     Some Denied \<Rightarrow> (Inl IOError, fs)
   | _ \<Rightarrow> (Inr \<lparr>w_out = [], w_script = script\<rparr>, fs(name \<mapsto> File [])))"

text \<open>
  The file is written when the last piece is there. What \<open>file.Save\<close> returns is not looked at;
  when the file cannot be created the code goes on with a nil file and panics on its name.
\<close>

definition save_final :: "torrent_file \<Rightarrow> nat option list \<Rightarrow> piece option list \<Rightarrow> fs \<Rightarrow> unit result \<times> fs" where
  "save_final t script pieces fs = (case os_Create fs (tf_Name t) script of
     (Inl e, fs1) \<Rightarrow> (Inl (Panic NilDereference), fs1)
   | (Inr w, fs1) \<Rightarrow> (case Save w pieces of (err, w1) \<Rightarrow>
       let fs2 = fs1(tf_Name t \<mapsto> File (w_out w1)) in
       (case err of
          Some (Panic p) \<Rightarrow> (Inl (Panic p), fs2)
        | _ \<Rightarrow> (case deletePartialFiles t fs2 of
            (Some (Panic p), fs3) \<Rightarrow> (Inl (Panic p), fs3)
          | (_, fs3) \<Rightarrow> (Inr (), fs3)))))"

definition save_when_done :: "config \<Rightarrow> nat option list \<Rightarrow> main_state \<Rightarrow> main_state result" where
  "save_when_done cf script m =
     (if rs_PiecesDone (mn_results m) = num_hashes (cf_torrent cf) \<and> \<not> mn_saved m
      then (case save_final (cf_torrent cf) script (rs_Pieces (mn_results m)) (mn_fs m) of
          (Inl e, fs1) \<Rightarrow> Inl e
        | (Inr u, fs1) \<Rightarrow> Inr (m\<lparr>mn_saved := True, mn_fs := fs1\<rparr>))
      else Inr m)"

text \<open>
  One round of the main loop: whether it ends, the connections it starts, the new state.
\<close>

definition main_iter ::
    "config \<Rightarrow> dialer \<Rightarrow> int \<Rightarrow> nat option list \<Rightarrow> main_event \<Rightarrow> main_state
      \<Rightarrow> (loop_status \<times> addr list \<times> main_state) result option" where
  "main_iter cf dial now script ev m = (case main_select cf ev m of
     None \<Rightarrow> None
   | Some (Inl e) \<Rightarrow> Some (Inl e)
   | Some (Inr (exit, m1)) \<Rightarrow>
       let m2 = update_online now m1 in
       if exit then Some (Inr (Ended, [], m2))
       else Some (bind_result (relaunch cf dial now m2) (\<lambda>(as, m3).
         bind_result (save_when_done cf script m3) (\<lambda>m4. Inr (Looping, as, m4)))))"

section \<open>After the loop\<close>

definition main_finish :: "config \<Rightarrow> (nat \<Rightarrow> nat option list) \<Rightarrow> main_state \<Rightarrow> main_state result" where
  "main_finish cf script m = bind_result
     (if \<not> mn_saved m then bind_result (GetNumberOfPieces (cf_torrent cf)) (\<lambda>n. Inr (cf_savedNumber cf < n)) else Inr False)
     (\<lambda>incomplete. if incomplete
        then (case savePartialFiles (cf_torrent cf) (mn_results m) (cf_savedPieces cf) script (mn_fs m) of
            (Some (Panic p), fs1) \<Rightarrow> Inl (Panic p)
          | (_, fs1) \<Rightarrow> Inr (m\<lparr>mn_fs := fs1\<rparr>))
        else Inr m)"

end
