(* ===== verification/Swarm.thy ===== *)
theory Swarm
  imports Main_Client
begin

text \<open>
  The whole client: the main goroutine and the session goroutines it starts, as a step relation
  on a state that holds the main state and the list of the running sessions. The goroutines share
  the channels, the results and the pool; a step is one round of one goroutine. What peers, the
  network, the clock and the trackers do is not constrained. The locales say what an invariant of a
  step relation is, and a refinement by an abstract one.
\<close>

section \<open>The goroutines seed and leech\<close>

datatype side = Seed | Leech

text \<open>
  \<open>seed\<close> and \<open>leech\<close> up to the communication loop: a handshake that fails is reported to
  the main goroutine under the id \<open>unknown\<close>. The context always carries the peer id.
\<close>

definition enter_loop ::
    "addr \<Rightarrow> communication \<Rightarrow> peer result \<times> conn \<Rightarrow> (session option \<times> communication) result" where
  "enter_loop a cm shaken = (case shaken of
     (Inl e, c1) \<Rightarrow>
       if is_panic e then Inl e
       else Inr (None, cm\<lparr>cm_ConnectionEnded := ch_send (''unknown'', a) (cm_ConnectionEnded cm)\<rparr>)
   | (Inr p, c1) \<Rightarrow> Inr (Some (session_start p (c_wr c1)), cm))"

definition seed :: "conn \<Rightarrow> torrent_file \<Rightarrow> results \<Rightarrow> string \<Rightarrow> communication \<Rightarrow> (session option \<times> communication) result" where
  "seed c t res peerId cm = enter_loop (c_addr c) cm (AcceptConnection c t res peerId)"

definition leech :: "conn \<Rightarrow> torrent_file \<Rightarrow> results \<Rightarrow> string \<Rightarrow> communication \<Rightarrow> (session option \<times> communication) result" where
  "leech c t res peerId cm = enter_loop (c_addr c) cm (InitiateConnection c t res peerId)"

definition open_session ::
    "side \<Rightarrow> conn \<Rightarrow> torrent_file \<Rightarrow> results \<Rightarrow> string \<Rightarrow> communication \<Rightarrow> (session option \<times> communication) result" where
  "open_session side c t res peerId cm =
     (case side of Seed \<Rightarrow> seed c t res peerId cm | Leech \<Rightarrow> leech c t res peerId cm)"

lemmas open_session_defs = open_session_def seed_def leech_def enter_loop_def

lemma handshake_peer:
  "AcceptConnection c t res peerId = (Inr p, c1) \<Longrightarrow> bf_wf (pr_Bitfield p)"
  "InitiateConnection c t res peerId = (Inr p, c1) \<Longrightarrow> bf_wf (pr_Bitfield p)"
  by (auto simp: AcceptConnection_def InitiateConnection_def acceptHandshake_def bf_wf_def
      split: prod.splits sum.splits option.splits if_splits)

section \<open>Steps\<close>

text \<open>
  The goroutines that were started and have not shaken hands yet, by their side and the address of
  their connection, and those in the communication loop.
\<close>

record swarm =
  sw_main :: main_state
  sw_pending :: "(side \<times> addr) list"
  sw_sessions :: "session list"

text \<open>
  The channel a session gets the lists of unchoked peers from is the one of its connection in the
  pool; nobody closes it.
\<close>

fun event_ready :: "event \<Rightarrow> session \<Rightarrow> connections \<Rightarrow> bool" where
  "event_ready (Unchoke ids) s c =
     list_ex (\<lambda>p. addr_same (cn_ip p) (pr_Addr (ss_peer s)) \<and> take 1 (cn_unchoke p) = [ids]) (cs_peers c)"
| "event_ready UnchokeClosed s c = False"
| "event_ready ev s c = True"

fun take_unchoke :: "event \<Rightarrow> session \<Rightarrow> connections \<Rightarrow> connections" where
  "take_unchoke (Unchoke ids) s c = c\<lparr>cs_peers := map (\<lambda>p.
     if addr_same (cn_ip p) (pr_Addr (ss_peer s)) then p\<lparr>cn_unchoke := tl (cn_unchoke p)\<rparr> else p) (cs_peers c)\<rparr>"
| "take_unchoke ev s c = c"

text \<open>
  Dialling and accepting give new address objects: \<open>dial_fresh\<close>, \<open>fresh_addr\<close>. A round of the main
  goroutine shows the time, the case of the \<open>select\<close> and the addresses it started a leech on.
\<close>

inductive main_round :: "config \<Rightarrow> int \<Rightarrow> main_event \<Rightarrow> addr list \<Rightarrow> swarm \<Rightarrow> swarm \<Rightarrow> bool" for cf :: config where
  round_main:
    "select_ready ev m \<Longrightarrow> dial_fresh dial (mn_conns m) \<Longrightarrow>
      main_iter cf dial now script ev m = Some (Inr (Looping, as, m')) \<Longrightarrow>
      main_round cf now ev as \<lparr>sw_main = m, sw_pending = pd, sw_sessions = ss\<rparr>
        \<lparr>sw_main = m', sw_pending = pd @ map (Pair Leech) as, sw_sessions = ss\<rparr>"

inductive goroutine_round :: "(byte list \<Rightarrow> hash) \<Rightarrow> config \<Rightarrow> swarm \<Rightarrow> swarm \<Rightarrow> bool"
  for sha1 :: "byte list \<Rightarrow> hash" and cf :: config where
  round_listen:
    "fresh_addr (mn_conns m) a \<Longrightarrow> listen_round (Some a) (mn_conns m) = (Inr started, cs) \<Longrightarrow>
      goroutine_round sha1 cf \<lparr>sw_main = m, sw_pending = pd, sw_sessions = ss\<rparr>
        \<lparr>sw_main = m\<lparr>mn_conns := cs\<rparr>,
         sw_pending = pd @ (case started of None \<Rightarrow> [] | Some b \<Rightarrow> [(Seed, b)]), sw_sessions = ss\<rparr>"
| round_open:
    "open_session side c (cf_torrent cf) (mn_results m) (cf_peerId cf) (mn_comms m) = Inr (Some s, cm) \<Longrightarrow>
      goroutine_round sha1 cf \<lparr>sw_main = m, sw_pending = pd1 @ (side, c_addr c) # pd2, sw_sessions = ss\<rparr>
        \<lparr>sw_main = m\<lparr>mn_comms := cm\<rparr>, sw_pending = pd1 @ pd2, sw_sessions = ss @ [s]\<rparr>"
| round_refused:
    "open_session side c (cf_torrent cf) (mn_results m) (cf_peerId cf) (mn_comms m) = Inr (None, cm) \<Longrightarrow>
      goroutine_round sha1 cf \<lparr>sw_main = m, sw_pending = pd1 @ (side, c_addr c) # pd2, sw_sessions = ss\<rparr>
        \<lparr>sw_main = m\<lparr>mn_comms := cm\<rparr>, sw_pending = pd1 @ pd2, sw_sessions = ss\<rparr>"
| round_session:
    "event_ready ev s (mn_conns m) \<Longrightarrow>
      session_iter sha1 (cf_torrent cf) (rs_Pieces (mn_results m)) ev (s, mn_comms m) = Inr (Looping, s', cm) \<Longrightarrow>
      goroutine_round sha1 cf \<lparr>sw_main = m, sw_pending = pd, sw_sessions = ss1 @ s # ss2\<rparr>
        \<lparr>sw_main = m\<lparr>mn_comms := cm, mn_conns := take_unchoke ev s (mn_conns m)\<rparr>, sw_pending = pd,
         sw_sessions = ss1 @ s' # ss2\<rparr>"
| round_session_ends:
    "event_ready ev s (mn_conns m) \<Longrightarrow>
      session_iter sha1 (cf_torrent cf) (rs_Pieces (mn_results m)) ev (s, mn_comms m) = Inr (Ended, s', cm) \<Longrightarrow>
      goroutine_round sha1 cf \<lparr>sw_main = m, sw_pending = pd, sw_sessions = ss1 @ s # ss2\<rparr>
        \<lparr>sw_main = m\<lparr>mn_comms := cm\<rparr>, sw_pending = pd, sw_sessions = ss1 @ ss2\<rparr>"

inductive swarm_step :: "(byte list \<Rightarrow> hash) \<Rightarrow> config \<Rightarrow> swarm \<Rightarrow> swarm \<Rightarrow> bool"
  for sha1 :: "byte list \<Rightarrow> hash" and cf :: config where
  of_main: "main_round cf now ev as w w' \<Longrightarrow> swarm_step sha1 cf w w'"
| of_goroutine: "goroutine_round sha1 cf w w' \<Longrightarrow> swarm_step sha1 cf w w'"

inductive_cases swarm_stepE: "swarm_step sha1 cf w w'"

lemmas step_main = of_main [OF round_main]
lemmas step_listen = of_goroutine [OF round_listen]

text \<open>The main loop starts after the first launch, which started a leech on each address.\<close>

definition swarm_start :: "addr list \<Rightarrow> main_state \<Rightarrow> swarm" where
  "swarm_start as m = \<lparr>sw_main = m, sw_pending = map (Pair Leech) as, sw_sessions = []\<rparr>"

text \<open>What an invariant of a step relation is, and a refinement of one relation by another.\<close>

locale step_system =
  fixes start :: "'s \<Rightarrow> bool" and step :: "'s \<Rightarrow> 's \<Rightarrow> bool" and invariant :: "'s \<Rightarrow> bool"
  assumes inv_start: "start s \<Longrightarrow> invariant s"
    and inv_step: "invariant s \<Longrightarrow> step s s' \<Longrightarrow> invariant s'"
begin

definition reachable :: "'s \<Rightarrow> bool" where
  "reachable s \<longleftrightarrow> (\<exists>s0. start s0 \<and> step\<^sup>*\<^sup>* s0 s)"

lemma inv_steps: "step\<^sup>*\<^sup>* s s' \<Longrightarrow> invariant s \<Longrightarrow> invariant s'"
  by (induction rule: rtranclp_induct) (auto intro: inv_step)

lemma inv_reachable: "reachable s \<Longrightarrow> invariant s"
  unfolding reachable_def using inv_start inv_steps by blast

end

locale refinement = step_system start step invariant
  for start :: "'s \<Rightarrow> bool" and step and invariant +
  fixes abs :: "'s \<Rightarrow> 'a" and abs_step :: "'a \<Rightarrow> 'a \<Rightarrow> bool"
  assumes simulates: "invariant s \<Longrightarrow> step s s' \<Longrightarrow> abs_step\<^sup>*\<^sup>* (abs s) (abs s')"
begin

lemma simulates_steps: "step\<^sup>*\<^sup>* s s' \<Longrightarrow> invariant s \<Longrightarrow> abs_step\<^sup>*\<^sup>* (abs s) (abs s')"
proof (induction rule: rtranclp_induct)
  case (step y z)
  then show ?case using simulates inv_steps by (meson rtranclp_trans)
qed simp

end

end
