(* ===== verification/Swarm_Inv.thy ===== *)
theory Swarm_Inv
  imports Swarm
begin

text \<open>
  The invariant of the client, per operation of the main goroutine and per step. A token is the index
  of a piece that is being worked on: queued as an order, in progress in a session, or verified
  and on its way to the main goroutine. Tokens and the pieces that are there are disjoint and
  occur once.
\<close>

section \<open>Work\<close>

definition tokens :: "swarm \<Rightarrow> int multiset" where
  "tokens w = sum_list (map held (sw_sessions w)) + comm_tokens (mn_comms (sw_main w))"

definition have_set :: "main_state \<Rightarrow> int set" where
  "have_set m = bf_members (rs_Bitfield (mn_results m))"

definition work_inv :: "(byte list \<Rightarrow> hash) \<Rightarrow> torrent_file \<Rightarrow> int multiset \<Rightarrow> main_state \<Rightarrow> bool" where
  "work_inv sha1 t W m \<longleftrightarrow> results_ok sha1 t (mn_results m)
     \<and> rs_PiecesDone (mn_results m) = int (card (have_set m))
     \<and> comms_inv sha1 t (mn_comms m)
     \<and> W + mset_set (have_set m) \<subseteq># mset_set {0..<num_hashes t}"

definition swarm_inv :: "(byte list \<Rightarrow> hash) \<Rightarrow> torrent_file \<Rightarrow> swarm \<Rightarrow> bool" where
  "swarm_inv sha1 t w \<longleftrightarrow> work_inv sha1 t (tokens w) (sw_main w) \<and> (\<forall>s \<in> set (sw_sessions w). session_inv t s)"

text \<open>Operations that leave the work alone.\<close>

definition same_work :: "main_state \<Rightarrow> main_state \<Rightarrow> bool" where
  "same_work m m' \<longleftrightarrow> mn_results m' = mn_results m \<and> cm_Orders (mn_comms m') = cm_Orders (mn_comms m)
     \<and> cm_Results (mn_comms m') = cm_Results (mn_comms m)"

lemma same_work_refl [simp]: "same_work m m"
  by (simp add: same_work_def)

lemma same_work_trans: "same_work m m' \<Longrightarrow> same_work m' m'' \<Longrightarrow> same_work m m''"
  by (simp add: same_work_def)

lemma same_work_inv:
  "same_work m m' \<Longrightarrow> work_inv sha1 t W m' = work_inv sha1 t W m"
  "same_work m m' \<Longrightarrow> comm_tokens (mn_comms m') = comm_tokens (mn_comms m)"
  "same_work m m' \<Longrightarrow> have_set m' = have_set m"
  by (simp_all add: same_work_def work_inv_def have_set_def comms_inv_def comm_tokens_def)

lemma choke_tick_same: "choke_tick srt rnd iorder gorder m = Inr m' \<Longrightarrow> same_work m m'"
  by (auto simp: choke_tick_def same_work_def)

lemma tracker_tick_same: "tracker_tick cf get net m = Some (Inr (b, m')) \<Longrightarrow> same_work m m'"
  by (auto simp: tracker_tick_def same_work_def Let_def
      split: option.splits sum.splits prod.splits go_error.splits)

lemma update_online_same: "same_work m (update_online now m)"
  by (auto simp: update_online_def updateOnlineConnections_def same_work_def split: prod.splits)

lemma relaunch_same: "relaunch cf dial now m = Inr (as, m') \<Longrightarrow> same_work m m'"
  by (auto simp: relaunch_def same_work_def Let_def split: if_splits prod.splits sum.splits)

lemma save_when_done_same: "save_when_done cf script m = Inr m' \<Longrightarrow> same_work m m'"
  by (auto simp: save_when_done_def same_work_def split: if_splits prod.splits sum.splits)

section \<open>A piece arrives\<close>

lemma token_fresh:
  assumes "W + mset_set M \<subseteq># mset_set (U :: int set)" and "finite M" and "i \<in># W" and "finite U"
  shows "i \<notin> M" and "i \<in> U"
    and "W - {#i#} + mset_set (insert i M) \<subseteq># mset_set U"
proof -
  have "count W i + count (mset_set M) i \<le> count (mset_set U) i"
    using mset_subset_eq_count [OF assms(1), of i] by simp
  moreover have "0 < count W i" using assms(3) by simp
  moreover have "count (mset_set U) i \<le> 1" by (cases "i \<in> U") (simp_all add: assms(4))
  ultimately have "count (mset_set M) i = 0" "count (mset_set U) i \<noteq> 0" by linarith+
  then show i: "i \<notin> M" "i \<in> U" using assms(2,4) by (auto simp: count_eq_zero_iff)
  have "W - {#i#} + mset_set (insert i M) = W + mset_set M"
    using i(1) assms(2,3) by simp
  with assms(1) show "W - {#i#} + mset_set (insert i M) \<subseteq># mset_set U" by simp
qed

lemma results_ok_done: "results_ok sha1 t (res\<lparr>rs_PiecesDone := n\<rparr>) = results_ok sha1 t res"
  by (simp add: results_ok_def)

lemma take_piece_inv:
  assumes inv: "work_inv sha1 t W m" and p: "piece_verified sha1 t p" "pc_Index p \<in># W"
    and take: "take_piece p m = Inr m'"
  shows "work_inv sha1 t (W - {#pc_Index p#}) m'" and "have_set m' = insert (pc_Index p) (have_set m)"
    and "pc_Index p \<notin> have_set m" and "mn_comms m' = mn_comms m"
proof -
  let ?i = "pc_Index p" and ?res = "mn_results m"
  have ok: "results_ok sha1 t ?res" and tok: "W + mset_set (have_set m) \<subseteq># mset_set {0..<num_hashes t}"
    using inv by (simp_all add: work_inv_def)
  then have wf: "bf_wf (rs_Bitfield ?res)" "bf_Length (rs_Bitfield ?res) = num_hashes t"
    "length (rs_Pieces ?res) = length (tf_PieceHashes t)"
    by (simp_all add: results_ok_def)
  have i: "0 \<le> ?i" "?i < num_hashes t" using p(1) by (simp_all add: piece_verified_def)
  note fresh = token_fresh [OF tok, of ?i, unfolded have_set_def, OF bf.finite_members p(2) finite_atLeastLessThan_int]
  obtain b where b: "bf_Set (rs_Bitfield ?res) ?i True = Inr b" "bf_wf b" "bf_Length b = num_hashes t"
      "bf_members b = insert ?i (bf_members (rs_Bitfield ?res))"
    using bf_Set_in [OF wf(1) i(1), of True] wf(2) i(2) by auto
  let ?res' = "?res\<lparr>rs_Pieces := place [p] (rs_Pieces ?res), rs_PiecesDone := rs_PiecesDone ?res + 1, rs_Bitfield := b\<rparr>"
  have "\<exists>gen. take_piece p m = Inr (m\<lparr>mn_results := ?res', mn_generosity := gen\<rparr>)"
    using b(1) i wf(3) by (simp add: take_piece_def Let_def) (rule exI, rule refl)
  then have m': "mn_results m' = ?res'" "mn_comms m' = mn_comms m" using take by auto
  then show "mn_comms m' = mn_comms m" "have_set m' = insert ?i (have_set m)" "?i \<notin> have_set m"
    using b(4) fresh(1) by (simp_all add: have_set_def)
  have "results_ok sha1 t (?res\<lparr>rs_Pieces := place [p] (rs_Pieces ?res), rs_Bitfield := b\<rparr>)"
  proof (rule place_results_ok [OF ok b(2,3)])
    show "bf_members b = bf_members (rs_Bitfield ?res) \<union> pc_Index ` set [p]" by (simp add: b(4))
    show "\<forall>q \<in> set [p]. 0 \<le> pc_Index q \<and> pc_Index q < num_hashes t \<and> sha1 (pc_Data q) = tf_PieceHashes t ! nat (pc_Index q)"
      using p(1) by (simp add: piece_verified_def)
  qed
  moreover have "mn_results m' = (?res\<lparr>rs_Pieces := place [p] (rs_Pieces ?res), rs_Bitfield := b\<rparr>)
      \<lparr>rs_PiecesDone := rs_PiecesDone ?res + 1\<rparr>" unfolding m'(1) by simp
  ultimately have "results_ok sha1 t (mn_results m')" by (simp only: results_ok_done)
  moreover have "card (insert ?i (bf_members (rs_Bitfield ?res))) = Suc (card (bf_members (rs_Bitfield ?res)))"
    using fresh(1) bf.finite_members by simp
  ultimately show "work_inv sha1 t (W - {#?i#}) m'"
    using inv fresh(3) b(4) m' by (simp add: work_inv_def have_set_def)
qed

text \<open>The three ways a round of the main loop treats the work.\<close>

lemma main_select_cases:
  assumes "main_select cf ev m = Some (Inr (exit, m'))"
  obtains (same) "same_work m m'"
  | (piece) p ps where "cm_Results (mn_comms m) = p # ps"
      and "take_piece p (m\<lparr>mn_comms := (mn_comms m)\<lparr>cm_Results := ps\<rparr>\<rparr>) = Inr m'"
proof (cases ev)
  case PieceArrived
  with assms show ?thesis
    using same piece by (cases "cm_Results (mn_comms m)") auto
next
  case (ChokeTick srt rnd iorder gorder)
  with assms show ?thesis by (intro same) (auto intro: choke_tick_same)
next
  case (TrackerTick get net)
  with assms show ?thesis by (intro same) (auto intro: tracker_tick_same)
qed (use assms in \<open>auto simp: same_work_def split: list.splits intro: same\<close>)

lemma main_iter_cases:
  assumes "main_iter cf dial now script ev m = Some (Inr (status, as, m'))"
  obtains (same) "same_work m m'"
  | (piece) p ps m1 where "cm_Results (mn_comms m) = p # ps"
      and "take_piece p (m\<lparr>mn_comms := (mn_comms m)\<lparr>cm_Results := ps\<rparr>\<rparr>) = Inr m1" and "same_work m1 m'"
proof -
  obtain exit m1 where sel: "main_select cf ev m = Some (Inr (exit, m1))"
    using assms by (auto simp: main_iter_def split: option.splits sum.splits)
  have "same_work m1 m'"
    using assms sel same_work_trans [OF update_online_same [of m1 now]]
    by (auto simp: main_iter_def Let_def split: if_splits
        dest!: relaunch_same save_when_done_same intro: update_online_same same_work_trans)
  with sel show ?thesis
    using same piece by (elim main_select_cases) (blast intro: same_work_trans)+
qed

section \<open>Steps\<close>

lemma comm_tokens_take_result:
  "cm_Results cm = p # ps \<Longrightarrow> comm_tokens cm = add_mset (pc_Index p) (comm_tokens (cm\<lparr>cm_Results := ps\<rparr>))"
  by (simp add: comm_tokens_def)

lemma work_inv_comms:
  "comms_inv sha1 t cm \<Longrightarrow> work_inv sha1 t W m \<Longrightarrow> work_inv sha1 t W (m\<lparr>mn_comms := cm\<rparr>)"
  by (simp add: work_inv_def have_set_def)

lemma work_inv_fewer: "work_inv sha1 t W m \<Longrightarrow> W' \<subseteq># W \<Longrightarrow> work_inv sha1 t W' m"
  unfolding work_inv_def by (meson mset_subset_eq_mono_add_right_cancel subset_mset.order_trans)

lemma have_set_comms [simp]: "have_set (m\<lparr>mn_comms := cm\<rparr>) = have_set m" "have_set (m\<lparr>mn_conns := cs\<rparr>) = have_set m"
  by (simp_all add: have_set_def)

lemma work_inv_conns [simp]: "work_inv sha1 t W (m\<lparr>mn_conns := cs\<rparr>) = work_inv sha1 t W m"
  by (simp add: work_inv_def)

lemma tokens_simps [simp]:
  "tokens \<lparr>sw_main = m, sw_pending = pd, sw_sessions = ss\<rparr> = sum_list (map held ss) + comm_tokens (mn_comms m)"
  by (simp add: tokens_def)

lemma open_session_comms:
  assumes "open_session side c t res peerId cm = Inr (s, cm')"
  shows "comm_tokens cm' = comm_tokens cm" and "comms_inv sha1 t cm' = comms_inv sha1 t cm"
    and "s = Some s1 \<Longrightarrow> session_inv t s1 \<and> held s1 = {#}"
proof -
  show "comm_tokens cm' = comm_tokens cm" "comms_inv sha1 t cm' = comms_inv sha1 t cm"
    using assms by (auto simp: open_session_defs comm_tokens_def comms_inv_def split: prod.splits sum.splits side.splits if_splits)
  show "session_inv t s1 \<and> held s1 = {#}" if "s = Some s1"
    using assms that handshake_peer session_inv_start [of _ t]
    by (auto simp: open_session_defs session_start_def progress_zero_def held_def
        split: prod.splits sum.splits side.splits if_splits)
qed

text \<open>What a step does to the tokens and to the pieces that are there.\<close>

inductive download_step :: "int multiset \<times> int set \<Rightarrow> int multiset \<times> int set \<Rightarrow> bool" where
  deliver: "i \<in># W \<Longrightarrow> i \<notin> D \<Longrightarrow> download_step (W, D) (W - {#i#}, insert i D)"
| lose: "i \<in># W \<Longrightarrow> download_step (W, D) (W - {#i#}, D)"

definition download_abs :: "swarm \<Rightarrow> int multiset \<times> int set" where
  "download_abs w = (tokens w, have_set (sw_main w))"

lemma held_cases: "held s = {#} \<or> (\<exists>i. held s = {#i#})"
  by (simp add: held_def split: option.split)

lemma main_step_inv:
  assumes iter: "main_iter cf dial now script ev m = Some (Inr (status, as, m'))"
    and inv: "work_inv sha1 t (H + comm_tokens (mn_comms m)) m"
  shows "work_inv sha1 t (H + comm_tokens (mn_comms m')) m'
    \<and> download_step\<^sup>*\<^sup>* (H + comm_tokens (mn_comms m), have_set m) (H + comm_tokens (mn_comms m'), have_set m')"
  using iter
proof (cases rule: main_iter_cases)
  case same
  with inv same_work_inv [OF same] show ?thesis by simp
next
  case (piece p ps m1)
  let ?m = "m\<lparr>mn_comms := (mn_comms m)\<lparr>cm_Results := ps\<rparr>\<rparr>"
  let ?W = "H + comm_tokens (mn_comms m)"
  have p: "piece_verified sha1 t p" and cm: "comms_inv sha1 t ((mn_comms m)\<lparr>cm_Results := ps\<rparr>)"
    using inv piece(1) by (auto simp: work_inv_def comms_inv_def)
  have tok: "?W = add_mset (pc_Index p) (H + comm_tokens (mn_comms ?m))"
    using comm_tokens_take_result [OF piece(1)] by simp
  then have "pc_Index p \<in># ?W" by simp
  note take = take_piece_inv [OF work_inv_comms [OF cm inv] p this piece(2)]
  have "download_step (?W, have_set m) (?W - {#pc_Index p#}, insert (pc_Index p) (have_set m))"
    using take(3) \<open>pc_Index p \<in># ?W\<close> by (intro deliver) simp_all
  with take tok same_work_inv [OF piece(3)] show ?thesis by simp
qed

lemma session_step_inv:
  assumes iter: "session_iter sha1 t pieces ev (s, mn_comms m) = Inr (status, s', cm)"
    and s: "session_inv t s" and inv: "work_inv sha1 t (H + held s + comm_tokens (mn_comms m)) m"
  shows "work_inv sha1 t (H + (if status = Looping then held s' else {#}) + comm_tokens cm) (m\<lparr>mn_comms := cm\<rparr>)
    \<and> session_inv t s'
    \<and> download_step\<^sup>*\<^sup>* (H + held s + comm_tokens (mn_comms m), have_set m)
        (H + (if status = Looping then held s' else {#}) + comm_tokens cm, have_set m)"
proof -
  have "loop_inv sha1 t (s, mn_comms m)" using s inv by (simp add: work_inv_def)
  note it = session_iter_inv [OF this iter]
  then have inv': "session_inv t s'" "comms_inv sha1 t cm" by simp_all
  let ?W = "H + held s + comm_tokens (mn_comms m)"
  consider (kept) "H + (if status = Looping then held s' else {#}) + comm_tokens cm = ?W"
    | (lost) "H + (if status = Looping then held s' else {#}) + comm_tokens cm + held s' = ?W"
    using it(2,3) by (cases status) (auto simp: add.assoc)
  then show ?thesis
  proof cases
    case kept
    show ?thesis unfolding kept using inv'(1) work_inv_comms [OF inv'(2) inv] by simp
  next
    case lost
    let ?W' = "H + (if status = Looping then held s' else {#}) + comm_tokens cm"
    have "download_step\<^sup>*\<^sup>* (?W, have_set m) (?W', have_set m)"
      using held_cases [of s']
    proof (elim disjE exE)
      fix i assume i: "held s' = {#i#}"
      have "download_step (?W, have_set m) (?W - {#i#}, have_set m)"
        unfolding lost [symmetric] i by (rule download_step.lose) simp
      moreover have "?W - {#i#} = ?W'" unfolding lost [symmetric] i by simp
      ultimately show ?thesis by simp
    next
      assume none: "held s' = {#}"
      show ?thesis unfolding lost [symmetric] none by simp
    qed
    moreover have "?W' \<subseteq># ?W" unfolding lost [symmetric] by simp
    ultimately show ?thesis using inv'(1) work_inv_comms [OF inv'(2) work_inv_fewer [OF inv]] by blast
  qed
qed

lemma main_round_sound:
  assumes "main_round cf now ev as w w'" and "swarm_inv sha1 (cf_torrent cf) w"
  shows "swarm_inv sha1 (cf_torrent cf) w' \<and> download_step\<^sup>*\<^sup>* (download_abs w) (download_abs w')"
  using assms
proof (induction rule: main_round.induct)
  case (round_main ev m dial now script as m' pd ss)
  then show ?case
    using main_step_inv [OF round_main(3), of sha1 "cf_torrent cf" "sum_list (map held ss)"]
    by (simp add: swarm_inv_def download_abs_def)
qed

lemma goroutine_round_sound:
  assumes "goroutine_round sha1 cf w w'" and "swarm_inv sha1 (cf_torrent cf) w"
  shows "swarm_inv sha1 (cf_torrent cf) w' \<and> download_step\<^sup>*\<^sup>* (download_abs w) (download_abs w')"
  using assms
proof (induction rule: goroutine_round.induct)
  case (round_listen m a started cs pd ss)
  then show ?case by (simp add: swarm_inv_def download_abs_def)
next
  case (round_open side c m s cm pd1 pd2 ss)
  note o = open_session_comms [OF round_open(1)]
  have "comms_inv sha1 (cf_torrent cf) cm" using round_open(2) o(2) by (simp add: swarm_inv_def work_inv_def)
  from work_inv_comms [OF this] round_open(2) o(1) o(3) [OF refl]
  show ?case by (auto simp: swarm_inv_def download_abs_def)
next
  case (round_refused side c m cm pd1 pd2 ss)
  note o = open_session_comms [OF round_refused(1)]
  have "comms_inv sha1 (cf_torrent cf) cm" using round_refused(2) o(2) by (simp add: swarm_inv_def work_inv_def)
  from work_inv_comms [OF this] round_refused(2) o(1)
  show ?case by (simp add: swarm_inv_def download_abs_def)
next
  case (round_session ev s m s' cm pd ss1 ss2)
  then show ?case
    using session_step_inv [OF round_session(2), of "sum_list (map held ss1) + sum_list (map held ss2)"]
    by (simp add: swarm_inv_def download_abs_def ac_simps)
next
  case (round_session_ends ev s m s' cm pd ss1 ss2)
  then show ?case
    using session_step_inv [OF round_session_ends(2), of "sum_list (map held ss1) + sum_list (map held ss2)"]
    by (simp add: swarm_inv_def download_abs_def ac_simps)
qed

lemma swarm_step_sound:
  assumes "swarm_step sha1 cf w w'" and "swarm_inv sha1 (cf_torrent cf) w"
  shows "swarm_inv sha1 (cf_torrent cf) w' \<and> download_step\<^sup>*\<^sup>* (download_abs w) (download_abs w')"
  using assms
  by (induction rule: swarm_step.induct) (blast dest: main_round_sound goroutine_round_sound)+

section \<open>The start\<close>

lemma order_loop_spec:
  assumes "order_loop t res rs acc = Inr orders" and "bf_wf (rs_Bitfield res)" and "0 \<le> tf_PieceLength t"
    and "\<forall>ord \<in> set acc. order_ok t ord"
  shows "map po_Index orders = map po_Index acc @ filter (\<lambda>i. i \<notin> bf_members (rs_Bitfield res)) (map int rs)
    \<and> (\<forall>ord \<in> set orders. order_ok t ord)"
  using assms
proof (induction rs arbitrary: acc)
  case (Cons r rs)
  obtain got where get: "bf_Get (rs_Bitfield res) (int r) = Inr got"
    using Cons.prems(1) by (cases "bf_Get (rs_Bitfield res) (int r)") auto
  note g = bf.get_Inr [OF Cons.prems(2) _ get]
  show ?case
  proof (cases got)
    case True
    with Cons get g show ?thesis by simp
  next
    case False
    with Cons.prems(1) get obtain h where h: "0 \<le> int r" "int r < num_hashes t" "h = tf_PieceHashes t ! r"
      and rest: "order_loop t res rs (ch_send \<lparr>po_Index = int r, po_Length = tf_PieceLength t, po_Hash = h\<rparr> acc) = Inr orders"
      by (auto simp: go_index_Inr_iff split: sum.splits)
    have "\<forall>ord \<in> set (ch_send \<lparr>po_Index = int r, po_Length = tf_PieceLength t, po_Hash = h\<rparr> acc). order_ok t ord"
      using h Cons.prems(3,4) by (auto simp: order_ok_def chan.contents_send)
    from Cons.IH [OF rest Cons.prems(2,3) this] False g show ?thesis by (simp add: chan.contents_send)
  qed
qed simp

lemma make_orders_spec:
  assumes "make_orders t res perm = Inr orders" and "bf_wf (rs_Bitfield res)" and "0 \<le> tf_PieceLength t"
    and "\<And>n. mset (perm n) = mset [0..<n]"
  shows "distinct (map po_Index orders)" and "set (map po_Index orders) \<inter> bf_members (rs_Bitfield res) = {}"
    and "\<forall>ord \<in> set orders. order_ok t ord"
proof -
  obtain n where "order_loop t res (perm n) [] = Inr orders"
    using assms(1) by (auto simp: make_orders_def split: if_splits)
  from order_loop_spec [OF this assms(2,3)]
  have o: "map po_Index orders = filter (\<lambda>i. i \<notin> bf_members (rs_Bitfield res)) (map int (perm n))"
    "\<forall>ord \<in> set orders. order_ok t ord" by simp_all
  have "distinct (perm n)" using assms(4) by (metis distinct_upt mset_eq_imp_distinct_iff)
  then show "distinct (map po_Index orders)" unfolding o(1) by (simp add: distinct_map)
  show "set (map po_Index orders) \<inter> bf_members (rs_Bitfield res) = {}" unfolding o(1) by auto
  show "\<forall>ord \<in> set orders. order_ok t ord" by (rule o(2))
qed

text \<open>With a count that agrees with the hashes no order fails.\<close>

lemma order_loop_total:
  assumes "bf_wf (rs_Bitfield res)" and "bf_Length (rs_Bitfield res) = num_hashes t" and "\<forall>r \<in> set rs. int r < num_hashes t"
  shows "\<exists>orders. order_loop t res rs acc = Inr orders"
  using assms(3)
proof (induction rs arbitrary: acc)
  case (Cons r rs)
  have "bf_Get (rs_Bitfield res) (int r) = Inr (int r \<in> bf_members (rs_Bitfield res))"
    using Cons.prems assms(1,2) by (simp add: bf_Get_in)
  with Cons show ?case by (cases "int r \<in> bf_members (rs_Bitfield res)") (simp_all add: go_index_def)
qed simp

lemma make_orders_total:
  assumes "GetNumberOfPieces t = Inr (num_hashes t)" and "results_ok sha1 t res" and "0 \<le> tf_PieceLength t"
    and "\<And>n. mset (perm n) = mset [0..<n]"
  shows "\<exists>orders. make_orders t res perm = Inr orders
    \<and> map po_Index orders = filter (\<lambda>i. i \<notin> bf_members (rs_Bitfield res)) (map int (perm (nat (num_hashes t))))"
proof -
  have "set (perm (nat (num_hashes t))) = {0..<nat (num_hashes t)}" using assms(4) by (metis mset_eq_setD set_upt)
  then have "\<forall>r \<in> set (perm (nat (num_hashes t))). int r < num_hashes t" by auto
  moreover have wf: "bf_wf (rs_Bitfield res)" "bf_Length (rs_Bitfield res) = num_hashes t"
    using assms(2) by (simp_all add: results_ok_def)
  ultimately obtain orders where o: "order_loop t res (perm (nat (num_hashes t))) [] = Inr orders"
    using order_loop_total [of res t "perm (nat (num_hashes t))" "[]"] by blast
  from order_loop_spec [OF o wf(1) assms(3)] o assms(1) show ?thesis by (simp add: make_orders_def)
qed

lemma main_start_Inr:
  assumes "main_start sha1 url_Parse unmarshal net perm peerId port t fs = Some (Inr (cf, m))"
  obtains res0 full orders where "results_start t = Inr res0" and "loadFromFile sha1 t fs res0 = (Inr full, mn_results m)"
    and "make_orders t (mn_results m) perm = Inr orders" and "mn_comms m = comms_start orders"
    and "cf_torrent cf = t" and "mn_saved m = full" and "cf_savedNumber cf = rs_PiecesDone (mn_results m)"
    and "cf_savedPieces cf = rs_Bitfield (mn_results m)" and "\<not> full \<longrightarrow> mn_fs m = fs"
  using assms
  by (auto simp: main_start_def Let_def bf_Copy_def split: sum.splits prod.splits option.splits go_error.splits if_splits)

text \<open>
  A client has started and made its first launch: its permutation is one, pieces have a length,
  and no piece occurs twice in the partial files (the counter would count it twice).
\<close>

definition started_on :: "(byte list \<Rightarrow> hash) \<Rightarrow> config \<Rightarrow> fs \<Rightarrow> swarm \<Rightarrow> bool" where
  "started_on sha1 cf fs w \<longleftrightarrow> (\<exists>url_Parse unmarshal net perm peerId port m0 dial now as m.
     main_start sha1 url_Parse unmarshal net perm peerId port (cf_torrent cf) fs = Some (Inr (cf, m0))
     \<and> dial_fresh dial (mn_conns m0) \<and> first_launch cf dial now m0 = Inr (as, m) \<and> w = swarm_start as m
     \<and> (\<forall>n. mset (perm n) = mset [0..<n]) \<and> 0 \<le> tf_PieceLength (cf_torrent cf)
     \<and> rs_PiecesDone (mn_results m) = int (card (have_set m)))"

definition swarm_started :: "(byte list \<Rightarrow> hash) \<Rightarrow> config \<Rightarrow> swarm \<Rightarrow> bool" where
  "swarm_started sha1 cf w \<longleftrightarrow> (\<exists>fs. started_on sha1 cf fs w)"

lemma first_launch_same: "first_launch cf dial now m = Inr (as, m') \<Longrightarrow> same_work m m' \<and> mn_comms m' = mn_comms m"
  by (auto simp: first_launch_def same_work_def split: if_splits prod.splits sum.splits)

lemma swarm_started_inv:
  assumes "swarm_started sha1 cf w"
  shows "swarm_inv sha1 (cf_torrent cf) w"
proof -
  let ?t = "cf_torrent cf"
  obtain url_Parse unmarshal net perm peerId port fs m0 dial now as m where
    run: "main_start sha1 url_Parse unmarshal net perm peerId port ?t fs = Some (Inr (cf, m0))"
    and launch: "first_launch cf dial now m0 = Inr (as, m)"
    and w: "w = swarm_start as m" and perm: "\<And>n. mset (perm n) = mset [0..<n]" and len: "0 \<le> tf_PieceLength ?t"
    and cnt: "rs_PiecesDone (mn_results m) = int (card (have_set m))"
    using assms unfolding swarm_started_def started_on_def by metis
  have same: "mn_results m = mn_results m0" "mn_comms m = mn_comms m0"
    using first_launch_same [OF launch] by (simp_all add: same_work_def)
  obtain res0 full orders where res0: "results_start ?t = Inr res0"
    and load: "loadFromFile sha1 ?t fs res0 = (Inr full, mn_results m)"
    and ords: "make_orders ?t (mn_results m) perm = Inr orders" and cm: "mn_comms m = comms_start orders"
    using main_start_Inr [OF run] unfolding same .
  have ok: "results_ok sha1 ?t (mn_results m)" using loadFromFile_ok(1) [OF load results_start_ok(1) [OF res0]] .
  then have wf: "bf_wf (rs_Bitfield (mn_results m))" "bf_Length (rs_Bitfield (mn_results m)) = num_hashes ?t"
    by (simp_all add: results_ok_def)
  note o = make_orders_spec [OF ords wf(1) len perm]
  let ?I = "set (map po_Index orders)"
  have "tokens w = mset_set ?I"
    using o(1) cm by (simp add: w swarm_start_def comm_tokens_def comms_start_def mset_set_set del: set_map)
  moreover have "mset_set ?I + mset_set (have_set m) = mset_set (?I \<union> have_set m)"
    by (rule mset_set_Union [symmetric]) (use o(2) bf.finite_members in \<open>auto simp: have_set_def\<close>)
  moreover have "?I \<union> have_set m \<subseteq> {0..<num_hashes ?t}"
    using o(3) bf.members_range [of "rs_Bitfield (mn_results m)"] wf(2) by (auto simp: have_set_def order_ok_def)
  ultimately have "tokens w + mset_set (have_set m) \<subseteq># mset_set {0..<num_hashes ?t}"
    by (simp add: subset_imp_msubset_mset_set)
  moreover have "comms_inv sha1 ?t (mn_comms m)"
    using o(3) by (simp add: cm comms_start_def comms_inv_def)
  ultimately show ?thesis
    using ok cnt by (simp add: swarm_inv_def work_inv_def w swarm_start_def)
qed

interpretation client: refinement "swarm_started sha1 cf" "swarm_step sha1 cf" "swarm_inv sha1 (cf_torrent cf)"
  download_abs download_step for sha1 :: "byte list \<Rightarrow> hash" and cf
  by unfold_locales (auto intro: swarm_started_inv dest: swarm_step_sound)

end
