(* ===== verification/Swarm_Resume.thy ===== *)
theory Swarm_Resume
  imports Swarm_Inv
begin

text \<open>
  Stopping the client and starting it again. The lemmas: what a start finds on a disk in good order,
  that until the final file is written the disk stays as it was and a piece that is there stays,
  and what the code after the main loop writes.
\<close>

section \<open>The disk at the start\<close>

text \<open>No final file; the part files hold verified pieces, each once; not all of them.\<close>

definition clean_disk :: "(byte list \<Rightarrow> hash) \<Rightarrow> torrent_file \<Rightarrow> fs \<Rightarrow> (nat \<Rightarrow> piece list) \<Rightarrow> bool" where
  "clean_disk sha1 t fs old \<longleftrightarrow> 20 \<le> length (tf_Name t) \<and> fs (tf_Name t) = None
     \<and> tf_Name t \<notin> pname t ` {0..<fileNumber t} \<and> disk_holds t fs old
     \<and> (\<forall>k. \<forall>p \<in> set (old k). verified_storable sha1 t p)
     \<and> distinct (map pc_Index (held_from old 0 (fileNumber t)))
     \<and> int (length (held_from old 0 (fileNumber t))) < num_hashes t"

lemma place_distinct:
  assumes "distinct (map pc_Index h)" and "p \<in> set h" and "\<forall>q \<in> set h. 0 \<le> pc_Index q"
    and "nat (pc_Index p) < length xs"
  shows "place h xs ! nat (pc_Index p) = Some p"
proof -
  have "int (nat (pc_Index p)) \<in> pc_Index ` set h" using assms(2,3) by simp
  from nth_place(2) [OF assms(4,3) this] obtain q where q: "q \<in> set h" "pc_Index q = pc_Index p"
    "place h xs ! nat (pc_Index p) = Some q" using assms(2,3) by auto
  have "q = p" using assms(1,2) q(1,2) by (auto simp: distinct_map dest: inj_onD)
  with q(3) show ?thesis by simp
qed

lemma load_clean_disk:
  assumes "clean_disk sha1 t fs old" and "results_start t = Inr res0" and "loadFromFile sha1 t fs res0 = (Inr full, res)"
  defines "h \<equiv> held_from old 0 (fileNumber t)"
  shows "\<not> full" and "rs_PiecesDone res = int (length h)" and "bf_members (rs_Bitfield res) = pc_Index ` set h"
    and "\<forall>p \<in> set h. rs_Pieces res ! nat (pc_Index p) = Some p"
    and "\<forall>p. Some p \<in> set (rs_Pieces res) \<longrightarrow> p \<in> set h"
proof -
  note c = assms(1) [unfolded clean_disk_def]
  let ?r0 = "res0\<lparr>rs_PiecesDone := 0\<rparr>"
  note st = results_start_ok [OF assms(2)]
  have ok0: "bf_wf (rs_Bitfield ?r0)" "bf_Length (rs_Bitfield ?r0) = num_hashes t"
    "length (rs_Pieces ?r0) = length (tf_PieceHashes t)"
    using st(1) by (simp_all add: results_ok_def)
  have ver: "\<forall>k. \<forall>p \<in> set (old k). verified_storable sha1 t p" using c by blast
  obtain res' where l: "load_parts sha1 t fs (fileNumber t) 0 ?r0 = (None, res')"
    "rs_Pieces res' = place h (rs_Pieces res0)" "rs_PiecesDone res' = int (length h)"
    "bf_members (rs_Bitfield res') = bf_members (rs_Bitfield res0) \<union> pc_Index ` set h"
    using load_parts_holds [of t fs old 0 "fileNumber t" sha1 ?r0] c ver ok0 unfolding h_def by auto
  have eq: "full = False" "res = res'"
    using assms(3) c l(1) by (simp_all add: loadFromFile_def os_Open_def loadPiecesFromPartialFiles_def)
  show "\<not> full" "rs_PiecesDone res = int (length h)" using eq l(3) by simp_all
  have "bf_members (rs_Bitfield res0) = {}" using st(4) by (auto simp: results_ok_bit [OF st(1)])
  with eq l(4) show "bf_members (rs_Bitfield res) = pc_Index ` set h" by simp
  have idx: "\<forall>q \<in> set h. 0 \<le> pc_Index q \<and> pc_Index q < num_hashes t"
    using ver verified_storable_index by (fastforce simp: h_def held_from_def)
  show "\<forall>p \<in> set h. rs_Pieces res ! nat (pc_Index p) = Some p"
    using place_distinct [of h _ "rs_Pieces res0"] c idx st(4) eq(2) l(2) by (auto simp: h_def)
  show "\<forall>p. Some p \<in> set (rs_Pieces res) \<longrightarrow> p \<in> set h"
  proof (intro allI impI)
    fix p
    assume "Some p \<in> set (rs_Pieces res)"
    then obtain i where i: "i < length (rs_Pieces res0)" "place h (rs_Pieces res0) ! i = Some p"
      using eq(2) l(2) by (auto simp: in_set_conv_nth)
    have nn: "\<forall>q \<in> set h. 0 \<le> pc_Index q" using idx by blast
    have "int i \<in> pc_Index ` set h"
      using nth_place(1) [OF i(1) nn] i st(4) by (auto split: if_splits)
    from nth_place(2) [OF i(1) nn this] i(2) show "p \<in> set h" by auto
  qed
qed

section \<open>What a run keeps\<close>

text \<open>
  Until the final file is written: the disk is the one of the start, the pieces found there are in
  their places, and every piece can be stored.
\<close>

definition kept :: "fs \<Rightarrow> piece list \<Rightarrow> swarm \<Rightarrow> bool" where
  "kept fs h w \<longleftrightarrow> (let m = sw_main w in
     (mn_saved m \<or> mn_fs m = fs)
     \<and> (\<forall>p \<in> set h. pc_Index p \<in> have_set m \<and> rs_Pieces (mn_results m) ! nat (pc_Index p) = Some p)
     \<and> (\<forall>p. Some p \<in> set (rs_Pieces (mn_results m)) \<longrightarrow> piece_storable (on_disk p)))"

lemma kept_main:
  "kept fs h \<lparr>sw_main = m, sw_pending = pd, sw_sessions = ss\<rparr> \<longleftrightarrow>
     (mn_saved m \<or> mn_fs m = fs)
     \<and> (\<forall>p \<in> set h. pc_Index p \<in> have_set m \<and> rs_Pieces (mn_results m) ! nat (pc_Index p) = Some p)
     \<and> (\<forall>p. Some p \<in> set (rs_Pieces (mn_results m)) \<longrightarrow> piece_storable (on_disk p))"
  by (simp add: kept_def Let_def)

lemma take_piece_places:
  assumes "take_piece p m = Inr m'"
  shows "rs_Pieces (mn_results m') = (rs_Pieces (mn_results m))[nat (pc_Index p) := Some p] \<and> mn_fs m' = mn_fs m
    \<and> mn_saved m' = mn_saved m"
  using assms by (auto simp: take_piece_def Let_def split: sum.splits if_splits)

text \<open>The disk changes only together with the mark that the file is saved.\<close>

definition disk_step :: "main_state \<Rightarrow> main_state \<Rightarrow> bool" where
  "disk_step m m' \<longleftrightarrow> (mn_saved m \<longrightarrow> mn_saved m') \<and> (mn_saved m' \<or> mn_fs m' = mn_fs m)"

lemma main_select_disk:
  assumes "main_select cf ev m = Some (Inr (exit, m'))"
  shows "mn_fs m' = mn_fs m \<and> mn_saved m' = mn_saved m"
proof (cases ev)
  case PieceArrived
  with assms show ?thesis by (auto split: list.splits dest!: take_piece_places)
next
  case (ChokeTick srt rnd iorder gorder)
  with assms show ?thesis by (auto simp: choke_tick_def)
next
  case (TrackerTick get net)
  with assms show ?thesis
    by (auto simp: tracker_tick_def Let_def split: option.splits sum.splits prod.splits go_error.splits)
qed (use assms in \<open>auto split: list.splits\<close>)

lemma update_online_disk: "mn_fs (update_online now m) = mn_fs m \<and> mn_saved (update_online now m) = mn_saved m"
  by (simp add: update_online_def split: prod.split)

lemma relaunch_disk: "relaunch cf dial now m = Inr (as, m') \<Longrightarrow> mn_fs m' = mn_fs m \<and> mn_saved m' = mn_saved m"
  by (auto simp: relaunch_def Let_def split: if_splits prod.splits sum.splits)

lemma save_when_done_disk: "save_when_done cf script m = Inr m' \<Longrightarrow> disk_step m m'"
  by (auto simp: save_when_done_def disk_step_def split: if_splits prod.splits sum.splits)

lemma main_iter_disk:
  assumes "main_iter cf dial now script ev m = Some (Inr (status, as, m'))"
  shows "disk_step m m'"
proof -
  obtain exit m1 where sel: "main_select cf ev m = Some (Inr (exit, m1))"
    using assms by (auto simp: main_iter_def split: option.splits sum.splits)
  let ?m2 = "update_online now m1"
  have m2: "mn_fs ?m2 = mn_fs m \<and> mn_saved ?m2 = mn_saved m"
    using main_select_disk [OF sel] update_online_disk [of now m1] by simp
  show ?thesis
  proof (cases exit)
    case True
    with assms sel m2 show ?thesis by (simp add: main_iter_def Let_def disk_step_def)
  next
    case False
    with assms sel obtain as' m3 where "relaunch cf dial now ?m2 = Inr (as', m3)" "save_when_done cf script m3 = Inr m'"
      by (auto simp: main_iter_def Let_def)
    with m2 relaunch_disk save_when_done_disk show ?thesis unfolding disk_step_def by metis
  qed
qed

lemma verified_is_storable:
  assumes "piece_verified sha1 t p" and "tf_PieceLength t < 2 ^ 32" and "num_hashes t \<le> 2 ^ 32"
  shows "piece_storable (on_disk p)"
  using assms by (simp add: piece_verified_def piece_storable_def on_disk_def)

lemma main_iter_kept:
  assumes iter: "main_iter cf dial now script ev m = Some (Inr (status, as, m'))"
    and inv: "work_inv sha1 t (H + comm_tokens (mn_comms m)) m"
    and bounds: "tf_PieceLength t < 2 ^ 32" "num_hashes t \<le> 2 ^ 32"
    and kept: "kept fs h \<lparr>sw_main = m, sw_pending = pd, sw_sessions = ss\<rparr>"
  shows "kept fs h \<lparr>sw_main = m', sw_pending = pd', sw_sessions = ss'\<rparr>"
proof -
  note k = kept [unfolded kept_main]
  have disk: "mn_saved m' \<or> mn_fs m' = fs" using main_iter_disk [OF iter] k by (auto simp: disk_step_def)
  from iter show ?thesis
  proof (cases rule: main_iter_cases)
    case same
    then have "mn_results m' = mn_results m" by (simp add: same_work_def)
    with k disk show ?thesis by (simp add: kept_main have_set_def)
  next
    case (piece p ps m1)
    let ?m = "m\<lparr>mn_comms := (mn_comms m)\<lparr>cm_Results := ps\<rparr>\<rparr>"
    have p: "piece_verified sha1 t p" and cm: "comms_inv sha1 t ((mn_comms m)\<lparr>cm_Results := ps\<rparr>)"
      using inv piece(1) by (auto simp: work_inv_def comms_inv_def)
    have "pc_Index p \<in># H + comm_tokens (mn_comms m)"
      using comm_tokens_take_result [OF piece(1)] by simp
    note take = take_piece_inv [OF work_inv_comms [OF cm inv] p this piece(2)]
    have "mn_results m' = mn_results m1" using piece(3) by (simp add: same_work_def)
    then have pieces: "rs_Pieces (mn_results m') = (rs_Pieces (mn_results m))[nat (pc_Index p) := Some p]"
      and have': "have_set m' = insert (pc_Index p) (have_set m)"
      using take_piece_places [OF piece(2)] take(2) by (simp_all add: have_set_def)
    have new: "pc_Index p \<notin> have_set m" using take(3) by simp
    have "rs_Pieces (mn_results m') ! nat (pc_Index q) = Some q" if "q \<in> set h" for q
    proof -
      have q: "pc_Index q \<in> have_set m" "rs_Pieces (mn_results m) ! nat (pc_Index q) = Some q"
        using k that by blast+
      then have "0 \<le> pc_Index q" using bf.members_range by (fastforce simp: have_set_def)
      with q(1) new p have "nat (pc_Index q) \<noteq> nat (pc_Index p)" by (auto simp: piece_verified_def eq_nat_nat_iff)
      with q(2) show ?thesis by (simp add: pieces)
    qed
    moreover have "piece_storable (on_disk q)" if "Some q \<in> set (rs_Pieces (mn_results m'))" for q
    proof -
      have "Some q \<in> insert (Some p) (set (rs_Pieces (mn_results m)))"
        using that set_update_subset_insert [of "rs_Pieces (mn_results m)"] unfolding pieces by blast
      then show ?thesis using k verified_is_storable [OF p bounds] by auto
    qed
    ultimately show ?thesis using k disk have' by (auto simp: kept_main)
  qed
qed

lemma kept_main_round:
  assumes "main_round cf now ev as w w'" and "swarm_inv sha1 (cf_torrent cf) w" and "kept fs h w"
    and "tf_PieceLength (cf_torrent cf) < 2 ^ 32" and "num_hashes (cf_torrent cf) \<le> 2 ^ 32"
  shows "kept fs h w'"
  using assms
proof (induction rule: main_round.induct)
  case (round_main ev m dial now script as m' pd ss)
  have "work_inv sha1 (cf_torrent cf) (sum_list (map held ss) + comm_tokens (mn_comms m)) m"
    using round_main(4) by (simp add: swarm_inv_def)
  from main_iter_kept [OF round_main(3) this round_main(6,7,5)] show ?case .
qed

lemma kept_goroutine: "goroutine_round sha1 cf w w' \<Longrightarrow> kept fs h w \<Longrightarrow> kept fs h w'"
  by (induction rule: goroutine_round.induct) (simp_all add: kept_main)

lemma kept_step:
  assumes "swarm_step sha1 cf w w'" and "swarm_inv sha1 (cf_torrent cf) w" and "kept fs h w"
    and "tf_PieceLength (cf_torrent cf) < 2 ^ 32" and "num_hashes (cf_torrent cf) \<le> 2 ^ 32"
  shows "kept fs h w'"
  using assms by (blast elim: swarm_stepE dest: kept_main_round kept_goroutine)

lemma kept_steps:
  assumes "(swarm_step sha1 cf)\<^sup>*\<^sup>* w0 w" and "swarm_inv sha1 (cf_torrent cf) w0" and "kept fs h w0"
    and "tf_PieceLength (cf_torrent cf) < 2 ^ 32" and "num_hashes (cf_torrent cf) \<le> 2 ^ 32"
  shows "kept fs h w"
  using assms(1)
proof (induction rule: rtranclp_induct)
  case (step y z)
  from kept_step [OF step(2) client.inv_steps [OF step(1) assms(2)] step.IH assms(4,5)] show ?case .
qed (rule assms(3))

lemma started_kept:
  assumes "started_on sha1 cf fs w" and "clean_disk sha1 (cf_torrent cf) fs old"
  defines "h \<equiv> held_from old 0 (fileNumber (cf_torrent cf))"
  shows "kept fs h w" and "cf_savedNumber cf = int (length h)" and "bf_members (cf_savedPieces cf) = pc_Index ` set h"
    and "bf_wf (cf_savedPieces cf)" and "bf_Length (cf_savedPieces cf) = num_hashes (cf_torrent cf)"
    and "\<exists>res0. results_start (cf_torrent cf) = Inr res0"
proof -
  let ?t = "cf_torrent cf"
  obtain url_Parse unmarshal net perm peerId port m0 dial now as m where
    run: "main_start sha1 url_Parse unmarshal net perm peerId port ?t fs = Some (Inr (cf, m0))"
    and launch: "first_launch cf dial now m0 = Inr (as, m)" and w: "w = swarm_start as m"
    using assms(1) unfolding started_on_def by metis
  obtain res0 full where res0: "results_start ?t = Inr res0" and load: "loadFromFile sha1 ?t fs res0 = (Inr full, mn_results m0)"
    and saved: "mn_saved m0 = full" "cf_savedNumber cf = rs_PiecesDone (mn_results m0)"
      "cf_savedPieces cf = rs_Bitfield (mn_results m0)" "\<not> full \<longrightarrow> mn_fs m0 = fs"
    using main_start_Inr [OF run] .
  note l = load_clean_disk [OF assms(2) res0 load, folded h_def]
  have ok: "results_ok sha1 ?t (mn_results m0)" using loadFromFile_ok(1) [OF load results_start_ok(1) [OF res0]] .
  have same: "mn_results m = mn_results m0" "mn_fs m = mn_fs m0" "mn_saved m = mn_saved m0"
    using launch by (auto simp: first_launch_def split: if_splits prod.splits sum.splits)
  have "piece_storable (on_disk p)" if "p \<in> set h" for p
    using that assms(2) by (auto simp: h_def held_from_def clean_disk_def verified_storable_def)
  with l saved show "kept fs h w"
    by (auto simp: w swarm_start_def kept_main same have_set_def)
  show "cf_savedNumber cf = int (length h)" "bf_members (cf_savedPieces cf) = pc_Index ` set h"
    using l saved by simp_all
  show "bf_wf (cf_savedPieces cf)" "bf_Length (cf_savedPieces cf) = num_hashes ?t"
    using ok saved by (simp_all add: results_ok_def)
  show "\<exists>res0. results_start ?t = Inr res0" using res0 by blast
qed

section \<open>Stopping\<close>

text \<open>What stopping in a state of a run leaves on the disk is what the next start finds.\<close>

lemma stop_resumes:
  assumes start: "started_on sha1 cf fs w0" and disk: "clean_disk sha1 t fs old" and run: "(swarm_step sha1 cf)\<^sup>*\<^sup>* w0 w"
    and t: "t = cf_torrent cf" and n: "GetNumberOfPieces t = Inr (num_hashes t)"
    and bounds: "tf_PieceLength t < 2 ^ 32" "num_hashes t \<le> 2 ^ 32"
    and unsaved: "\<not> mn_saved (sw_main w)" and res0: "results_start t = Inr res0"
    and m: "mn_results m = mn_results (sw_main w)" "mn_fs m = mn_fs (sw_main w)" "mn_saved m = mn_saved (sw_main w)"
  shows "\<exists>m' res'. main_finish cf (\<lambda>k. []) m = Inr m' \<and> loadFromFile sha1 t (mn_fs m') res0 = (Inr False, res')
    \<and> rs_Pieces res' = map (map_option on_disk) (rs_Pieces (mn_results (sw_main w)))
    \<and> rs_PiecesDone res' = rs_PiecesDone (mn_results (sw_main w))
    \<and> bf_members (rs_Bitfield res') = have_set (sw_main w)"
proof -
  let ?h = "held_from old 0 (fileNumber t)" and ?res = "mn_results (sw_main w)"
  note s = started_kept [OF start disk [unfolded t], folded t]
  have "swarm_started sha1 cf w0" using start by (auto simp: swarm_started_def)
  note inv0 = swarm_started_inv [OF this]
  have "kept fs ?h w" using kept_steps [OF run inv0 s(1)] bounds by (simp add: t)
  then have k: "mn_fs (sw_main w) = fs" "\<forall>p \<in> set ?h. rs_Pieces ?res ! nat (pc_Index p) = Some p"
    "\<forall>p. Some p \<in> set (rs_Pieces ?res) \<longrightarrow> piece_storable (on_disk p)"
    using unsaved by (simp_all add: kept_def Let_def)
  have inv: "work_inv sha1 t (tokens w) (sw_main w)"
    using client.inv_steps [OF run inv0] by (simp add: swarm_inv_def t)
  then have ok: "results_ok sha1 t ?res" by (simp add: work_inv_def)
  have "resumable sha1 t fs old (cf_savedPieces cf) ?res"
    using disk k(2) s(3-5) by (simp add: resumable_def clean_disk_def Let_def)
  from resume_load [OF res0 ok this k(3)] obtain fs' res' where
    sv: "savePartialFiles t ?res (cf_savedPieces cf) (\<lambda>k. []) fs = (None, fs')"
    and ld: "loadFromFile sha1 t fs' res0 = (Inr False, res')" "rs_Pieces res' = map (map_option on_disk) (rs_Pieces ?res)"
      "rs_PiecesDone res' = int (card (bf_members (rs_Bitfield ?res)))"
      "bf_members (rs_Bitfield res') = bf_members (rs_Bitfield ?res)"
    by auto
  have "cf_savedNumber cf < num_hashes t" using s(2) disk by (simp add: clean_disk_def)
  with n sv unsaved m k(1) have "main_finish cf (\<lambda>k. []) m = Inr (m\<lparr>mn_fs := fs'\<rparr>)"
    by (simp add: main_finish_def t)
  with ld inv show ?thesis
    by (intro exI [of _ "m\<lparr>mn_fs := fs'\<rparr>"] exI [of _ res']) (simp add: have_set_def work_inv_def)
qed

end
