(* ===== verification/Swarm_Pool.thy ===== *)
theory Swarm_Pool
  imports Swarm_Inv
begin

text \<open>
  Connections and goroutines. Every connection in the pool belongs to one goroutine that was started
  on it, or to one whose end is reported and not processed yet. The lemmas say what each step does
  to the three: the addresses in the pool, the goroutines, the reports.
\<close>

section \<open>Sessions keep their peer\<close>

text \<open>What identifies a session to the main goroutine, and what was reported to it.\<close>

definition identity :: "loop_state \<Rightarrow> string \<times> addr \<times> (string \<times> addr) list" where
  "identity st = (pr_ID (ss_peer (fst st)), pr_Addr (ss_peer (fst st)), cm_ConnectionEnded (snd st))"

lemma phase_identity:
  "phase_upload pieces st = Inr st' \<Longrightarrow> identity st' = identity st"
  "phase_complete sha1 st = Inr st' \<Longrightarrow> identity st' = identity st"
  "phase_order t st = Inr st' \<Longrightarrow> identity st' = identity st"
  "identity (phase_interested st) = identity st"
  "identity (phase_requests st) = identity st"
proof -
  obtain s cm where st: "st = (s, cm)" by (cases st)
  show "phase_upload pieces st = Inr st' \<Longrightarrow> identity st' = identity st"
    by (auto simp: st phase_upload_def identity_def split: if_splits sum.splits prod.splits)
  have "handlePieceComplete sha1 pg p w cm = (e, p', w', cm')
      \<Longrightarrow> pr_ID p' = pr_ID p \<and> pr_Addr p' = pr_Addr p \<and> cm_ConnectionEnded cm' = cm_ConnectionEnded cm" for pg p w e p' w' cm'
    by (auto simp: handlePieceComplete_def split: option.splits if_splits sum.splits prod.splits)
  then show "phase_complete sha1 st = Inr st' \<Longrightarrow> identity st' = identity st"
    by (fastforce simp: st phase_complete_def identity_def split: option.splits if_splits prod.splits)
  show "phase_order t st = Inr st' \<Longrightarrow> identity st' = identity st"
    by (auto simp: st phase_order_def identity_def split: if_splits option.splits prod.splits)
  show "identity (phase_interested st) = identity st"
    by (auto simp: st phase_interested_def identity_def split: prod.splits dest!: sendInterested_peer)
  show "identity (phase_requests st) = identity st"
    by (simp add: st phase_requests_def identity_def split: prod.splits)
qed

lemma loop_top_identity:
  assumes "loop_top sha1 t pieces st = Inr st'"
  shows "identity st' = identity st"
  using assms by (auto simp: loop_top_def phase_identity dest!: phase_identity(1-3))

lemma handlePieceMsg_peer: "handlePieceMsg msg s = (e, s') \<Longrightarrow> ss_peer s' = ss_peer s"
  by (auto simp: handlePieceMsg_def Let_def split: sum.splits prod.splits option.splits if_splits)

lemma handleMessage_identity:
  assumes "handleMessage t msg s cm = (e, s', cm')"
  shows "identity (s', cm') = identity (s, cm)"
  using assms
  by (auto simp: handleMessage_def Let_def identity_def split: if_splits sum.splits prod.splits
      dest!: handlePieceMsg_peer)

text \<open>A session keeps its address, and reports it exactly when it ends.\<close>

lemma session_iter_identity:
  assumes "session_iter sha1 t pieces ev (s, cm) = Inr (status, s', cm')"
  shows "pr_Addr (ss_peer s') = pr_Addr (ss_peer s) \<and> cm_ConnectionEnded cm' = cm_ConnectionEnded cm
    @ (if status = Ended then [(pr_ID (ss_peer s), pr_Addr (ss_peer s))] else [])"
proof -
  obtain s1 cm1 where top: "loop_top sha1 t pieces (s, cm) = Inr (s1, cm1)"
    and ev: "handle_event t ev (s1, cm1) = Inr (status, s', cm')"
    using assms by (auto simp: session_iter_def)
  have one: "pr_ID (ss_peer s1) = pr_ID (ss_peer s)" "pr_Addr (ss_peer s1) = pr_Addr (ss_peer s)"
    "cm_ConnectionEnded cm1 = cm_ConnectionEnded cm"
    using loop_top_identity [OF top] by (simp_all add: identity_def)
  have requeue: "cm_ConnectionEnded (requeue_order s1 cm1) = cm_ConnectionEnded cm1"
    by (simp add: requeue_order_def split: option.split)
  show ?thesis
  proof (cases ev)
    case (Received m)
    show ?thesis
    proof (cases "pm_KeepAlive m")
      case True
      with Received ev one show ?thesis by simp
    next
      case False
      obtain e s2 cm2 where hm: "handleMessage t m s1 cm1 = (e, s2, cm2)" by (metis prod_cases3)
      with Received ev one False handleMessage_identity [OF hm] show ?thesis
        by (auto simp: identity_def report_end_def chan.contents_send split: option.splits if_splits)
    qed
  qed (use ev one requeue in \<open>auto simp: report_end_def chan.contents_send Let_def split: if_splits\<close>)
qed

lemma open_session_identity:
  assumes "open_session side c t res peerId cm = Inr (r, cm')"
  shows "case r of
      Some s \<Rightarrow> pr_Addr (ss_peer s) = c_addr c \<and> cm_ConnectionEnded cm' = cm_ConnectionEnded cm
    | None \<Rightarrow> cm_ConnectionEnded cm' = cm_ConnectionEnded cm @ [(''unknown'', c_addr c)]"
proof -
  have acc: "acceptHandshake c0 h = (Inr p, c1) \<Longrightarrow> pr_Addr p = c_addr c0" for c0 h p c1
    by (auto simp: acceptHandshake_def split: prod.splits sum.splits if_splits)
  have addr: "sendHandshake c0 i h = (e, c1) \<Longrightarrow> c_addr c1 = c_addr c0" for c0 i h e c1
    by (auto simp: sendHandshake_def split: sum.splits prod.splits option.splits if_splits)
  have "AcceptConnection c t res peerId = (Inr p, c1) \<Longrightarrow> pr_Addr p = c_addr c"
    "InitiateConnection c t res peerId = (Inr p, c1) \<Longrightarrow> pr_Addr p = c_addr c" for p c1
    by (auto simp: AcceptConnection_def InitiateConnection_def split: prod.splits sum.splits option.splits
        dest!: acc addr)
  with assms show ?thesis
    by (auto simp: open_session_defs session_start_def chan.contents_send
        split: prod.splits sum.splits side.splits if_splits)
qed

section \<open>What the main goroutine does to the pool\<close>

lemma launch_loop_adds:
  assumes "pool_inv c" and "dial_ok dial c" and "launch_loop dial now requested peers n c = (Inr as, c')"
  shows "pool_inv c' \<and> cs_peers c' = cs_peers c @ map (\<lambda>a. \<lparr>cn_ip = a, cn_unchoke = []\<rparr>) as"
  using assms
proof (induction peers arbitrary: n c as)
  case (Cons peer peers)
  obtain ipb port where peer: "peer = (ipb, port)" by (cases peer)
  let ?ip = "ip_String ipb"
  obtain b1 c1 where bl: "IsBlacklisted now c ?ip = (b1, c1)" by force
  have c1: "cs_peers c1 = cs_peers c" using IsBlacklisted_spec(3) [of now c ?ip] bl by simp
  have inv1: "pool_inv c1" "pool_ips c1 = pool_ips c" "dial_ok dial c1"
    using pool_inv_peers [OF c1] dial_ok_peers [OF c1] Cons.prems(1,2) by auto
  consider (skip_open) "?ip \<in> pool_ips c" | (skip_bl) "?ip \<notin> pool_ips c" "b1" | (go) "?ip \<notin> pool_ips c" "\<not> b1" by blast
  then show ?case
  proof cases
    case skip_open
    with Cons.prems(3) have "launch_loop dial now requested peers n c = (Inr as, c')"
      using IsOpen_inv [OF Cons.prems(1)] by (simp add: peer Let_def)
    from Cons.IH [OF Cons.prems(1,2) this] show ?thesis .
  next
    case skip_bl
    with Cons.prems(3) have "launch_loop dial now requested peers n c1 = (Inr as, c')"
      using IsOpen_inv [OF Cons.prems(1)] bl by (simp add: peer Let_def)
    from Cons.IH [OF inv1(1,3) this] c1 show ?thesis by simp
  next
    case go
    have notopen: "?ip \<notin> pool_ips c1" using go(1) inv1(2) by simp
    obtain pt where port: "port = Some pt"
      using Cons.prems(3) go IsOpen_inv [OF Cons.prems(1)] bl by (cases port) (simp_all add: peer Let_def)
    from inv1(1,3) notopen show ?thesis
    proof (cases rule: connectToPeer_cases [of c1 dial ?ip pt now])
      case failed
      let ?c2 = "BlacklistIp now c1 ?ip"
      have inv2: "pool_inv ?c2" "dial_ok dial ?c2" using inv1 dial_ok_peers [of ?c2 c1] by simp_all
      have "as = [] \<and> c' = ?c2 \<or> launch_loop dial now requested peers n ?c2 = (Inr as, c')"
        using Cons.prems(3) go IsOpen_inv [OF Cons.prems(1)] bl failed(2) port
        by (auto simp: peer Let_def split: if_splits)
      with Cons.IH [OF inv2] inv2 c1 show ?thesis by auto
    next
      case (connected a c2)
      have "as = [a] \<and> c' = c2
          \<or> (\<exists>as'. as = a # as' \<and> launch_loop dial now requested peers (n + 1) c2 = (Inr as', c'))"
        using Cons.prems(3) go IsOpen_inv [OF Cons.prems(1)] bl connected(2) port
        by (auto simp: peer Let_def split: if_splits sum.splits prod.splits)
      with Cons.IH [OF connected(3,4)] connected c1 show ?thesis by auto
    qed
  qed
qed simp

abbreviation pool_addrs :: "connections \<Rightarrow> addr list" where
  "pool_addrs c \<equiv> map cn_ip (cs_peers c)"

text \<open>Every unchoke channel holds at most one list, of at most five ids.\<close>

definition unchoke_ok :: "connections \<Rightarrow> bool" where
  "unchoke_ok c \<longleftrightarrow> (\<forall>p \<in> set (cs_peers c). length (cn_unchoke p) \<le> 1 \<and> (\<forall>ids \<in> set (cn_unchoke p). length ids \<le> 5))"

lemma chokeAlgorithm_five: "chokeAlgorithm srt rnd iorder gorder gen intr = Inr ps \<Longrightarrow> length ps \<le> 5"
proof -
  have "length (fold (\<lambda>i ps. ps[i := f i]) is xs) = length xs" for f "is" and xs :: "string list"
    by (induction "is" arbitrary: xs) simp_all
  then show "chokeAlgorithm srt rnd iorder gorder gen intr = Inr ps \<Longrightarrow> length ps \<le> 5"
    by (auto simp: chokeAlgorithm_def Let_def split: if_splits)
qed

lemma choke_tick_pool:
  assumes "choke_tick srt rnd iorder gorder m = Inr m'"
  shows "mn_comms m' = mn_comms m \<and> pool_addrs (mn_conns m') = pool_addrs (mn_conns m)
    \<and> (unchoke_ok (mn_conns m) \<longrightarrow> unchoke_ok (mn_conns m'))"
proof -
  obtain ps where ps: "chokeAlgorithm srt rnd iorder gorder (mn_generosity m) (mn_interested m) = Inr ps"
    and m': "m' = m\<lparr>mn_conns := (mn_conns m)\<lparr>cs_peers := map (offer_unchoke ps) (cs_peers (mn_conns m))\<rparr>\<rparr>"
    using assms by (auto simp: choke_tick_def)
  have "length ps \<le> 5" using chokeAlgorithm_five [OF ps] .
  then show ?thesis
    by (auto simp: m' offer_unchoke_def unchoke_ok_def comp_def)
qed

lemma pool_inv_addrs:
  "pool_inv c \<longleftrightarrow> (\<forall>a \<in> set (pool_addrs c). is_tcp a) \<and> distinct (map addr_ip (pool_addrs c))
    \<and> distinct (map addr_ref (pool_addrs c))"
  by (simp add: pool_inv_def)

lemma main_select_pool:
  assumes "main_select cf ev m = Some (Inr (exit, m'))"
  shows "cm_ConnectionEnded (mn_comms m') = cm_ConnectionEnded (mn_comms m)
    \<and> pool_addrs (mn_conns m') = pool_addrs (mn_conns m) \<and> (unchoke_ok (mn_conns m) \<longrightarrow> unchoke_ok (mn_conns m'))"
proof (cases ev)
  case PieceArrived
  have "take_piece p m1 = Inr m2 \<Longrightarrow> mn_comms m2 = mn_comms m1 \<and> mn_conns m2 = mn_conns m1" for p m1 m2
    by (auto simp: take_piece_def Let_def split: sum.splits if_splits)
  with PieceArrived assms show ?thesis by (auto split: list.splits)
next
  case (ChokeTick srt rnd iorder gorder)
  with assms choke_tick_pool show ?thesis by auto
next
  case (TrackerTick get net)
  with assms show ?thesis
    by (auto simp: tracker_tick_def Let_def split: option.splits sum.splits prod.splits go_error.splits)
qed (use assms in \<open>auto split: list.splits\<close>)

text \<open>Forgetting the ended connections leaves those of the goroutines that are still there.\<close>

lemma update_online_pool:
  assumes inv: "pool_inv (mn_conns m)"
    and bal: "mset (pool_addrs (mn_conns m)) = mset (live @ map snd (cm_ConnectionEnded (mn_comms m)))"
  shows "pool_inv (mn_conns (update_online now m)) \<and> mset (pool_addrs (mn_conns (update_online now m))) = mset live
    \<and> cm_ConnectionEnded (mn_comms (update_online now m)) = []
    \<and> set (cs_peers (mn_conns (update_online now m))) \<subseteq> set (cs_peers (mn_conns m))"
proof -
  let ?ended = "cm_ConnectionEnded (mn_comms m)"
  let ?es = "map snd ?ended"
  obtain c1 gen1 intr1 where f: "forget_ended now ?ended (mn_conns m) (mn_generosity m) (mn_interested m) = (c1, gen1, intr1)"
    by (metis prod_cases3)
  have c1: "cs_peers c1 = cs_peers (mn_conns m)" using forget_ended_spec [OF f] by simp
  have "pool_inv c1" using pool_inv_peers [OF c1] inv by simp
  note r = remove_ended_spec [OF this, of ?es, unfolded c1]
  let ?c = "remove_ended ?es c1"
  have m': "update_online now m = m\<lparr>mn_conns := ?c, mn_comms := (mn_comms m)\<lparr>cm_ConnectionEnded := []\<rparr>,
      mn_generosity := gen1, mn_interested := intr1\<rparr>"
    by (simp add: update_online_def updateOnlineConnections_def f)
  have "mset (map addr_ref (pool_addrs (mn_conns m))) = mset (map addr_ref (live @ ?es))"
    using arg_cong [OF bal, of "image_mset addr_ref"] by (simp only: mset_map)
  then have "distinct (map addr_ref (live @ ?es))"
    using inv mset_eq_imp_distinct_iff unfolding pool_inv_addrs by blast
  then have live: "distinct live" "\<forall>a \<in> set live. addr_ref a \<notin> addr_ref ` set ?es"
    by (auto simp: distinct_map)
  have "set (pool_addrs (mn_conns m)) = set live \<union> set ?es" using mset_eq_setD [OF bal] by simp
  moreover have "set (pool_addrs ?c) = {a \<in> set (pool_addrs (mn_conns m)). addr_ref a \<notin> addr_ref ` set ?es}"
    using r by auto
  ultimately have "set (pool_addrs ?c) = {a \<in> set live \<union> set ?es. addr_ref a \<notin> addr_ref ` set ?es}" by simp
  then have "set (pool_addrs ?c) = set live" using live(2) by blast
  moreover have "distinct (pool_addrs ?c)" using r unfolding pool_inv_addrs distinct_map by blast
  ultimately have "mset (pool_addrs ?c) = mset live" using live(1) set_eq_iff_mset_eq_distinct by blast
  with r show ?thesis by (auto simp: m')
qed

lemma launchClients_adds:
  assumes "pool_inv c" and "dial_ok dial c" and "launchClients dial now requested info c = (Inr as, c')"
  shows "pool_inv c' \<and> cs_peers c' = cs_peers c @ map (\<lambda>a. \<lparr>cn_ip = a, cn_unchoke = []\<rparr>) as"
  using launch_loop_adds [OF assms(1,2)] assms(3) unfolding launchClients_def by blast

lemma relaunch_cases:
  assumes "relaunch cf dial now m = Inr (as, m')"
  obtains (none) "as = []" and "m' = m"
  | (launched) requested c where "launchClients dial now requested (mn_tracker m) (mn_conns m) = (Inr as, c)"
      and "m' = m\<lparr>mn_conns := c\<rparr>"
proof (cases "rs_PiecesDone (mn_results m) \<noteq> num_hashes (cf_torrent cf) \<and> int (length (cs_peers (mn_conns m))) < maximumDownloaders")
  case True
  obtain r c where "launchClients dial now (maximumDownloaders - int (length (cs_peers (mn_conns m)))) (mn_tracker m) (mn_conns m) = (r, c)"
    by force
  with True assms launched show ?thesis by (cases r) (simp_all add: relaunch_def Let_def)
next
  case False
  with assms none show ?thesis by (auto simp: relaunch_def Let_def)
qed

lemma relaunch_pool:
  assumes "pool_inv (mn_conns m)" and "dial_ok dial (mn_conns m)" and "relaunch cf dial now m = Inr (as, m')"
  shows "mn_comms m' = mn_comms m \<and> pool_inv (mn_conns m')
    \<and> cs_peers (mn_conns m') = cs_peers (mn_conns m) @ map (\<lambda>a. \<lparr>cn_ip = a, cn_unchoke = []\<rparr>) as"
  using assms(3)
proof (cases rule: relaunch_cases)
  case (launched requested c)
  from launchClients_adds [OF assms(1,2) launched(1)] launched(2) show ?thesis by simp
qed (use assms(1) in simp)

lemma first_launch_cases:
  assumes "first_launch cf dial now m = Inr (as, m')"
  obtains (none) "as = []" and "m' = m"
  | (launched) requested c where "launchClients dial now requested (mn_tracker m) (mn_conns m) = (Inr as, c)"
      and "m' = m\<lparr>mn_conns := c\<rparr>"
proof (cases "rs_PiecesDone (mn_results m) = num_hashes (cf_torrent cf)")
  case False
  obtain r c where "launchClients dial now maximumDownloaders (mn_tracker m) (mn_conns m) = (r, c)" by force
  with False assms launched show ?thesis by (cases r) (simp_all add: first_launch_def)
next
  case True
  with assms none show ?thesis by (simp add: first_launch_def)
qed

lemma first_launch_pool:
  assumes "pool_inv (mn_conns m)" and "dial_ok dial (mn_conns m)" and "first_launch cf dial now m = Inr (as, m')"
  shows "pool_inv (mn_conns m')
    \<and> cs_peers (mn_conns m') = cs_peers (mn_conns m) @ map (\<lambda>a. \<lparr>cn_ip = a, cn_unchoke = []\<rparr>) as"
  using assms(3)
proof (cases rule: first_launch_cases)
  case (launched requested c)
  from launchClients_adds [OF assms(1,2) launched(1)] launched(2) show ?thesis by simp
qed (use assms(1) in simp)

lemma save_when_done_pool:
  "save_when_done cf script m = Inr m' \<Longrightarrow> mn_comms m' = mn_comms m \<and> mn_conns m' = mn_conns m"
  by (auto simp: save_when_done_def split: if_splits prod.splits sum.splits)

section \<open>Connections and goroutines\<close>

definition goroutine_addrs :: "swarm \<Rightarrow> addr list" where
  "goroutine_addrs w = map snd (sw_pending w) @ map (\<lambda>s. pr_Addr (ss_peer s)) (sw_sessions w)"

definition pool_balanced :: "swarm \<Rightarrow> bool" where
  "pool_balanced w \<longleftrightarrow> pool_inv (mn_conns (sw_main w)) \<and> unchoke_ok (mn_conns (sw_main w))
     \<and> mset (pool_addrs (mn_conns (sw_main w)))
       = mset (goroutine_addrs w @ map snd (cm_ConnectionEnded (mn_comms (sw_main w))))"

lemma main_iter_pool:
  assumes iter: "main_iter cf dial now script ev m = Some (Inr (Looping, as, m'))"
    and inv: "pool_inv (mn_conns m)" "unchoke_ok (mn_conns m)" and fresh: "dial_fresh dial (mn_conns m)"
    and bal: "mset (pool_addrs (mn_conns m)) = mset (live @ map snd (cm_ConnectionEnded (mn_comms m)))"
  shows "pool_inv (mn_conns m') \<and> unchoke_ok (mn_conns m') \<and> cm_ConnectionEnded (mn_comms m') = []
    \<and> mset (pool_addrs (mn_conns m')) = mset (live @ as)"
proof -
  obtain m1 m2 m3 where sel: "main_select cf ev m = Some (Inr (False, m1))" and m2: "m2 = update_online now m1"
    and re: "relaunch cf dial now m2 = Inr (as, m3)" and sv: "save_when_done cf script m3 = Inr m'"
    using iter by (auto simp: main_iter_def Let_def split: option.splits sum.splits if_splits)
  note s = main_select_pool [OF sel]
  have addrs1: "pool_addrs (mn_conns m1) = pool_addrs (mn_conns m)" using s by simp
  have inv1: "pool_inv (mn_conns m1)" "unchoke_ok (mn_conns m1)"
    using inv s unfolding pool_inv_addrs by auto
  have bal1: "mset (pool_addrs (mn_conns m1)) = mset (live @ map snd (cm_ConnectionEnded (mn_comms m1)))"
    using bal s by simp
  note u = update_online_pool [OF inv1(1) bal1, of now, folded m2]
  have un2: "unchoke_ok (mn_conns m2)" using inv1(2) u by (auto simp: unchoke_ok_def)
  have "addr_ref ` set (pool_addrs (mn_conns m2)) \<subseteq> addr_ref ` set (pool_addrs (mn_conns m))"
    unfolding addrs1 [symmetric] using u by auto
  then have "dial_ok dial (mn_conns m2)" by (intro dial_fresh_ok [OF fresh]) (simp add: image_comp)
  note r = relaunch_pool [OF _ this re]
  have un3: "unchoke_ok (mn_conns m3)" using un2 u r by (auto simp: unchoke_ok_def)
  have "mset (pool_addrs (mn_conns m3)) = mset (live @ as)" using u r by (simp add: comp_def)
  with u r un3 save_when_done_pool [OF sv] show ?thesis by simp
qed

lemma take_unchoke_pool:
  "pool_addrs (take_unchoke ev s c) = pool_addrs c"
  "unchoke_ok c \<Longrightarrow> unchoke_ok (take_unchoke ev s c)"
  "pool_inv (take_unchoke ev s c) = pool_inv c"
proof -
  show addrs: "pool_addrs (take_unchoke ev s c) = pool_addrs c" by (cases ev) (simp_all add: comp_def)
  then show "pool_inv (take_unchoke ev s c) = pool_inv c" unfolding pool_inv_addrs by (simp only: addrs)
  have tl: "length (tl xs) \<le> 1 \<and> (\<forall>ids \<in> set (tl xs). length ids \<le> 5)"
    if "length xs \<le> 1 \<and> (\<forall>ids \<in> set xs. length ids \<le> 5)" for xs :: "string list list"
    using that by (cases xs) auto
  assume ok: "unchoke_ok c"
  show "unchoke_ok (take_unchoke ev s c)"
    unfolding unchoke_ok_def
  proof
    fix q
    assume "q \<in> set (cs_peers (take_unchoke ev s c))"
    then obtain p where "p \<in> set (cs_peers c)" and "cn_unchoke q = cn_unchoke p \<or> cn_unchoke q = tl (cn_unchoke p)"
      by (cases ev) (auto split: if_splits)
    with ok tl [of "cn_unchoke p"] show "length (cn_unchoke q) \<le> 1 \<and> (\<forall>ids \<in> set (cn_unchoke q). length ids \<le> 5)"
      by (auto simp: unchoke_ok_def)
  qed
qed

lemma pool_balanced_start:
  assumes "swarm_started sha1 cf w"
  shows "pool_balanced w"
proof -
  obtain url_Parse unmarshal net perm peerId port fs m0 dial now as m where
    run: "main_start sha1 url_Parse unmarshal net perm peerId port (cf_torrent cf) fs = Some (Inr (cf, m0))"
    and fresh: "dial_fresh dial (mn_conns m0)" and launch: "first_launch cf dial now m0 = Inr (as, m)"
    and w: "w = swarm_start as m"
    using assms unfolding swarm_started_def started_on_def by metis
  have m0: "cs_peers (mn_conns m0) = []" "cm_ConnectionEnded (mn_comms m0) = []"
    using run by (auto simp: main_start_def Let_def comms_start_def
        split: sum.splits prod.splits option.splits go_error.splits if_splits)
  then have "pool_inv (mn_conns m0)" by (simp add: pool_inv_def)
  from first_launch_pool [OF this dial_fresh_ok [OF fresh] launch] first_launch_same [OF launch] m0 show ?thesis
    by (simp add: pool_balanced_def w swarm_start_def goroutine_addrs_def unchoke_ok_def comp_def)
qed

lemma pool_balanced_main:
  assumes "main_round cf now ev as w w'" and "pool_balanced w"
  shows "pool_balanced w'"
  using assms
proof (induction rule: main_round.induct)
  case (round_main ev m dial now script as m' pd ss)
  from main_iter_pool [OF round_main(3) _ _ round_main(2), of "map snd pd @ map (\<lambda>s. pr_Addr (ss_peer s)) ss"] round_main(4)
  show ?case by (simp add: pool_balanced_def goroutine_addrs_def comp_def)
qed

lemma pool_balanced_goroutine:
  assumes "goroutine_round sha1 cf w w'" and "pool_balanced w"
  shows "pool_balanced w'"
  using assms
proof (induction rule: goroutine_round.induct)
  case (round_listen m a started cs pd ss)
  obtain r c' where add: "Add (mn_conns m) a = (r, c')" by force
  have "pool_inv (mn_conns m)" using round_listen(3) by (simp add: pool_balanced_def)
  note ai = Add_inv [OF this round_listen(1) add]
  have "started = None \<and> cs = mn_conns m \<or> (\<exists>new. started = Some a \<and> r = Inr new \<and> cs = c')"
    using round_listen(2) add ai by (auto simp: listen_round_def split: sum.splits)
  moreover have "cn_unchoke new = []" if "r = Inr new" for new
    using add that by (auto simp: Add_def Add_commit_def Let_def split: sum.splits)
  ultimately show ?case
    using round_listen(3) ai by (auto simp: pool_balanced_def goroutine_addrs_def unchoke_ok_def)
next
  case (round_open side c m s cm pd1 pd2 ss)
  with open_session_identity [OF round_open(1)] show ?case
    by (simp add: pool_balanced_def goroutine_addrs_def)
next
  case (round_refused side c m cm pd1 pd2 ss)
  with open_session_identity [OF round_refused(1)] show ?case
    by (simp add: pool_balanced_def goroutine_addrs_def)
next
  case (round_session ev s m s' cm pd ss1 ss2)
  from session_iter_identity [OF round_session(2)] round_session(3) show ?case
    by (simp add: pool_balanced_def goroutine_addrs_def take_unchoke_pool)
next
  case (round_session_ends ev s m s' cm pd ss1 ss2)
  from session_iter_identity [OF round_session_ends(2)] round_session_ends(3) show ?case
    by (simp add: pool_balanced_def goroutine_addrs_def)
qed

lemma pool_balanced_step: "pool_balanced w \<Longrightarrow> swarm_step sha1 cf w w' \<Longrightarrow> pool_balanced w'"
  by (blast elim: swarm_stepE dest: pool_balanced_main pool_balanced_goroutine)

interpretation pool_of_client: step_system "swarm_started sha1 cf" "swarm_step sha1 cf" pool_balanced
  for sha1 :: "byte list \<Rightarrow> hash" and cf
  by unfold_locales (auto intro: pool_balanced_start pool_balanced_step)

end
