(* ===== verification/Swarm_Total.thy ===== *)
theory Swarm_Total
  imports Swarm_Resume Swarm_Pool
begin

text \<open>
  The main goroutine does not fail: in a state the client can reach, no case of the \<open>select\<close> panics, and
  the code behind it does not either when the final file can be written. For this the trackers'
  answers have to name a port for every IP (\<open>tracker_ok\<close>, an invariant of the client,
  interpretation \<open>tracker_of_client\<close>), and the libraries must not panic themselves (\<open>libs_quiet\<close>, \<open>case_quiet\<close>).
\<close>

section \<open>Tracker information\<close>

definition tracker_ok :: "tracker_information \<Rightarrow> bool" where
  "tracker_ok info \<longleftrightarrow> length (ti_IPs info) \<le> length (ti_Ports info) \<and> ti_Tracker info \<noteq> None"

lemma peer_loop_length:
  "peer_loop peers n index ips ports = Inr (ips', ports') \<Longrightarrow> length ips' = length ips \<and> length ports' = length ports"
  by (induction n arbitrary: index ips ports) (auto simp: Let_def)

lemma getPeers_ports:
  "getPeers unmarshal out = Inr info \<Longrightarrow> length (ti_IPs info) = length (ti_Ports info)"
  by (auto simp: getPeers_def handleGetPeersResponse_def DecodePeerInformation_def Let_def
      split: get_outcome.splits option.splits prod.splits sum.splits if_splits dest: peer_loop_length)

lemma tracker_loop_ok:
  assumes "tracker_loop url_Parse unmarshal net t a sent tier pos = Some (Inr info, asked)"
  shows "tracker_ok info"
proof -
  have "\<forall>info. fst res = Inr info \<longrightarrow> tracker_ok info"
    if "tracker_loop url_Parse unmarshal net t a sent tier pos = Some res" for res
    using that
  proof (induction rule: tracker_loop.raw_induct [rotated, consumes 1, case_names step])
    case (step loop url_Parse unmarshal net t a sent tier pos res)
    then show ?case
      by (auto simp: tracker_ok_def split: sum.splits if_splits dest!: getPeers_ports)
  qed
  with assms show ?thesis by fastforce
qed

lemma UpdateTracker_ok: "UpdateTracker unmarshal get u t a = Inr info \<Longrightarrow> tracker_ok info"
  by (auto simp: UpdateTracker_def tracker_ok_def split: sum.splits dest!: getPeers_ports)

lemma GetTracker_ok: "GetTrackerFromFile url_Parse unmarshal net t a = Some (Inr info, asked) \<Longrightarrow> tracker_ok info"
  unfolding GetTrackerFromFile_def by (rule tracker_loop_ok)

lemma tracker_tick_ok: "tracker_tick cf get net m = Some (Inr (False, m')) \<Longrightarrow> tracker_ok (mn_tracker m')"
  by (auto simp: tracker_tick_def Let_def split: option.splits sum.splits prod.splits go_error.splits
      dest: UpdateTracker_ok GetTracker_ok)

lemma main_select_tracker:
  assumes "main_select cf ev m = Some (Inr (False, m'))" and "tracker_ok (mn_tracker m)"
  shows "tracker_ok (mn_tracker m')"
proof (cases ev)
  case PieceArrived
  with assms show ?thesis
    by (auto simp: take_piece_def Let_def split: list.splits sum.splits if_splits)
next
  case (ChokeTick srt rnd iorder gorder)
  with assms show ?thesis by (auto simp: choke_tick_def)
next
  case (TrackerTick get net)
  with assms(1) show ?thesis by (auto intro: tracker_tick_ok)
qed (use assms in \<open>auto split: list.splits\<close>)

lemma main_round_tracker:
  assumes "main_round cf now ev as w w'" and "tracker_ok (mn_tracker (sw_main w))"
  shows "tracker_ok (mn_tracker (sw_main w'))"
  using assms
proof (induction rule: main_round.induct)
  case (round_main ev m dial now script as m' pd ss)
  then obtain m1 m3 where sel: "main_select cf ev m = Some (Inr (False, m1))"
    and re: "relaunch cf dial now (update_online now m1) = Inr (as, m3)" and sv: "save_when_done cf script m3 = Inr m'"
    by (auto simp: main_iter_def Let_def split: option.splits sum.splits if_splits)
  have "mn_tracker m' = mn_tracker m3"
    using sv by (auto simp: save_when_done_def split: if_splits sum.splits prod.splits)
  moreover have "mn_tracker m3 = mn_tracker m1"
    using re by (cases rule: relaunch_cases) (simp_all add: update_online_def split: prod.split)
  ultimately show ?case using main_select_tracker [OF sel] round_main(4) by simp
qed

lemma goroutine_round_tracker:
  "goroutine_round sha1 cf w w' \<Longrightarrow> mn_tracker (sw_main w') = mn_tracker (sw_main w)"
  by (induction rule: goroutine_round.induct) simp_all

lemma swarm_started_tracker:
  assumes "swarm_started sha1 cf w"
  shows "tracker_ok (mn_tracker (sw_main w))"
proof -
  obtain url_Parse unmarshal net perm peerId port fs m0 dial now as m where
    run: "main_start sha1 url_Parse unmarshal net perm peerId port (cf_torrent cf) fs = Some (Inr (cf, m0))"
    and launch: "first_launch cf dial now m0 = Inr (as, m)" and w: "w = swarm_start as m"
    using assms unfolding swarm_started_def started_on_def by metis
  have "tracker_ok (mn_tracker m0)"
    using run by (auto simp: main_start_def Let_def split: sum.splits prod.splits option.splits go_error.splits if_splits
        dest: GetTracker_ok)
  moreover have "mn_tracker m = mn_tracker m0" using launch by (cases rule: first_launch_cases) simp_all
  ultimately show ?thesis by (simp add: w swarm_start_def)
qed

interpretation tracker_of_client: step_system "swarm_started sha1 cf" "swarm_step sha1 cf"
    "\<lambda>w. tracker_ok (mn_tracker (sw_main w))"
  for sha1 :: "byte list \<Rightarrow> hash" and cf
  by unfold_locales
    (auto intro: swarm_started_tracker elim!: swarm_stepE dest: main_round_tracker goroutine_round_tracker)

section \<open>No case of the select panics\<close>

text \<open>
  What the libraries promise: a decoder, a parser and a request return errors and do not panic; a
  request without an error has a response (\<open>net/http\<close>).
\<close>

definition net_quiet :: "get_outcome \<Rightarrow> bool" where
  "net_quiet out \<longleftrightarrow> (case out of Delivered r \<Rightarrow> rp_err r \<noteq> None \<or> rp_response r \<noteq> None | _ \<Rightarrow> True)"

definition libs_quiet :: "(string \<Rightarrow> url result) \<Rightarrow> (reader \<Rightarrow> bitTorrentPeers result) \<Rightarrow> bool" where
  "libs_quiet url_Parse unmarshal \<longleftrightarrow> (\<forall>s e. url_Parse s = Inl e \<longrightarrow> \<not> is_panic e) \<and> (\<forall>r e. unmarshal r = Inl e \<longrightarrow> \<not> is_panic e)"

lemma peer_loop_total:
  "int (6 * (index + n)) \<le> int (length peers) \<Longrightarrow> \<exists>x. peer_loop peers n index ips ports = Inr x"
proof (induction n arbitrary: index ips ports)
  case (Suc n)
  then have i: "6 * int index + 6 \<le> int (length peers)" by simp
  let ?p = "take 2 (drop (nat (6 * int index + 4)) peers)"
  have "length ?p = 2" using i by simp
  then obtain port where port: "be_get16 ?p = Inr port"
    by (cases ?p; cases "tl ?p") (auto simp: be_get16_def)
  have "go_slice peers (6 * int index) (6 * int index + 4) = Inr (take 4 (drop (nat (6 * int index)) peers))"
    "go_slice peers (6 * int index + 4) (6 * int index + 6) = Inr ?p"
    using i by (simp_all add: go_slice_def)
  moreover have "int (6 * (Suc index + n)) \<le> int (length peers)" using Suc.prems by simp
  ultimately show ?case using Suc.IH port by (simp add: Let_def)
qed simp

lemma getPeers_quiet:
  assumes "libs_quiet url_Parse unmarshal" and "net_quiet out" and "getPeers unmarshal out = Inl e"
  shows "\<not> is_panic e"
proof -
  have "\<not> is_panic e'" if "DecodePeerInformation unmarshal body = Inl e'" for body e'
  proof (cases "unmarshal body")
    case (Inl x)
    then show ?thesis using that assms(1) by (auto simp: DecodePeerInformation_def libs_quiet_def rewrap_def)
  next
    case (Inr peers)
    have "\<exists>x. peer_loop (bp_Peers peers) (length (bp_Peers peers) div 6) 0 ips ports = Inr x" for ips ports
      by (rule peer_loop_total) simp
    then obtain x where "peer_loop (bp_Peers peers) (length (bp_Peers peers) div 6) 0
        (replicate (length (bp_Peers peers) div 6) []) (replicate (length (bp_Peers peers) div 6) 0) = Inr x" by blast
    with Inr that show ?thesis by (auto simp: DecodePeerInformation_def Let_def split: if_splits prod.splits)
  qed
  with assms(2,3) show ?thesis
    by (auto simp: getPeers_def handleGetPeersResponse_def net_quiet_def rewrap_def
        split: get_outcome.splits option.splits prod.splits sum.splits if_splits)
qed

lemma found_quiet:
  assumes "libs_quiet url_Parse unmarshal" and "tf_AnnounceList t \<noteq> [] \<longrightarrow> 0 \<le> tier \<and> - 1 \<le> pos"
  shows "getFirstSupportedTracker url_Parse t tier pos = Inl e \<Longrightarrow> \<not> is_panic e"
    and "getFirstSupportedTracker url_Parse t tier pos = Inr tk \<Longrightarrow>
      tf_AnnounceList t \<noteq> [] \<longrightarrow> 0 \<le> tk_tier tk \<and> - 1 \<le> pos + tk_tierIndex tk + 1"
  subgoal using assms by (auto simp: getFirstSupportedTracker_def libs_quiet_def split: sum.splits option.splits if_splits)
  subgoal using found_tracker [of url_Parse t tier pos tk] assms(2) by (auto simp: tracker_of_def)
  done

lemma tracker_loop_quiet:
  assumes "tracker_loop url_Parse unmarshal net t a sent tier pos = Some (Inl e, asked)"
    and "libs_quiet url_Parse unmarshal" and "\<forall>k u. net_quiet (net k u)"
    and "tf_AnnounceList t \<noteq> [] \<longrightarrow> 0 \<le> tier \<and> - 1 \<le> pos"
  shows "\<not> is_panic e"
proof -
  have "\<forall>e. fst res = Inl e \<longrightarrow> \<not> is_panic e"
    if "tracker_loop url_Parse unmarshal net t a sent tier pos = Some res" for res
    using that assms(2-4)
  proof (induction rule: tracker_loop.raw_induct [rotated, consumes 1, case_names step])
    case (step loop url_Parse unmarshal net t a sent tier pos res)
    note found = found_quiet [OF step.prems(1,3)]
    show ?case
    proof (cases "getFirstSupportedTracker url_Parse t tier pos")
      case (Inl e)
      then show ?thesis using step.hyps found(1) by (auto simp: rewrap_def)
    next
      case (Inr tk)
      note inr = this
      let ?out = "getPeers unmarshal (net (length sent) (announce_url t a (tk_url tk)))"
      show ?thesis
      proof (cases ?out)
        case (Inl e)
        then have "\<not> is_panic e" using getPeers_quiet [OF step.prems(1)] step.prems(2) by blast
        then show ?thesis using step Inl inr found(2) [OF inr] by simp
      qed (use step.hyps inr in auto)
    qed
  qed
  with assms(1) show ?thesis by fastforce
qed


lemma tracker_tick_quiet:
  assumes "tracker_tick cf get net m = Some (Inl e)" and "tracker_ok (mn_tracker m)"
    and "libs_quiet (cf_parse cf) (cf_unmarshal cf)" and "\<forall>u. net_quiet (get u)" and "\<forall>k u. net_quiet (net k u)"
  shows False
proof -
  have upd: "UpdateTracker (cf_unmarshal cf) get u (cf_torrent cf) a \<noteq> Inl (Panic p)" for u a p
    using getPeers_quiet [OF assms(3)] assms(4)
    by (auto simp: UpdateTracker_def rewrap_def split: sum.splits if_splits)
  have search: "GetTrackerFromFile (cf_parse cf) (cf_unmarshal cf) net (cf_torrent cf) a \<noteq> Some (Inl (Panic p), asked)" for a p asked
    using tracker_loop_quiet [OF _ assms(3,5)] by (fastforce simp: GetTrackerFromFile_def)
  show False
    using assms(1,2) upd search
    by (auto simp: tracker_tick_def Let_def tracker_ok_def split: option.splits sum.splits prod.splits go_error.splits)
qed

lemma choke_tick_quiet:
  assumes "slice_sort srt" and "\<forall>n > 0. rnd n < n"
  shows "\<exists>m'. choke_tick srt rnd iorder gorder m = Inr m'"
proof -
  let ?g = "generous (mn_generosity m) (mn_interested m) gorder"
  have len: "length (srt more_generous ?g) = length ?g" using slice_sort.length_srt [OF assms(1)] .
  have fill: "length (fold (\<lambda>i ps. ps[i := f i]) is xs) = length xs" for f "is" and xs :: "string list"
    by (induction "is" arbitrary: xs) simp_all
  have "\<exists>ps. chokeAlgorithm srt rnd iorder gorder (mn_generosity m) (mn_interested m) = Inr ps"
  proof (cases "length ?g < 5")
    case True
    then show ?thesis by (simp add: chokeAlgorithm_def Let_def len)
  next
    case False
    then have "rnd (length ?g - 4) < length ?g - 4" using assms(2) by simp
    with False have "\<exists>x. go_index (srt more_generous ?g) (4 + int (rnd (length ?g - 4))) = Inr x"
      by (simp add: go_index_def len)
    then show ?thesis by (auto simp: chokeAlgorithm_def Let_def len fill)
  qed
  then show ?thesis by (auto simp: choke_tick_def)
qed

lemma take_piece_total:
  assumes "results_ok sha1 t (mn_results m)" and "piece_verified sha1 t p"
  obtains m' where "take_piece p m = Inr m'" and "mn_saved m' = mn_saved m" and "mn_fs m' = mn_fs m"
    and "rs_Pieces (mn_results m') = (rs_Pieces (mn_results m))[nat (pc_Index p) := Some p]"
proof -
  have wf: "bf_wf (rs_Bitfield (mn_results m))" "bf_Length (rs_Bitfield (mn_results m)) = num_hashes t"
    "length (rs_Pieces (mn_results m)) = length (tf_PieceHashes t)"
    using assms(1) by (simp_all add: results_ok_def)
  have i: "0 \<le> pc_Index p" "pc_Index p < num_hashes t" using assms(2) by (simp_all add: piece_verified_def)
  obtain b where "bf_Set (rs_Bitfield (mn_results m)) (pc_Index p) True = Inr b"
    using bf_Set_in [OF wf(1) i(1), of True] wf(2) i(2) by auto
  with i wf(3) that show ?thesis by (simp add: take_piece_def Let_def)
qed

fun case_quiet :: "main_event \<Rightarrow> bool" where
  "case_quiet (ChokeTick srt rnd iorder gorder) = (slice_sort srt \<and> (\<forall>n > 0. rnd n < n))"
| "case_quiet (TrackerTick get net) = ((\<forall>u. net_quiet (get u)) \<and> (\<forall>k u. net_quiet (net k u)))"
| "case_quiet ev = True"

lemma main_select_quiet_world:
  assumes "work_inv sha1 t W m" and "tracker_ok (mn_tracker m)" and "libs_quiet (cf_parse cf) (cf_unmarshal cf)"
    and "case_quiet ev"
  shows "main_select cf ev m \<noteq> Some (Inl e)"
proof (cases ev)
  case PieceArrived
  show ?thesis
  proof (cases "cm_Results (mn_comms m)")
    case (Cons p ps)
    let ?m = "m\<lparr>mn_comms := (mn_comms m)\<lparr>cm_Results := ps\<rparr>\<rparr>"
    have "results_ok sha1 t (mn_results ?m)" "piece_verified sha1 t p"
      using assms(1) Cons by (simp_all add: work_inv_def comms_inv_def)
    then obtain m' where "take_piece p ?m = Inr m'" by (rule take_piece_total)
    with PieceArrived Cons show ?thesis by simp
  qed (simp add: PieceArrived)
next
  case (ChokeTick srt rnd iorder gorder)
  then obtain m' where "choke_tick srt rnd iorder gorder m = Inr m'" using choke_tick_quiet assms(4) by fastforce
  with ChokeTick show ?thesis by simp
next
  case (TrackerTick get net)
  with tracker_tick_quiet [OF _ assms(2,3)] assms(4) show ?thesis by auto
qed (auto split: list.splits)

section \<open>The end of the download\<close>

lemma client_reachable:
  assumes "swarm_started sha1 cf w0" and "(swarm_step sha1 cf)\<^sup>*\<^sup>* w0 w"
  shows "swarm_inv sha1 (cf_torrent cf) w"
  using client.inv_steps [OF assms(2)] swarm_started_inv [OF assms(1)] .

text \<open>All pieces are there exactly when the counter says so.\<close>

lemma work_complete:
  assumes "work_inv sha1 t W m"
  shows "rs_PiecesDone (mn_results m) \<le> num_hashes t"
    and "rs_PiecesDone (mn_results m) = num_hashes t \<Longrightarrow>
      \<exists>ps. rs_Pieces (mn_results m) = map Some ps \<and> length ps = length (tf_PieceHashes t) \<and> in_order 0 ps
        \<and> (\<forall>i < length ps. sha1 (pc_Data (ps ! i)) = tf_PieceHashes t ! i)"
proof -
  let ?res = "mn_results m"
  have ok: "results_ok sha1 t ?res" and cnt: "rs_PiecesDone ?res = int (card (have_set m))"
    using assms by (simp_all add: work_inv_def)
  have sub: "have_set m \<subseteq> {0..<num_hashes t}"
    using ok bf.members_range [of "rs_Bitfield ?res"] by (simp add: have_set_def results_ok_def)
  show "rs_PiecesDone ?res \<le> num_hashes t"
    using card_mono [OF _ sub] cnt by simp
  assume "rs_PiecesDone ?res = num_hashes t"
  then have all: "have_set m = {0..<num_hashes t}"
    using sub cnt by (intro card_subset_eq) auto
  have len: "length (rs_Pieces ?res) = length (tf_PieceHashes t)" using ok by (simp add: results_ok_def)
  have some: "rs_Pieces ?res ! i \<noteq> None" if "i < length (rs_Pieces ?res)" for i
    using ok all that len by (auto simp: results_ok_def have_set_def)
  define ps where "ps = map the (rs_Pieces ?res)"
  have ps: "rs_Pieces ?res = map Some ps"
    using some by (intro nth_equalityI) (simp_all add: ps_def)
  have each: "pc_Index (ps ! i) = int i \<and> sha1 (pc_Data (ps ! i)) = tf_PieceHashes t ! i" if "i < length ps" for i
    using ok ps that by (simp add: results_ok_def)
  then have "in_order 0 ps" unfolding in_order_def by (intro nth_equalityI) simp_all
  with ps each len show "\<exists>ps. rs_Pieces ?res = map Some ps \<and> length ps = length (tf_PieceHashes t) \<and> in_order 0 ps
      \<and> (\<forall>i < length ps. sha1 (pc_Data (ps ! i)) = tf_PieceHashes t ! i)"
    by (intro exI [of _ ps]) simp
qed

text \<open>Where the file system ends up when the last piece has arrived.\<close>

lemma save_final_spec:
  assumes "20 \<le> length (tf_Name t)" and "tf_Name t \<notin> pname t ` {0..<fileNumber t}"
    and "fs (tf_Name t) \<noteq> Some Denied" and "\<forall>k < fileNumber t. fs (pname t k) \<noteq> Some Denied"
    and "Save \<lparr>w_out = [], w_script = script\<rparr> pieces = (err, w)" and "\<forall>p. err \<noteq> Some (Panic p)"
  shows "\<exists>fs'. save_final t script pieces fs = (Inr (), fs') \<and> fs' (tf_Name t) = Some (File (w_out w))
    \<and> (\<forall>k < fileNumber t. fs' (pname t k) = None)"
proof -
  let ?fs1 = "fs(tf_Name t \<mapsto> File [])" and ?fs2 = "fs(tf_Name t \<mapsto> File (w_out w))"
  have create: "os_Create fs (tf_Name t) script = (Inr \<lparr>w_out = [], w_script = script\<rparr>, ?fs1)"
    using assms(3) by (auto simp: os_Create_def split: option.splits fs_entry.splits)
  have "\<forall>k < fileNumber t. ?fs2 (pname t k) \<noteq> Some Denied" using assms(4) by simp
  from parts_are_deleted [OF assms(1) this] obtain fs' where
    del: "deletePartialFiles t ?fs2 = (None, fs')" "\<forall>k < fileNumber t. fs' (pname t k) = None"
      "\<forall>x. x \<notin> pname t ` {0..<fileNumber t} \<longrightarrow> fs' x = ?fs2 x" by blast
  have "save_final t script pieces fs = (Inr (), fs')"
    using create assms(5,6) del(1) by (auto simp: save_final_def Let_def split: option.splits go_error.splits)
  moreover have "fs' (tf_Name t) = Some (File (w_out w))" using del(3) assms(2) by simp
  ultimately show ?thesis using del(2) by blast
qed

section \<open>A round of the main loop returns\<close>

text \<open>The final file can be written and its part files removed.\<close>

definition disk_ready :: "torrent_file \<Rightarrow> fs \<Rightarrow> bool" where
  "disk_ready t fs \<longleftrightarrow> 20 \<le> length (tf_Name t) \<and> tf_Name t \<notin> pname t ` {0..<fileNumber t}
     \<and> fs (tf_Name t) \<noteq> Some Denied \<and> (\<forall>k < fileNumber t. fs (pname t k) \<noteq> Some Denied)"

lemma Save_in_order: "in_order i ps \<Longrightarrow> fst (Save_from i w (map Some ps)) \<noteq> Some (Panic q)"
  by (induction ps arbitrary: i w) (auto split: prod.split option.split)

lemma save_when_done_total:
  assumes "work_inv sha1 (cf_torrent cf) W m" and "disk_ready (cf_torrent cf) (mn_fs m)"
  shows "\<exists>m'. save_when_done cf script m = Inr m'"
proof (cases "rs_PiecesDone (mn_results m) = num_hashes (cf_torrent cf) \<and> \<not> mn_saved m")
  case True
  then obtain ps where ps: "rs_Pieces (mn_results m) = map Some ps" "in_order 0 ps"
    using work_complete(2) [OF assms(1)] by blast
  obtain err w where save: "Save \<lparr>w_out = [], w_script = script\<rparr> (map Some ps) = (err, w)" by force
  have "\<forall>q. err \<noteq> Some (Panic q)"
    using Save_in_order [OF ps(2), of "\<lparr>w_out = [], w_script = script\<rparr>"] save by (auto simp: Save_def)
  from save_final_spec [where t = "cf_torrent cf" and fs = "mn_fs m", OF _ _ _ _ save this] assms(2) obtain fs' where
    "save_final (cf_torrent cf) script (map Some ps) (mn_fs m) = (Inr (), fs')" by (auto simp: disk_ready_def)
  with True ps(1) show ?thesis by (simp add: save_when_done_def)
next
  case False
  then show ?thesis by (auto simp: save_when_done_def)
qed

lemma relaunch_total:
  assumes "pool_inv (mn_conns m)" and "dial_ok dial (mn_conns m)" and "tracker_ok (mn_tracker m)"
  shows "\<exists>as m'. relaunch cf dial now m = Inr (as, m')"
proof -
  let ?peers = "map (\<lambda>i. (ti_IPs (mn_tracker m) ! i, if i < length (ti_Ports (mn_tracker m))
    then Some (ti_Ports (mn_tracker m) ! i) else None)) [0..<length (ti_IPs (mn_tracker m))]"
  have "\<forall>(ipb, port) \<in> set ?peers. port \<noteq> None" using assms(3) by (auto simp: tracker_ok_def)
  then show ?thesis
    using launch_loop_spec [OF assms(1,2), of 0 "maximumDownloaders - int (length (cs_peers (mn_conns m)))" ?peers now]
    by (auto simp: relaunch_def Let_def launchClients_def)
qed

lemma main_iter_total:
  assumes "work_inv sha1 (cf_torrent cf) W m" and "tracker_ok (mn_tracker m)"
    and pool: "pool_inv (mn_conns m)" and "mset (pool_addrs (mn_conns m)) = mset (live @ map snd (cm_ConnectionEnded (mn_comms m)))"
    and "dial_fresh dial (mn_conns m)" and "disk_ready (cf_torrent cf) (mn_fs m)"
    and sel: "main_select cf ev m = Some (Inr (exit, m1))" and "tracker_ok (mn_tracker m1)" and "work_inv sha1 (cf_torrent cf) W1 m1"
  shows "\<exists>r. main_iter cf dial now script ev m = Some (Inr r)"
proof -
  let ?m2 = "update_online now m1"
  note s = main_select_pool [OF sel]
  have addrs1: "pool_addrs (mn_conns m1) = pool_addrs (mn_conns m)" using s by simp
  have inv1: "pool_inv (mn_conns m1)" using pool s unfolding pool_inv_addrs by auto
  have bal1: "mset (pool_addrs (mn_conns m1)) = mset (live @ map snd (cm_ConnectionEnded (mn_comms m1)))"
    using assms(4) s by simp
  note u = update_online_pool [OF inv1 bal1, of now]
  have "addr_ref ` set (pool_addrs (mn_conns ?m2)) \<subseteq> addr_ref ` set (pool_addrs (mn_conns m))"
    unfolding addrs1 [symmetric] using u by auto
  then have dial: "dial_ok dial (mn_conns ?m2)" by (intro dial_fresh_ok [OF assms(5)]) (simp add: image_comp)
  have same: "same_work m1 ?m2" "mn_tracker ?m2 = mn_tracker m1"
    using update_online_same by (simp_all add: update_online_def split: prod.split)
  obtain as m3 where re: "relaunch cf dial now ?m2 = Inr (as, m3)"
    using relaunch_total [of ?m2 dial cf now] u dial same(2) assms(8) by auto
  have "work_inv sha1 (cf_torrent cf) W1 m3"
    using assms(9) same_work_inv(1) [OF same(1)] same_work_inv(1) [OF relaunch_same [OF re]] by simp
  moreover have "mn_fs m3 = mn_fs m"
    using re main_select_disk [OF sel] by (cases rule: relaunch_cases) (auto simp: update_online_def split: prod.split)
  ultimately obtain m4 where "save_when_done cf script m3 = Inr m4"
    using save_when_done_total assms(6) by fastforce
  with sel re show ?thesis by (simp add: main_iter_def Let_def)
qed

lemma main_iter_None:
  assumes "main_iter cf dial now script ev m = None"
  shows "\<exists>get net. ev = TrackerTick get net"
  using assms by (cases ev) (auto simp: main_iter_def Let_def split: list.splits option.splits sum.splits if_splits)

text \<open>In every state of a client no round of the main goroutine panics.\<close>

lemma main_iter_quiet:
  assumes "swarm_inv sha1 (cf_torrent cf) w" and "pool_balanced w" and "tracker_ok (mn_tracker (sw_main w))"
    and "disk_ready (cf_torrent cf) (mn_fs (sw_main w))" and "dial_fresh dial (mn_conns (sw_main w))"
    and "libs_quiet (cf_parse cf) (cf_unmarshal cf)" and "case_quiet ev"
  shows "main_iter cf dial now script ev (sw_main w) \<noteq> Some (Inl e)"
proof -
  let ?m = "sw_main w" and ?t = "cf_torrent cf"
  have work: "work_inv sha1 ?t (tokens w) ?m" using assms(1) by (simp add: swarm_inv_def)
  have pool: "pool_inv (mn_conns ?m)"
    "mset (pool_addrs (mn_conns ?m)) = mset (goroutine_addrs w @ map snd (cm_ConnectionEnded (mn_comms ?m)))"
    using assms(2) by (simp_all add: pool_balanced_def)
  show ?thesis
  proof (cases "main_select cf ev ?m")
    case None
    then show ?thesis by (simp add: main_iter_def)
  next
    case (Some r)
    then obtain exit m1 where r: "r = Inr (exit, m1)"
      using main_select_quiet_world [OF work assms(3,6,7)] by (cases r) auto
    note sel = Some [unfolded r]
    show ?thesis
    proof (cases exit)
      case True
      then show ?thesis using sel by (simp add: main_iter_def Let_def)
    next
      case False
      have "\<exists>W. work_inv sha1 ?t W m1"
        using sel
      proof (cases rule: main_select_cases)
        case same
        then show ?thesis using work same_work_inv(1) [OF same] by blast
      next
        case (piece p ps)
        have p: "piece_verified sha1 ?t p" and cm: "comms_inv sha1 ?t ((mn_comms ?m)\<lparr>cm_Results := ps\<rparr>)"
          using work piece(1) by (auto simp: work_inv_def comms_inv_def)
        have "pc_Index p \<in># tokens w" using comm_tokens_take_result [OF piece(1)] by (simp add: tokens_def)
        from take_piece_inv(1) [OF work_inv_comms [OF cm work] p this piece(2)] show ?thesis by blast
      qed
      moreover have "tracker_ok (mn_tracker m1)" using main_select_tracker [OF _ assms(3)] sel False by simp
      ultimately obtain r' where "main_iter cf dial now script ev ?m = Some (Inr r')"
        using main_iter_total [OF work assms(3) pool assms(5,4) sel, of _ now script] by blast
      then show ?thesis by simp
    qed
  qed
qed

end
