(* ===== verification/Swarm_Properties.thy ===== *)
theory Swarm_Properties
  imports Swarm_Total Swarm_Resume
begin

text \<open>
  The properties of the whole client: what is true in every state it can reach, the download it
  performs as an abstract specification, and what it writes when the last piece has arrived.
\<close>

section \<open>Lemmas\<close>



section \<open>Samples\<close>

definition toy_hash :: "byte list \<Rightarrow> hash" where
  "toy_hash bs = take 20 (bs @ replicate 20 0)"

definition toy_torrent :: torrent_file where
  "toy_torrent = \<lparr>tf_Announce = ''http://t0'', tf_Name = ''a-file-name-of-24-chars.x'', tf_Comment = '''',
     tf_CreatedBy = '''', tf_CreationDate = 0, tf_Length = 4, tf_PieceLength = 2,
     tf_PieceHashes = [toy_hash [1, 2], toy_hash [3, 4]], tf_InfoHash = replicate 20 9, tf_AnnounceList = []\<rparr>"

definition toy_parse :: "string \<Rightarrow> url result" where
  "toy_parse s = Inr \<lparr>url_Scheme = ''http'', url_base = s, url_ForceQuery = False, url_RawQuery = '''', url_fragment = ''''\<rparr>"

definition toy_unmarshal :: "reader \<Rightarrow> bitTorrentPeers result" where
  "toy_unmarshal r = Inr \<lparr>bp_Interval = 900, bp_Peers = [10, 0, 0, 1, 26, 225], bp_Peers6 = []\<rparr>"

definition toy_net :: "nat \<Rightarrow> url \<Rightarrow> get_outcome" where
  "toy_net k u = Delivered \<lparr>rp_response = Some (200, \<lparr>rd_data = [], rd_end = EOF, rd_chunks = []\<rparr>), rp_err = None\<rparr>"

definition toy_start :: "fs \<Rightarrow> (config \<times> main_state) result option" where
  "toy_start fs = main_start toy_hash toy_parse toy_unmarshal toy_net (\<lambda>n. [0..<n]) ''SH01-ziYDZM5WilvkDy9'' 6881 toy_torrent fs"

text \<open>A disk with nothing on it, and one on which a part file holds both pieces.\<close>

definition toy_parts :: fs where
  "toy_parts = [''a-file-name-of-24-ch.0.part'' \<mapsto> File
     (be_put32 0 @ be_put32 2 @ [1, 2] @ be_put32 1 @ be_put32 2 @ [3, 4])]"

lemma toy_tracker:
  assumes "tf_AnnounceList t = []"
  shows "\<exists>info asked. GetTrackerFromFile toy_parse toy_unmarshal toy_net t a = Some (Inr info, asked)
    \<and> ti_IPs info = [[10, 0, 0, 1]] \<and> ti_Ports info = [6881]"
proof -
  have "DecodePeerInformation toy_unmarshal \<lparr>rd_data = [], rd_end = EOF, rd_chunks = []\<rparr>
      = Inr \<lparr>ti_Tracker = None, ti_Interval = 900, ti_IPs = [[10, 0, 0, 1]], ti_Ports = [6881]\<rparr>"
    by code_simp
  then show ?thesis
    using announce_only [of t toy_parse, OF assms]
    by (simp add: GetTrackerFromFile_def tracker_loop.simps [of _ _ _ _ _ "[]"] toy_parse_def getPeers_def
        toy_net_def handleGetPeersResponse_def)
qed

lemma toy_start_from:
  assumes "loadFromFile toy_hash toy_torrent fs \<lparr>rs_Pieces = [None, None], rs_PiecesDone = 0, rs_TotalLength = 0,
      rs_Bitfield = \<lparr>bf_Length = 2, bf_data = [0]\<rparr>\<rparr> = (Inr False, res)"
    and "make_orders toy_torrent res (\<lambda>n. [0..<n]) = Inr orders"
  shows "\<exists>cf m. toy_start fs = Some (Inr (cf, m)) \<and> cf_torrent cf = toy_torrent
    \<and> cf_peerId cf = ''SH01-ziYDZM5WilvkDy9'' \<and> cf_parse cf = toy_parse \<and> cf_unmarshal cf = toy_unmarshal \<and> mn_results m = res
    \<and> mn_comms m = comms_start orders \<and> \<not> mn_saved m \<and> mn_fs m = fs \<and> cs_peers (mn_conns m) = []
    \<and> cs_blacklist (mn_conns m) = (\<lambda>x. None) \<and> ti_IPs (mn_tracker m) = [[10, 0, 0, 1]] \<and> ti_Ports (mn_tracker m) = [6881]"
proof -
  have "results_start toy_torrent = Inr \<lparr>rs_Pieces = [None, None], rs_PiecesDone = 0, rs_TotalLength = 0,
      rs_Bitfield = \<lparr>bf_Length = 2, bf_data = [0]\<rparr>\<rparr>" by code_simp
  moreover have "tf_AnnounceList toy_torrent = []" by (simp add: toy_torrent_def)
  then obtain info asked where "GetTrackerFromFile toy_parse toy_unmarshal toy_net toy_torrent
      \<lparr>an_peerId = ''SH01-ziYDZM5WilvkDy9'', an_port = 6881, an_uploaded = 0, an_downloaded = rs_TotalLength res,
       an_left = tf_Length toy_torrent - rs_TotalLength res\<rparr> = Some (Inr info, asked)"
    and "ti_IPs info = [[10, 0, 0, 1]]" "ti_Ports info = [6881]" using toy_tracker by blast
  ultimately show ?thesis using assms by (simp add: toy_start_def main_start_def Let_def)
qed

definition toy_results :: results where
  "toy_results = \<lparr>rs_Pieces = [Some \<lparr>pc_Index = 0, pc_Length = 2, pc_Data = [1, 2], pc_From = ''''\<rparr>,
      Some \<lparr>pc_Index = 1, pc_Length = 2, pc_Data = [3, 4], pc_From = ''''\<rparr>],
     rs_PiecesDone = 2, rs_TotalLength = 4, rs_Bitfield = \<lparr>bf_Length = 2, bf_data = [192]\<rparr>\<rparr>"

definition toy_empty :: results where
  "toy_empty = \<lparr>rs_Pieces = [None, None], rs_PiecesDone = 0, rs_TotalLength = 0,
     rs_Bitfield = \<lparr>bf_Length = 2, bf_data = [0]\<rparr>\<rparr>"

definition toy_order :: "int \<Rightarrow> byte list \<Rightarrow> piece_order" where
  "toy_order i d = \<lparr>po_Index = i, po_Length = 2, po_Hash = toy_hash d\<rparr>"

lemma toy_loads:
  "loadFromFile toy_hash toy_torrent (\<lambda>n. None) toy_empty = (Inr False, toy_empty)"
  "make_orders toy_torrent toy_empty (\<lambda>n. [0..<n]) = Inr [toy_order 0 [1, 2], toy_order 1 [3, 4]]"
  "loadFromFile toy_hash toy_torrent toy_parts toy_empty = (Inr False, toy_results)"
  "make_orders toy_torrent toy_results (\<lambda>n. [0..<n]) = Inr []"
  by code_simp+

lemma toy_members:
  "bf_members \<lparr>bf_Length = 2, bf_data = [0]\<rparr> = {}"
  "bf_members \<lparr>bf_Length = 2, bf_data = [192]\<rparr> = {0, 1}"
proof -
  have i: "i = 0 \<or> i = 1" if "0 \<le> i" "i < 2" for i :: int using that by linarith
  have bits: "bf_bit [192] 0" "bf_bit [192] (Suc 0)" by code_simp+
  show "bf_members \<lparr>bf_Length = 2, bf_data = [0]\<rparr> = {}"
    by (auto simp: bf_members_def bf_bit_def dest!: i)
  show "bf_members \<lparr>bf_Length = 2, bf_data = [192]\<rparr> = {0, 1}"
    using bits by (auto simp: bf_members_def dest: i)
qed

text \<open>The first launch finds nobody: the only peer cannot be reached.\<close>

lemma toy_client_on:
  assumes "loadFromFile toy_hash toy_torrent fs toy_empty = (Inr False, res)"
    and "make_orders toy_torrent res (\<lambda>n. [0..<n]) = Inr orders"
    and "rs_PiecesDone res = int (card (bf_members (rs_Bitfield res)))"
  obtains cf m where "started_on toy_hash cf fs (swarm_start [] m)" and "cf_torrent cf = toy_torrent"
    and "cf_peerId cf = ''SH01-ziYDZM5WilvkDy9''" and "cf_parse cf = toy_parse" and "cf_unmarshal cf = toy_unmarshal"
    and "mn_results m = res" and "mn_comms m = comms_start orders" and "cs_peers (mn_conns m) = []"
    and "\<not> mn_saved m" and "mn_fs m = fs"
proof -
  obtain cf m0 where m0: "toy_start fs = Some (Inr (cf, m0))" "cf_torrent cf = toy_torrent" "mn_results m0 = res"
      "mn_comms m0 = comms_start orders" "\<not> mn_saved m0" "mn_fs m0 = fs" "cs_peers (mn_conns m0) = []"
      "cs_blacklist (mn_conns m0) = (\<lambda>x. None)" "ti_IPs (mn_tracker m0) = [[10, 0, 0, 1]]" "ti_Ports (mn_tracker m0) = [6881]"
      "cf_peerId cf = ''SH01-ziYDZM5WilvkDy9''" "cf_parse cf = toy_parse" "cf_unmarshal cf = toy_unmarshal"
    using toy_start_from [of fs res orders] assms(1,2) unfolding toy_empty_def by blast
  let ?dial = "(\<lambda>ip pt. None) :: dialer"
  obtain cs where "first_launch cf ?dial 0 m0 = Inr ([], m0\<lparr>mn_conns := cs\<rparr>)" and cs: "cs_peers cs = []"
  proof (cases "rs_PiecesDone (mn_results m0) = num_hashes (cf_torrent cf)")
    case True
    then have "first_launch cf ?dial 0 m0 = Inr ([], m0\<lparr>mn_conns := mn_conns m0\<rparr>)" by (simp add: first_launch_def)
    then show thesis using m0(7) by (rule that)
  next
    case False
    then have "first_launch cf ?dial 0 m0 = Inr ([], m0\<lparr>mn_conns := BlacklistIp 0 (mn_conns m0) (ip_String [10, 0, 0, 1])\<rparr>)"
      using m0(7-10) by (simp add: first_launch_def launchClients_def Let_def IsOpen_def IsBlacklisted_def
          connectToPeer_def maximumDownloaders_def)
    then show thesis by (rule that) (simp add: m0(7))
  qed
  moreover have "dial_fresh ?dial (mn_conns m0)" by (simp add: dial_fresh_def)
  moreover have "0 \<le> tf_PieceLength toy_torrent" by (simp add: toy_torrent_def)
  ultimately have "started_on toy_hash cf fs (swarm_start [] (m0\<lparr>mn_conns := cs\<rparr>))"
    using m0(1-3) assms(3) unfolding started_on_def toy_start_def
    by (intro exI conjI) (auto simp: have_set_def)
  with m0 cs show ?thesis by (intro that [of cf "m0\<lparr>mn_conns := cs\<rparr>"]) simp_all
qed

lemma toy_client:
  assumes "loadFromFile toy_hash toy_torrent fs toy_empty = (Inr False, res)"
    and "make_orders toy_torrent res (\<lambda>n. [0..<n]) = Inr orders"
    and "rs_PiecesDone res = int (card (bf_members (rs_Bitfield res)))"
  obtains cf m where "swarm_started toy_hash cf (swarm_start [] m)" and "cf_torrent cf = toy_torrent"
    and "cf_peerId cf = ''SH01-ziYDZM5WilvkDy9''" and "cf_parse cf = toy_parse" and "cf_unmarshal cf = toy_unmarshal"
    and "mn_results m = res" and "mn_comms m = comms_start orders" and "cs_peers (mn_conns m) = []"
    and "\<not> mn_saved m" and "mn_fs m = fs"
  using toy_client_on [OF assms] that unfolding swarm_started_def by metis

section \<open>Properties\<close>

text \<open>C1: In every state the client can reach, whatever the peers, the trackers and the scheduler do: each
  piece is at most once queued, in progress, on its way to the main goroutine or already there; the queues stay
  within the capacity of their channels, so that no goroutine blocks on sending to them; the counter
  equals the number of bits that are set, a bit is set exactly where there is a piece, and every piece
  stands at its index and hashes to the torrent's hash.\<close>

theorem client_invariant:
  assumes "swarm_started sha1 cf w0" and "(swarm_step sha1 cf)\<^sup>*\<^sup>* w0 w"
  defines "m \<equiv> sw_main w" and "hashes \<equiv> tf_PieceHashes (cf_torrent cf)"
  shows "(\<forall>i. count (tokens w) i + (if i \<in> have_set m then 1 else 0) \<le> 1)
    \<and> length (cm_Orders (mn_comms m)) + length (cm_Results (mn_comms m)) \<le> length hashes
    \<and> rs_PiecesDone (mn_results m) = int (card (have_set m))
    \<and> length (rs_Pieces (mn_results m)) = length hashes
    \<and> (\<forall>i < length hashes. (int i \<in> have_set m \<longleftrightarrow> rs_Pieces (mn_results m) ! i \<noteq> None)
        \<and> (\<forall>p. rs_Pieces (mn_results m) ! i = Some p \<longrightarrow> pc_Index p = int i \<and> sha1 (pc_Data p) = hashes ! i))"
proof -
  have inv: "work_inv sha1 (cf_torrent cf) (tokens w) m"
    using client_reachable [OF assms(1,2)] by (simp add: swarm_inv_def m_def)
  then have sub: "tokens w + mset_set (have_set m) \<subseteq># mset_set {0..<int (length hashes)}"
    by (simp add: work_inv_def hashes_def)
  have fin: "finite (have_set m)" using bf.finite_members by (simp add: have_set_def)
  have once: "count (tokens w) i + (if i \<in> have_set m then 1 else 0) \<le> 1" for i
  proof -
    have "count (tokens w) i + count (mset_set (have_set m)) i \<le> count (mset_set {0..<int (length hashes)}) i"
      using mset_subset_eq_count [OF sub, of i] by simp
    also have "\<dots> \<le> 1" by (cases "i \<in> {0..<int (length hashes)}") simp_all
    finally show ?thesis using fin by (cases "i \<in> have_set m") simp_all
  qed
  have "size (comm_tokens (mn_comms m)) \<le> size (tokens w + mset_set (have_set m))"
    by (simp add: tokens_def m_def)
  also have "\<dots> \<le> length hashes" using size_mset_mono [OF sub] by simp
  finally have "length (cm_Orders (mn_comms m)) + length (cm_Results (mn_comms m)) \<le> length hashes"
    by (simp add: comm_tokens_def)
  with once inv show ?thesis by (simp add: work_inv_def results_ok_def have_set_def hashes_def)
qed

theorem client_invariant_witness:
  "\<exists>cf m. swarm_started toy_hash cf (swarm_start [] m) \<and> rs_PiecesDone (mn_results m) = 0
    \<and> length (cm_Orders (mn_comms m)) = 2
    \<and> length (cm_Orders (mn_comms m)) + length (cm_Results (mn_comms m)) \<le> length (tf_PieceHashes (cf_torrent cf))"
proof -
  have "rs_PiecesDone toy_empty = int (card (bf_members (rs_Bitfield toy_empty)))"
    by (simp add: toy_empty_def toy_members)
  then obtain cf m where m: "swarm_started toy_hash cf (swarm_start [] m)" "mn_results m = toy_empty"
      "mn_comms m = comms_start [toy_order 0 [1, 2], toy_order 1 [3, 4]]"
    by (rule toy_client [OF toy_loads(1,2)])
  from client_invariant [OF m(1) rtranclp.rtrancl_refl]
  have "length (cm_Orders (mn_comms m)) + length (cm_Results (mn_comms m)) \<le> length (tf_PieceHashes (cf_torrent cf))"
    by (simp add: swarm_start_def)
  with m show ?thesis by (intro exI [of _ cf] exI [of _ m]) (simp add: toy_empty_def comms_start_def)
qed




lemma toy_names:
  "fileNumber toy_torrent = 1" "pname toy_torrent 0 = ''a-file-name-of-24-ch.0.part''"
  "tf_Name toy_torrent = ''a-file-name-of-24-chars.x''" "length (tf_PieceHashes toy_torrent) = 2"
  by code_simp+


text \<open>C9: A failed write loses the download. When writing the final file fails, the client deletes the part
  files all the same and counts the download as saved: the truncated file is all that is left on disk,
  and nothing more is written when the client stops.\<close>

theorem failed_save_loses_download:
  assumes "t = cf_torrent cf" and "rs_PiecesDone (mn_results m) = num_hashes t" and "\<not> mn_saved m"
    and "20 \<le> length (tf_Name t)" and "tf_Name t \<notin> pname t ` {0..<fileNumber t}"
    and "mn_fs m (tf_Name t) \<noteq> Some Denied" and "\<forall>k < fileNumber t. mn_fs m (pname t k) \<noteq> Some Denied"
    and "Save \<lparr>w_out = [], w_script = script\<rparr> (rs_Pieces (mn_results m)) = (Some (Errorf e), w)"
  shows "\<exists>m'. save_when_done cf script m = Inr m' \<and> mn_saved m' \<and> mn_fs m' (tf_Name t) = Some (File (w_out w))
    \<and> (\<forall>k < fileNumber t. mn_fs m' (pname t k) = None) \<and> main_finish cf script' m' = Inr m'"
proof -
  from save_final_spec [OF assms(4-8)] obtain fs' where
    "save_final t script (rs_Pieces (mn_results m)) (mn_fs m) = (Inr (), fs')" "fs' (tf_Name t) = Some (File (w_out w))"
    "\<forall>k < fileNumber t. fs' (pname t k) = None" by auto
  with assms(1-3) show ?thesis
    by (intro exI [of _ "m\<lparr>mn_saved := True, mn_fs := fs'\<rparr>"]) (simp add: save_when_done_def main_finish_def)
qed

theorem failed_save_loses_download_witness:
  "\<exists>cf m m'. swarm_started toy_hash cf (swarm_start [] m) \<and> save_when_done cf [None, Some 1] m = Inr m'
    \<and> mn_saved m' \<and> mn_fs m' ''a-file-name-of-24-chars.x'' = Some (File [1, 2, 3])
    \<and> mn_fs m' ''a-file-name-of-24-ch.0.part'' = None"
proof -
  have "rs_PiecesDone toy_results = int (card (bf_members (rs_Bitfield toy_results)))"
    by (simp add: toy_results_def toy_members)
  then obtain cf m where m: "swarm_started toy_hash cf (swarm_start [] m)" "cf_torrent cf = toy_torrent"
      "mn_results m = toy_results" "\<not> mn_saved m" "mn_fs m = toy_parts"
    by (rule toy_client [OF toy_loads(3,4)])
  have "rs_PiecesDone (mn_results m) = num_hashes toy_torrent"
    "20 \<le> length (tf_Name toy_torrent)" "tf_Name toy_torrent \<notin> pname toy_torrent ` {0..<fileNumber toy_torrent}"
    "mn_fs m (tf_Name toy_torrent) \<noteq> Some Denied"
    "\<forall>k < fileNumber toy_torrent. mn_fs m (pname toy_torrent k) \<noteq> Some Denied"
    "Save \<lparr>w_out = [], w_script = [None, Some 1]\<rparr> (rs_Pieces (mn_results m))
      = (Some (Errorf ''encountered error while writing piece index''), \<lparr>w_out = [1, 2, 3], w_script = []\<rparr>)"
    by (simp_all add: m toy_names toy_results_def toy_parts_def Save_def w_write_def)
  from failed_save_loses_download [OF m(2) [symmetric] this(1) m(4) this(2-6), of "\<lambda>k. []"]
  obtain m' where "save_when_done cf [None, Some 1] m = Inr m'" "mn_saved m'"
    "mn_fs m' (tf_Name toy_torrent) = Some (File [1, 2, 3])" "\<forall>k < fileNumber toy_torrent. mn_fs m' (pname toy_torrent k) = None"
    by auto
  with m(1) show ?thesis
    by (intro exI [of _ cf] exI [of _ m] exI [of _ m']) (simp add: toy_names)
qed

section \<open>Connections\<close>



section \<open>Stopping and starting again\<close>

text \<open>C5: An interrupted download is resumed. Take a start on a disk in good order that does not hold all
  pieces, any run, and an interrupt in any state of it before the final file was written: the round
  ends the loop, the code after the loop writes the part files, and the next start on this disk finds
  every piece the stopped client had verified, counts it once, and queues orders for exactly the others.
  (Pieces still on their way to the main goroutine are not saved.)\<close>

theorem interrupted_download_is_resumed:
  assumes "started_on sha1 cf fs w0" and "clean_disk sha1 t fs old" and "(swarm_step sha1 cf)\<^sup>*\<^sup>* w0 w"
    and "t = cf_torrent cf" and "GetNumberOfPieces t = Inr (num_hashes t)"
    and "0 \<le> tf_PieceLength t" and "tf_PieceLength t < 2 ^ 32" and "num_hashes t \<le> 2 ^ 32"
    and "\<not> mn_saved (sw_main w)" and "results_start t = Inr res0" and "\<And>n. mset (perm n) = mset [0..<n]"
  shows "\<exists>m m' res' orders. main_iter cf dial now script Interrupted (sw_main w) = Some (Inr (Ended, [], m))
    \<and> main_finish cf (\<lambda>k. []) m = Inr m' \<and> loadFromFile sha1 t (mn_fs m') res0 = (Inr False, res')
    \<and> rs_Pieces res' = map (map_option (\<lambda>p. p\<lparr>pc_From := ''''\<rparr>)) (rs_Pieces (mn_results (sw_main w)))
    \<and> rs_PiecesDone res' = rs_PiecesDone (mn_results (sw_main w))
    \<and> make_orders t res' perm = Inr orders \<and> distinct (map po_Index orders)
    \<and> set (map po_Index orders) = {0..<num_hashes t} - have_set (sw_main w)"
proof -
  let ?m = "update_online now (sw_main w)"
  have iter: "main_iter cf dial now script Interrupted (sw_main w) = Some (Inr (Ended, [], ?m))"
    by (simp add: main_iter_def Let_def)
  have "mn_results ?m = mn_results (sw_main w)" using update_online_same [of "sw_main w" now] by (simp add: same_work_def)
  from stop_resumes [OF assms(1-5) assms(7-10) this] update_online_disk [of now "sw_main w"]
  obtain m' res' where fin: "main_finish cf (\<lambda>k. []) ?m = Inr m'" "loadFromFile sha1 t (mn_fs m') res0 = (Inr False, res')"
    "rs_Pieces res' = map (map_option on_disk) (rs_Pieces (mn_results (sw_main w)))"
    "rs_PiecesDone res' = rs_PiecesDone (mn_results (sw_main w))" "bf_members (rs_Bitfield res') = have_set (sw_main w)"
    by auto
  have ok: "results_ok sha1 t res'" using loadFromFile_ok(1) [OF fin(2) results_start_ok(1) [OF assms(10)]] .
  obtain orders where ord: "make_orders t res' perm = Inr orders"
    "map po_Index orders = filter (\<lambda>i. i \<notin> bf_members (rs_Bitfield res')) (map int (perm (nat (num_hashes t))))"
    using make_orders_total [OF assms(5) ok assms(6), of perm] assms(11) by blast
  have "distinct (perm (nat (num_hashes t)))" "set (perm (nat (num_hashes t))) = {0..<nat (num_hashes t)}"
    using assms(11) by (metis distinct_upt mset_eq_imp_distinct_iff) (metis assms(11) mset_eq_setD set_upt)
  then have "distinct (map po_Index orders)" "set (map po_Index orders) = {0..<num_hashes t} - have_set (sw_main w)"
    unfolding ord(2) fin(5) by (auto simp: distinct_map image_int_atLeastLessThan)
  with iter fin ord(1) show ?thesis
    by (intro exI [of _ ?m] exI [of _ m'] exI [of _ res'] exI [of _ orders]) (simp add: on_disk_def [abs_def])
qed

text \<open>The client starts with the second piece on the disk, and is interrupted.\<close>

definition toy_half :: fs where
  "toy_half = [''a-file-name-of-24-ch.0.part'' \<mapsto> File (be_put32 1 @ be_put32 2 @ [3, 4])]"

definition toy_second :: piece where
  "toy_second = \<lparr>pc_Index = 1, pc_Length = 2, pc_Data = [3, 4], pc_From = ''''\<rparr>"

lemma toy_half_loads:
  "loadFromFile toy_hash toy_torrent toy_half toy_empty = (Inr False, \<lparr>rs_Pieces = [None, Some toy_second],
     rs_PiecesDone = 1, rs_TotalLength = 2, rs_Bitfield = \<lparr>bf_Length = 2, bf_data = [64]\<rparr>\<rparr>)"
  "make_orders toy_torrent \<lparr>rs_Pieces = [None, Some toy_second], rs_PiecesDone = 1, rs_TotalLength = 2,
     rs_Bitfield = \<lparr>bf_Length = 2, bf_data = [64]\<rparr>\<rparr> (\<lambda>n. [0..<n]) = Inr [toy_order 0 [1, 2]]"
  "results_start toy_torrent = Inr toy_empty"
  "GetNumberOfPieces toy_torrent = Inr 2"
  by code_simp+

lemma toy_half_clean: "clean_disk toy_hash toy_torrent toy_half (\<lambda>k. if k = 0 then [toy_second] else [])"
proof -
  have "piece_frame toy_second = be_put32 1 @ be_put32 2 @ [3, 4]" by code_simp
  then have "disk_holds toy_torrent toy_half (\<lambda>k. if k = 0 then [toy_second] else [])"
    by (simp add: disk_holds_def toy_names toy_half_def)
  moreover have "verified_storable toy_hash toy_torrent toy_second"
    by (simp add: verified_storable_def piece_storable_def toy_second_def toy_torrent_def)
  ultimately show ?thesis
    by (simp add: clean_disk_def toy_names held_from_def) (simp add: toy_half_def)
qed

theorem interrupted_download_is_resumed_witness:
  "\<exists>cf m0 m m' res'. started_on toy_hash cf toy_half (swarm_start [] m0)
    \<and> main_iter cf (\<lambda>ip pt. None) 0 [] Interrupted m0 = Some (Inr (Ended, [], m)) \<and> main_finish cf (\<lambda>k. []) m = Inr m'
    \<and> loadFromFile toy_hash toy_torrent (mn_fs m') toy_empty = (Inr False, res') \<and> rs_Pieces res' = [None, Some toy_second]"
proof -
  let ?res = "\<lparr>rs_Pieces = [None, Some toy_second], rs_PiecesDone = 1, rs_TotalLength = 2,
     rs_Bitfield = \<lparr>bf_Length = 2, bf_data = [64]\<rparr>\<rparr>"
  have "bf_members \<lparr>bf_Length = 2, bf_data = [64]\<rparr> = {1}"
  proof -
    have i: "i = 0 \<or> i = 1" if "0 \<le> i" "i < 2" for i :: int using that by linarith
    have "\<not> bf_bit [64] 0" "bf_bit [64] (Suc 0)" by code_simp+
    then show ?thesis by (auto simp: bf_members_def dest: i)
  qed
  then have "rs_PiecesDone ?res = int (card (bf_members (rs_Bitfield ?res)))" by simp
  then obtain cf m where m: "started_on toy_hash cf toy_half (swarm_start [] m)" "cf_torrent cf = toy_torrent"
      "mn_results m = ?res" "\<not> mn_saved m"
    by (rule toy_client_on [OF toy_half_loads(1,2)])
  have "GetNumberOfPieces toy_torrent = Inr (num_hashes toy_torrent)" "0 \<le> tf_PieceLength toy_torrent"
    "tf_PieceLength toy_torrent < 2 ^ 32" "num_hashes toy_torrent \<le> 2 ^ 32" "\<not> mn_saved (sw_main (swarm_start [] m))"
    using toy_half_loads(4) m(4) by (simp_all add: toy_torrent_def swarm_start_def)
  from interrupted_download_is_resumed [OF m(1) toy_half_clean rtranclp.rtrancl_refl m(2) [symmetric] this
      toy_half_loads(3), of "\<lambda>n. [0..<n]" "\<lambda>ip pt. None" 0 "[]"]
  obtain m1 m' res' where "main_iter cf (\<lambda>ip pt. None) 0 [] Interrupted m = Some (Inr (Ended, [], m1))"
    "main_finish cf (\<lambda>k. []) m1 = Inr m'" "loadFromFile toy_hash toy_torrent (mn_fs m') toy_empty = (Inr False, res')"
    "rs_Pieces res' = map (map_option (\<lambda>p. p\<lparr>pc_From := ''''\<rparr>)) (rs_Pieces ?res)"
    by (auto simp: swarm_start_def m(3))
  with m(1) show ?thesis
    by (intro exI [of _ cf] exI [of _ m] exI [of _ m1] exI [of _ m'] exI [of _ res']) (simp add: toy_second_def)
qed

end
