(* ===== verification/Session_Seeder.thy ===== *)
theory Session_Seeder
  imports Session_Honest
begin

text \<open>
  A session with an honest seeder: a peer that has all pieces, does not choke the session and
  answers the outstanding requests with the blocks of the torrent, in any order. It downloads
  everything that is queued, in the order of the queue: \<open>plan\<close>, the results followed by what is
  still to come, is the same after every round, and each answer leaves one block less to ask for.
\<close>

section \<open>The torrent's content\<close>

definition torrent_content :: "(byte list \<Rightarrow> hash) \<Rightarrow> torrent_file \<Rightarrow> (int \<Rightarrow> byte list) \<Rightarrow> bool" where
  "torrent_content sha1 t content \<longleftrightarrow> (\<forall>i. 0 \<le> i \<and> i < num_hashes t \<longrightarrow>
     int (length (content i)) = tf_PieceLength t \<and> sha1 (content i) = tf_PieceHashes t ! nat i)"

definition piece_by :: "(int \<Rightarrow> byte list) \<Rightarrow> string \<Rightarrow> piece_order \<Rightarrow> piece" where
  "piece_by content from ord = \<lparr>pc_Index = po_Index ord, pc_Length = po_Length ord,
     pc_Data = content (po_Index ord), pc_From = from\<rparr>"

definition in_progress :: "session \<Rightarrow> piece_order list" where
  "in_progress s = (case pg_order (ss_progress s) of None \<Rightarrow> [] | Some ord \<Rightarrow> [ord])"

fun plan :: "(int \<Rightarrow> byte list) \<Rightarrow> loop_state \<Rightarrow> piece list" where
  "plan content (s, cm) = cm_Results cm @ map (piece_by content (pr_ID (ss_peer s))) (in_progress s @ cm_Orders cm)"

fun to_go :: "loop_state \<Rightarrow> nat" where
  "to_go (s, cm) = (case pg_order (ss_progress s) of None \<Rightarrow> 0 | Some ord \<Rightarrow> blocks_left ord (ss_progress s))
     + sum_list (map (blocks_of \<circ> po_Length) (cm_Orders cm))"

text \<open>What the session itself sends: \<open>have\<close> messages for the pieces it finishes, and requests.\<close>

definition have_message :: "32 word \<Rightarrow> peer_message" where
  "have_message v = \<lparr>pm_KeepAlive = False, pm_Code = MsgHave, pm_Data = be_put32 v\<rparr>"

fun items :: "loop_state \<Rightarrow> nat" where
  "items (s, cm) = length (in_progress s) + length (cm_Orders cm)"

lemma have_message_frame: "SerializeMessage (have_message v) = Inr (message_frame (have_message v))"
  by (rule SerializeMessage_frame) (simp_all add: have_message_def message_ok_def)

definition served_by :: "torrent_file \<Rightarrow> (int \<Rightarrow> byte list) \<Rightarrow> session \<Rightarrow> bool" where
  "served_by t content s \<longleftrightarrow> session_inv t s
     \<and> (\<forall>ord. pg_order (ss_progress s) = Some ord \<longrightarrow> progress_data (content (po_Index ord)) (ss_progress s))
     \<and> \<not> pr_ChokedBy (ss_peer s) \<and> w_reliable (ss_wr s) \<and> ss_requested s = []
     \<and> bf_Length (pr_Bitfield (ss_peer s)) = num_hashes t
     \<and> bf_members (pr_Bitfield (ss_peer s)) = {0..<num_hashes t}"

lemma served_downloading:
  "served_by t content s \<Longrightarrow> pg_order (ss_progress s) = Some ord \<Longrightarrow> downloading t (content (po_Index ord)) ord s"
  by (simp add: served_by_def downloading_def)

lemma downloading_served:
  "downloading t (content (po_Index ord)) ord s' \<Longrightarrow> served_by t content s \<Longrightarrow> ss_peer s' = ss_peer s \<Longrightarrow> served_by t content s'"
  by (simp add: served_by_def downloading_def)

section \<open>One round\<close>

definition same_plan :: "(int \<Rightarrow> byte list) \<Rightarrow> loop_state \<Rightarrow> loop_state \<Rightarrow> bool" where
  "same_plan content st st' \<longleftrightarrow> plan content st' = plan content st \<and> to_go st' = to_go st"

lemma same_plan_refl [simp]: "same_plan content st st"
  by (simp add: same_plan_def)

lemma same_plan_trans: "same_plan content st st1 \<Longrightarrow> same_plan content st1 st2 \<Longrightarrow> same_plan content st st2"
  by (simp add: same_plan_def)

lemma seeder_complete:
  assumes "served_by t content s" and "loop_inv sha1 t (s, cm)" and "torrent_content sha1 t content"
  obtains s1 cm1 where "phase_complete sha1 (s, cm) = Inr (s1, cm1)" and "served_by t content s1"
    and "same_plan content (s, cm) (s1, cm1)"
    and "\<forall>ord. pg_order (ss_progress s1) = Some ord \<longrightarrow> pg_numDone (ss_progress s1) \<noteq> po_Length ord"
    and "\<exists>haves. writes s s1 (map have_message haves) \<and> items (s, cm) = length haves + items (s1, cm1)"
    and "pg_requests (ss_progress s1) = pg_requests (ss_progress s)"
proof (cases "\<exists>ord. pg_order (ss_progress s) = Some ord \<and> pg_numDone (ss_progress s) = po_Length ord")
  case False
  then show ?thesis
    using assms(1) by (intro that [of s cm]) (auto simp: phase_complete_def writes_def split: option.split intro!: exI [of _ "[]"])
next
  case True
  then obtain ord where ord: "pg_order (ss_progress s) = Some ord" and full: "pg_numDone (ss_progress s) = po_Length ord" by blast
  have d: "downloading t (content (po_Index ord)) ord s" using served_downloading [OF assms(1) ord] .
  have ok: "order_ok t ord" and inv: "progress_inv (ss_progress s)" using d by (simp_all add: downloading_def session_inv_def)
  have c: "int (length (content (po_Index ord))) = po_Length ord" "sha1 (content (po_Index ord)) = po_Hash ord"
    using assms(3) ok by (simp_all add: torrent_content_def order_ok_def)
  have buf: "pg_buf (ss_progress s) = content (po_Index ord)" "pg_requests (ss_progress s) = []"
    using complete_buffer [OF inv ord full _ c(1)] d by (simp_all add: downloading_def)
  let ?bs = "message_frame (have_message (uint32_of (po_Index ord)))"
  let ?s = "s\<lparr>ss_peer := (ss_peer s)\<lparr>pr_Downloaded := pr_Downloaded (ss_peer s) + uint32_of (po_Length ord)\<rparr>,
    ss_wr := (ss_wr s)\<lparr>w_out := w_out (ss_wr s) @ ?bs\<rparr>, ss_progress := progress_zero\<rparr>"
  let ?cm = "cm\<lparr>cm_Results := cm_Results cm @ [piece_by content (pr_ID (ss_peer s)) ord]\<rparr>"
  have "phase_complete sha1 (s, cm) = Inr (?s, ?cm)"
    using ord full buf(1) c(2) d have_message_frame [of "uint32_of (po_Index ord)"]
    by (simp add: have_message_def phase_complete_def handlePieceComplete_def chan.contents_send piece_by_def downloading_def)
  moreover have zero: "pg_order progress_zero = None" "pg_requests progress_zero = []" by (simp_all add: progress_zero_def)
  moreover have "served_by t content ?s"
    using assms(1) zero by (simp add: served_by_def session_inv_def)
  moreover have "blocks_left ord (ss_progress s) = 0" using blocks_left_0_iff [OF inv ord] full by simp
  then have "same_plan content (s, cm) (?s, ?cm)"
    using zero by (simp add: same_plan_def ord in_progress_def)
  moreover have "writes s ?s (map have_message [uint32_of (po_Index ord)])"
      "items (s, cm) = length [uint32_of (po_Index ord)] + items (?s, ?cm)"
    using zero by (simp_all add: writes_def ord in_progress_def)
  ultimately show ?thesis using buf(2) by (intro that [of ?s ?cm]) (simp, simp, simp, simp, blast, simp)
qed

lemma seeder_order:
  assumes "served_by t content s" and "loop_inv sha1 t (s, cm)" and "0 < tf_PieceLength t"
    and "\<forall>ord. pg_order (ss_progress s) = Some ord \<longrightarrow> pg_numDone (ss_progress s) \<noteq> po_Length ord"
  obtains s1 cm1 where "phase_order t (s, cm) = Inr (s1, cm1)" and "served_by t content s1"
    and "same_plan content (s, cm) (s1, cm1)"
    and "\<forall>ord. pg_order (ss_progress s1) = Some ord \<longrightarrow> pg_numDone (ss_progress s1) \<noteq> po_Length ord"
    and "pg_order (ss_progress s1) = None \<longrightarrow> cm_Orders cm1 = []"
    and "writes s s1 []" and "items (s1, cm1) = items (s, cm)" and "pg_requests (ss_progress s1) = pg_requests (ss_progress s)"
proof (cases "pg_order (ss_progress s) = None")
  case False
  then have "phase_order t (s, cm) = Inr (s, cm)" by (auto simp: phase_order_def)
  from that [OF this assms(1) same_plan_refl assms(4)] False show ?thesis by (simp add: writes_def)
next
  case True
  have zero: "ss_progress s = progress_zero"
    using assms(1) True by (simp add: served_by_def session_inv_def progress_inv_None)
  have len: "bf_Length (pr_Bitfield (ss_peer s)) = num_hashes t" using assms(1) by (simp add: served_by_def)
  show ?thesis
  proof (cases "cm_Orders cm")
    case Nil
    then have "phase_order t (s, cm) = Inr (s, cm)"
      using True len by (simp add: phase_order_def getPiece_def ch_try_recv_def)
    with assms(1) True Nil show ?thesis by (intro that [of s cm]) (simp_all add: writes_def)
  next
    case (Cons ord rest)
    then have ok: "order_ok t ord" using assms(2) by (simp add: comms_inv_def)
    have "bf_Get (pr_Bitfield (ss_peer s)) (po_Index ord) = Inr True"
      using ok assms(1) by (simp add: order_ok_def served_by_def session_inv_def bf_Get_in)
    moreover have pos: "0 < po_Length ord" using ok assms(3) by (simp add: order_ok_def)
    ultimately have p: "phase_order t (s, cm) = Inr (s\<lparr>ss_progress := progress_zero\<lparr>pg_order := Some ord,
        pg_buf := replicate (nat (po_Length ord)) 0\<rparr>\<rparr>, cm\<lparr>cm_Orders := rest\<rparr>)" (is "_ = Inr (?s, ?cm)")
      using True len Cons by (simp add: phase_order_def getPiece_def ch_try_recv_def zero)
    have "served_by t content ?s"
      using assms(1) ok progress_inv_start [of ord] pos progress_data_start
      by (simp add: served_by_def session_inv_def progress_zero_def)
    moreover have "same_plan content (s, cm) (?s, ?cm)"
      using True Cons by (simp add: same_plan_def in_progress_def blocks_left_def progress_zero_def)
    moreover have "writes s ?s []" "items (?s, ?cm) = items (s, cm)" using True Cons by (simp_all add: writes_def in_progress_def)
    ultimately show ?thesis using p pos zero by (intro that [of ?s ?cm]) (simp_all add: progress_zero_def)
  qed
qed

lemma loop_top_seeder:
  assumes "served_by t content s" and "loop_inv sha1 t (s, cm)" and "torrent_content sha1 t content" and "0 < tf_PieceLength t"
  obtains s1 cm1 where "loop_top sha1 t pieces (s, cm) = Inr (s1, cm1)" and "served_by t content s1"
    and "same_plan content (s, cm) (s1, cm1)"
    and "(pg_order (ss_progress s1) = None \<and> cm_Orders cm1 = []) \<or> pg_requests (ss_progress s1) \<noteq> []"
    and "\<exists>haves new. writes s s1 (map have_message haves @ map request_message new)
      \<and> pg_requests (ss_progress s1) = pg_requests (ss_progress s) @ new \<and> items (s, cm) = length haves + items (s1, cm1)"
proof -
  obtain s1 cm1 where 1: "phase_complete sha1 (s, cm) = Inr (s1, cm1)" "served_by t content s1" "same_plan content (s, cm) (s1, cm1)"
    "\<forall>ord. pg_order (ss_progress s1) = Some ord \<longrightarrow> pg_numDone (ss_progress s1) \<noteq> po_Length ord"
    and w1: "\<exists>haves. writes s s1 (map have_message haves) \<and> items (s, cm) = length haves + items (s1, cm1)"
    "pg_requests (ss_progress s1) = pg_requests (ss_progress s)"
    using seeder_complete [OF assms(1-3)] .
  have inv: "loop_inv sha1 t (s1, cm1)" using phase_complete_inv(1) [OF assms(2) 1(1)] .
  obtain s2 cm2 where 2: "phase_order t (s1, cm1) = Inr (s2, cm2)" "served_by t content s2" "same_plan content (s1, cm1) (s2, cm2)"
    "\<forall>ord. pg_order (ss_progress s2) = Some ord \<longrightarrow> pg_numDone (ss_progress s2) \<noteq> po_Length ord"
    "pg_order (ss_progress s2) = None \<longrightarrow> cm_Orders cm2 = []"
    and w2: "writes s1 s2 []" "items (s2, cm2) = items (s1, cm1)" "pg_requests (ss_progress s2) = pg_requests (ss_progress s1)"
    using seeder_order [OF 1(2) inv assms(4) 1(4)] .
  obtain haves where haves: "writes s s2 (map have_message haves)" "items (s, cm) = length haves + items (s2, cm2)"
    using w1(1) w2(1,2) writes_trans by fastforce
  have top: "loop_top sha1 t pieces (s, cm) = Inr (phase_requests (s2, cm2))"
    using assms(1) 1(1) 2(1,2) by (simp add: loop_top_def phase_upload_def phase_interested_def served_by_def)
  note plan = same_plan_trans [OF 1(3) 2(3)]
  show ?thesis
  proof (cases "pg_order (ss_progress s2)")
    case None
    then have "phase_requests (s2, cm2) = (s2, cm2)" by (simp add: phase_requests_def)
    with top 2 plan None haves w1(2) w2(3) show ?thesis
      by (intro that [of s2 cm2]) (simp_all del: items.simps, intro exI [of _ haves] exI [of _ "[]"], simp)
  next
    case (Some ord)
    note d = served_downloading [OF 2(2) Some]
    from loop_top_downloading [OF d, of sha1 pieces cm2] 2(4) Some
    obtain s3 where 3: "loop_top sha1 t pieces (s2, cm2) = Inr (s3, cm2)" "downloading t (content (po_Index ord)) ord s3"
      "blocks_left ord (ss_progress s3) = blocks_left ord (ss_progress s2)" "pg_requests (ss_progress s3) \<noteq> []"
      "ss_peer s3 = ss_peer s2"
      "\<exists>new. pg_requests (ss_progress s3) = pg_requests (ss_progress s2) @ new \<and> writes s2 s3 (map request_message new)" by metis
    have "phase_requests (s2, cm2) = (s3, cm2)"
      using 3(1) loop_top_incomplete [of s2 ord sha1 t pieces cm2] d 2(4) Some by (simp add: downloading_def)
    moreover have "same_plan content (s2, cm2) (s3, cm2)"
      using 3 Some by (simp add: same_plan_def in_progress_def downloading_def)
    moreover obtain new where new: "pg_requests (ss_progress s3) = pg_requests (ss_progress s) @ new"
        "writes s s3 (map have_message haves @ map request_message new)"
      using 3(6) writes_trans [OF haves(1)] w1(2) w2(3) by auto
    moreover have "items (s3, cm2) = items (s2, cm2)"
      using 3(2) Some by (simp add: in_progress_def downloading_def)
    ultimately show ?thesis
      using top downloading_served [OF 3(2) 2(2) 3(5)] same_plan_trans [OF plan] 3(4) haves(2)
      by (intro that [of s3 cm2]) (simp_all del: items.simps, blast)
  qed
qed

section \<open>The whole download\<close>

definition seeder_block :: "(int \<Rightarrow> byte list) \<Rightarrow> request \<Rightarrow> peer_message" where
  "seeder_block content rq = block_message (piece_by content '''' \<lparr>po_Index = rq_index rq,
     po_Length = int (length (content (rq_index rq))), po_Hash = []\<rparr>) rq"

lemma seeder_answer:
  assumes "served_by t content s" and "rq \<in> set (pg_requests (ss_progress s))" and "torrent_content sha1 t content"
    and "tf_PieceLength t < 2 ^ 32" and "num_hashes t \<le> 2 ^ 32"
  obtains s' where "handle_event t (Received (seeder_block content rq)) (s, cm) = Inr (Looping, s', cm)"
    and "served_by t content s'" and "plan content (s', cm) = plan content (s, cm)" and "to_go (s, cm) = Suc (to_go (s', cm))"
    and "mset (pg_requests (ss_progress s)) = add_mset rq (mset (pg_requests (ss_progress s')))" and "ss_wr s' = ss_wr s"
    and "items (s', cm) = items (s, cm)"
proof -
  have inv: "progress_inv (ss_progress s)" using assms(1) by (simp add: served_by_def session_inv_def)
  then obtain ord where ord: "pg_order (ss_progress s) = Some ord"
    using assms(2) by (cases "pg_order (ss_progress s)") (auto simp: progress_inv_def progress_zero_def)
  note d = served_downloading [OF assms(1) ord]
  have ix: "rq_index rq = po_Index ord" using inv ord assms(2) by (auto simp: progress_inv_def block_ok_def)
  have ok: "order_ok t ord" using assms(1) ord by (simp add: served_by_def session_inv_def)
  let ?p = "piece_by content '''' \<lparr>po_Index = rq_index rq, po_Length = int (length (content (rq_index rq))), po_Hash = []\<rparr>"
  have data: "pc_Data ?p = content (po_Index ord)" by (simp add: piece_by_def ix)
  have len: "int (length (pc_Data ?p)) = po_Length ord" "po_Length ord < 2 ^ 32"
    using assms(3,4) ok unfolding data by (simp_all add: torrent_content_def order_ok_def)
  obtain s' where s': "handle_event t (Received (block_message ?p rq)) (s, cm) = Inr (Looping, s', cm)"
      "downloading t (pc_Data ?p) ord s'" "ss_peer s' = ss_peer s"
      "blocks_left ord (ss_progress s) = Suc (blocks_left ord (ss_progress s'))"
      "mset (pg_requests (ss_progress s)) = add_mset rq (mset (pg_requests (ss_progress s')))" "ss_wr s' = ss_wr s"
    using honest_answer [OF d [folded data] assms(2) len assms(5)] by metis
  note d' = s'(2) [unfolded data]
  have "plan content (s', cm) = plan content (s, cm)" "to_go (s, cm) = Suc (to_go (s', cm))" "items (s', cm) = items (s, cm)"
    using s'(3,4) d' ord by (simp_all add: in_progress_def downloading_def)
  with s'(1,5,6) downloading_served [OF d' assms(1) s'(3)] show ?thesis
    by (intro that [of s']) (simp_all add: seeder_block_def)
qed

text \<open>
  The rounds in which the seeder answers: \<open>ks\<close> says which of the outstanding requests each time. The
  events are those of an ordinary run of the session.
\<close>

fun seeder_rounds :: "(byte list \<Rightarrow> hash) \<Rightarrow> torrent_file \<Rightarrow> piece option list \<Rightarrow> (int \<Rightarrow> byte list) \<Rightarrow> nat list
    \<Rightarrow> loop_state \<Rightarrow> (loop_status \<times> loop_state) result" where
  "seeder_rounds sha1 t pieces content [] st = Inr (Looping, st)"
| "seeder_rounds sha1 t pieces content (k # ks) st =
     bind_result (loop_top sha1 t pieces st) (\<lambda>(s, cm).
       let rqs = pg_requests (ss_progress s)
       in if rqs = [] then Inr (Looping, s, cm)
          else bind_result (handle_event t (Received (seeder_block content (rqs ! (k mod length rqs)))) (s, cm))
            (\<lambda>(status, st1). case status of
                Ended \<Rightarrow> Inr (Ended, st1)
              | Looping \<Rightarrow> seeder_rounds sha1 t pieces content ks st1))"

lemma to_go_0:
  assumes "served_by t content s" and "to_go (s, cm) = 0"
    and "(pg_order (ss_progress s) = None \<and> cm_Orders cm = []) \<or> pg_requests (ss_progress s) \<noteq> []"
  shows "pg_order (ss_progress s) = None \<and> cm_Orders cm = []"
proof -
  have inv: "progress_inv (ss_progress s)" using assms(1) by (simp add: served_by_def session_inv_def)
  have "pg_requests (ss_progress s) = []"
  proof (cases "pg_order (ss_progress s)")
    case None
    then show ?thesis using inv by (simp add: progress_inv_def progress_zero_def)
  next
    case (Some ord)
    then show ?thesis using assms(2) by (simp add: blocks_left_def)
  qed
  with assms(3) show ?thesis by simp
qed

lemma seeder_rounds_run:
  assumes "served_by t content s" and "loop_inv sha1 t (s, cm)" and "torrent_content sha1 t content"
    and "0 < tf_PieceLength t" and "tf_PieceLength t < 2 ^ 32" and "num_hashes t \<le> 2 ^ 32"
    and "length ks = to_go (s, cm)"
  shows "\<exists>s' cm' evs. seeder_rounds sha1 t pieces content ks (s, cm) = Inr (Looping, s', cm')
    \<and> session_run sha1 t pieces (map Received evs) (s, cm) = Inr (Looping, s', cm')
    \<and> served_by t content s' \<and> plan content (s', cm') = plan content (s, cm) \<and> to_go (s', cm') = 0"
  using assms(1,2,7)
proof (induction ks arbitrary: s cm)
  case Nil
  then show ?case by (intro exI [of _ s] exI [of _ cm] exI [of _ "[]"]) simp
next
  case (Cons k ks)
  obtain s1 cm1 where top: "loop_top sha1 t pieces (s, cm) = Inr (s1, cm1)" and s1: "served_by t content s1"
      and same: "same_plan content (s, cm) (s1, cm1)"
      and rqs: "(pg_order (ss_progress s1) = None \<and> cm_Orders cm1 = []) \<or> pg_requests (ss_progress s1) \<noteq> []"
    using loop_top_seeder [OF Cons.prems(1,2) assms(3,4)] .
  have inv1: "loop_inv sha1 t (s1, cm1)" using loop_top_inv(1) [OF Cons.prems(2) top] .
  have go: "to_go (s1, cm1) = Suc (length ks)" using same Cons.prems(3) by (simp add: same_plan_def)
  then have ne: "pg_requests (ss_progress s1) \<noteq> []" using rqs by auto
  let ?rq = "pg_requests (ss_progress s1) ! (k mod length (pg_requests (ss_progress s1)))"
  have "?rq \<in> set (pg_requests (ss_progress s1))" using ne by simp
  then obtain s2 where ans: "handle_event t (Received (seeder_block content ?rq)) (s1, cm1) = Inr (Looping, s2, cm1)"
      and s2: "served_by t content s2" "plan content (s2, cm1) = plan content (s1, cm1)" "to_go (s1, cm1) = Suc (to_go (s2, cm1))"
    using seeder_answer [OF s1 _ assms(3,5,6)] by metis
  have "loop_inv sha1 t (s2, cm1)" using s2(1) inv1 by (simp add: served_by_def)
  moreover have "length ks = to_go (s2, cm1)" using go s2(3) by simp
  ultimately obtain s' cm' evs where IH: "seeder_rounds sha1 t pieces content ks (s2, cm1) = Inr (Looping, s', cm')"
    "session_run sha1 t pieces (map Received evs) (s2, cm1) = Inr (Looping, s', cm')"
    "served_by t content s'" "plan content (s', cm') = plan content (s2, cm1)" "to_go (s', cm') = 0"
    using Cons.IH [OF s2(1)] by blast
  have "session_iter sha1 t pieces (Received (seeder_block content ?rq)) (s, cm) = Inr (Looping, s2, cm1)"
    using top ans by (simp add: session_iter_def)
  with IH s2(2) same top ans ne show ?case
    by (intro exI [of _ s'] exI [of _ cm'] exI [of _ "seeder_block content ?rq # evs"])
       (simp add: Let_def same_plan_def del: handle_event.simps plan.simps to_go.simps)
qed

text \<open>One more round, and all that was queued is among the results.\<close>

lemma seeder_finishes:
  assumes "served_by t content s" and "loop_inv sha1 t (s, cm)" and "torrent_content sha1 t content"
    and "0 < tf_PieceLength t" and "to_go (s, cm) = 0"
  shows "\<exists>s' cm'. session_run sha1 t pieces [Received keep_alive] (s, cm) = Inr (Looping, s', cm')
    \<and> cm_Results cm' = plan content (s, cm) \<and> cm_Orders cm' = [] \<and> pg_order (ss_progress s') = None"
proof -
  obtain s1 cm1 where top: "loop_top sha1 t pieces (s, cm) = Inr (s1, cm1)" and s1: "served_by t content s1"
      and same: "same_plan content (s, cm) (s1, cm1)"
      and rqs: "(pg_order (ss_progress s1) = None \<and> cm_Orders cm1 = []) \<or> pg_requests (ss_progress s1) \<noteq> []"
    using loop_top_seeder [OF assms(1-4)] .
  have "to_go (s1, cm1) = 0" using same assms(5) by (simp add: same_plan_def)
  note idle = to_go_0 [OF s1 this rqs]
  with same have "cm_Results cm1 = plan content (s, cm)" by (simp add: same_plan_def in_progress_def)
  with top idle show ?thesis by (simp add: session_iter_def keep_alive_def)
qed

end
