(* ===== verification/Swarm_Progress.thy ===== *)
theory Swarm_Progress
  imports Swarm_Total Session_Seeder
begin

text \<open>
  Progress of the client as a whole: the rounds of one session with an honest seeder are steps of the
  client, and the main goroutine can take every result that was sent to it; with the last one it
  writes the file. \<open>healthy\<close> collects the invariants of the client.
\<close>

definition healthy :: "(byte list \<Rightarrow> hash) \<Rightarrow> config \<Rightarrow> swarm \<Rightarrow> bool" where
  "healthy sha1 cf w \<longleftrightarrow> swarm_inv sha1 (cf_torrent cf) w \<and> pool_balanced w \<and> tracker_ok (mn_tracker (sw_main w))"

interpretation healthy_client: step_system "swarm_started sha1 cf" "swarm_step sha1 cf" "healthy sha1 cf"
  for sha1 :: "byte list \<Rightarrow> hash" and cf
  by unfold_locales
    (auto simp: healthy_def intro: swarm_started_inv client.inv_step pool_of_client.inv_start pool_of_client.inv_step
      tracker_of_client.inv_start tracker_of_client.inv_step)

section \<open>The rounds of a session\<close>

lemma session_run_steps:
  assumes "session_run sha1 (cf_torrent cf) (rs_Pieces (mn_results m)) (map Received evs) (s, mn_comms m) = Inr (Looping, s', cm)"
  shows "(swarm_step sha1 cf)\<^sup>*\<^sup>* \<lparr>sw_main = m, sw_pending = pd, sw_sessions = ss1 @ s # ss2\<rparr>
    \<lparr>sw_main = m\<lparr>mn_comms := cm\<rparr>, sw_pending = pd, sw_sessions = ss1 @ s' # ss2\<rparr>"
  using assms
proof (induction evs arbitrary: s m)
  case Nil
  then have "s = s'" "mn_comms m = cm" by simp_all
  moreover have "m\<lparr>mn_comms := mn_comms m\<rparr> = m" by simp
  ultimately show ?case by (metis rtranclp.rtrancl_refl)
next
  case (Cons ev evs)
  obtain s1 cm1 where 1: "session_iter sha1 (cf_torrent cf) (rs_Pieces (mn_results m)) (Received ev) (s, mn_comms m)
      = Inr (Looping, s1, cm1)"
    and rest: "session_run sha1 (cf_torrent cf) (rs_Pieces (mn_results m)) (map Received evs) (s1, cm1) = Inr (Looping, s', cm)"
    using Cons.prems by (auto split: loop_status.splits)
  let ?m = "m\<lparr>mn_comms := cm1\<rparr>"
  have "swarm_step sha1 cf \<lparr>sw_main = m, sw_pending = pd, sw_sessions = ss1 @ s # ss2\<rparr>
      \<lparr>sw_main = ?m, sw_pending = pd, sw_sessions = ss1 @ s1 # ss2\<rparr>"
    using of_goroutine [OF round_session [of "Received ev", OF _ 1, of pd ss1 ss2]] by simp
  also have "(swarm_step sha1 cf)\<^sup>*\<^sup>* \<dots> \<lparr>sw_main = ?m\<lparr>mn_comms := cm\<rparr>, sw_pending = pd, sw_sessions = ss1 @ s' # ss2\<rparr>"
    using rest by (intro Cons.IH) simp
  finally show ?case by simp
qed

section \<open>The main goroutine takes the results\<close>

lemma take_round:
  assumes "healthy sha1 cf \<lparr>sw_main = m, sw_pending = pd, sw_sessions = ss\<rparr>" and res: "cm_Results (mn_comms m) = p # ps"
    and disk: "disk_ready (cf_torrent cf) (mn_fs m)"
  obtains m1 m3 m' pd' where "take_piece p (m\<lparr>mn_comms := (mn_comms m)\<lparr>cm_Results := ps\<rparr>\<rparr>) = Inr m1" and "same_work m1 m3"
    and "mn_saved m3 = mn_saved m" and "mn_fs m3 = mn_fs m" and "save_when_done cf [] m3 = Inr m'"
    and "swarm_step sha1 cf \<lparr>sw_main = m, sw_pending = pd, sw_sessions = ss\<rparr>
      \<lparr>sw_main = m', sw_pending = pd', sw_sessions = ss\<rparr>"
proof -
  let ?w = "\<lparr>sw_main = m, sw_pending = pd, sw_sessions = ss\<rparr>" and ?t = "cf_torrent cf"
  let ?m = "m\<lparr>mn_comms := (mn_comms m)\<lparr>cm_Results := ps\<rparr>\<rparr>" and ?dial = "(\<lambda>ip pt. None) :: dialer"
  have work: "work_inv sha1 ?t (tokens ?w) m" and tr: "tracker_ok (mn_tracker m)"
    and pool: "pool_inv (mn_conns m)"
      "mset (pool_addrs (mn_conns m)) = mset (goroutine_addrs ?w @ map snd (cm_ConnectionEnded (mn_comms m)))"
    using assms(1) by (simp_all add: healthy_def swarm_inv_def pool_balanced_def)
  have p: "piece_verified sha1 ?t p" and cm: "comms_inv sha1 ?t ((mn_comms m)\<lparr>cm_Results := ps\<rparr>)"
    using work res by (auto simp: work_inv_def comms_inv_def)
  have "results_ok sha1 ?t (mn_results ?m)" using work by (simp add: work_inv_def)
  then obtain m1 where m1: "take_piece p ?m = Inr m1" using p by (rule take_piece_total)
  have sel: "main_select cf PieceArrived m = Some (Inr (False, m1))" using res m1 by simp
  have "pc_Index p \<in># tokens ?w" using comm_tokens_take_result [OF res] by simp
  note work1 = take_piece_inv(1) [OF work_inv_comms [OF cm work] p this m1]
  have fresh: "dial_fresh ?dial (mn_conns m)" by (simp add: dial_fresh_def)
  have "tracker_ok (mn_tracker m1)" using main_select_tracker [OF sel tr] .
  from main_iter_total [OF work tr pool fresh disk sel this work1, of 0 "[]"]
  obtain r where iter: "main_iter cf ?dial 0 [] PieceArrived m = Some (Inr r)" ..
  then obtain as m3 m' where re: "relaunch cf ?dial 0 (update_online 0 m1) = Inr (as, m3)"
      and save: "save_when_done cf [] m3 = Inr m'" and r: "r = (Looping, as, m')"
    using sel by (auto simp: main_iter_def Let_def)
  have "select_ready PieceArrived m" using res by simp
  from of_main [OF round_main [OF this fresh iter [unfolded r]]]
  have "swarm_step sha1 cf ?w \<lparr>sw_main = m', sw_pending = pd @ map (Pair Leech) as, sw_sessions = ss\<rparr>" .
  moreover have "same_work m1 m3" using same_work_trans [OF update_online_same relaunch_same [OF re]] .
  moreover have "mn_saved m3 = mn_saved m \<and> mn_fs m3 = mn_fs m"
    using relaunch_disk [OF re] update_online_disk take_piece_places [OF m1] by simp
  ultimately show ?thesis using m1 save by (intro that) auto
qed

lemma take_piece_count:
  "take_piece p m = Inr m' \<Longrightarrow> rs_PiecesDone (mn_results m') = rs_PiecesDone (mn_results m) + 1 \<and> mn_comms m' = mn_comms m"
  by (auto simp: take_piece_def Let_def split: sum.splits if_splits)

text \<open>What the download has come to: the file holds the pieces, and the part files are gone.\<close>

definition file_complete :: "(byte list \<Rightarrow> hash) \<Rightarrow> torrent_file \<Rightarrow> piece option list \<Rightarrow> main_state \<Rightarrow> bool" where
  "file_complete sha1 t pieces m \<longleftrightarrow> mn_saved m \<and> (\<exists>qs. pieces = map Some qs
     \<and> map (sha1 \<circ> pc_Data) qs = tf_PieceHashes t \<and> mn_fs m (tf_Name t) = Some (File (concat (map pc_Data qs))))
     \<and> (\<forall>k < fileNumber t. mn_fs m (pname t k) = None)"

lemma save_when_done_complete:
  assumes "work_inv sha1 (cf_torrent cf) W m" and "rs_PiecesDone (mn_results m) = num_hashes (cf_torrent cf)"
    and "\<not> mn_saved m" and "disk_ready (cf_torrent cf) (mn_fs m)" and "save_when_done cf [] m = Inr m'"
  shows "file_complete sha1 (cf_torrent cf) (rs_Pieces (mn_results m)) m'"
proof -
  let ?t = "cf_torrent cf"
  obtain qs where qs: "rs_Pieces (mn_results m) = map Some qs" "length qs = length (tf_PieceHashes ?t)" "in_order 0 qs"
      "\<forall>i < length qs. sha1 (pc_Data (qs ! i)) = tf_PieceHashes ?t ! i"
    using work_complete(2) [OF assms(1,2)] by blast
  have save: "Save \<lparr>w_out = [], w_script = []\<rparr> (map Some qs) = (None, \<lparr>w_out = concat (map pc_Data qs), w_script = []\<rparr>)"
    using Save_from_reliable [OF qs(3), of "\<lparr>w_out = [], w_script = []\<rparr>"] by (simp add: Save_def)
  from save_final_spec [where t = ?t and fs = "mn_fs m", OF _ _ _ _ save] assms(4) obtain fs' where
    "save_final ?t [] (map Some qs) (mn_fs m) = (Inr (), fs')"
    "fs' (tf_Name ?t) = Some (File (concat (map pc_Data qs)))" "\<forall>k < fileNumber ?t. fs' (pname ?t k) = None"
    by (auto simp: disk_ready_def)
  moreover have "map (sha1 \<circ> pc_Data) qs = tf_PieceHashes ?t"
    using qs(2,4) by (intro nth_equalityI) simp_all
  ultimately show ?thesis using assms(2,3,5) qs(1) by (auto simp: save_when_done_def file_complete_def)
qed


text \<open>The last results are taken: the file is there.\<close>

lemma results_taken:
  assumes "healthy sha1 cf \<lparr>sw_main = m, sw_pending = pd, sw_sessions = ss\<rparr>"
    and "cm_Results (mn_comms m) = p # ps" and "disk_ready (cf_torrent cf) (mn_fs m)" and "\<not> mn_saved m"
    and "rs_PiecesDone (mn_results m) + int (length (p # ps)) = num_hashes (cf_torrent cf)"
  shows "\<exists>m' pd'. (swarm_step sha1 cf)\<^sup>*\<^sup>* \<lparr>sw_main = m, sw_pending = pd, sw_sessions = ss\<rparr>
      \<lparr>sw_main = m', sw_pending = pd', sw_sessions = ss\<rparr>
    \<and> file_complete sha1 (cf_torrent cf) (place (p # ps) (rs_Pieces (mn_results m))) m'"
  using assms
proof (induction ps arbitrary: p m pd)
  case (Nil p m pd)
  obtain m1 m3 m' pd' where r: "take_piece p (m\<lparr>mn_comms := (mn_comms m)\<lparr>cm_Results := []\<rparr>\<rparr>) = Inr m1" "same_work m1 m3"
    "mn_saved m3 = mn_saved m" "mn_fs m3 = mn_fs m" "save_when_done cf [] m3 = Inr m'"
    and step: "swarm_step sha1 cf \<lparr>sw_main = m, sw_pending = pd, sw_sessions = ss\<rparr> \<lparr>sw_main = m', sw_pending = pd', sw_sessions = ss\<rparr>"
    using take_round [OF Nil.prems(1-3)] .
  have same: "same_work m' m3" using save_when_done_same [OF r(5)] by (simp add: same_work_def)
  have "healthy sha1 cf \<lparr>sw_main = m', sw_pending = pd', sw_sessions = ss\<rparr>"
    using healthy_client.inv_step [OF Nil.prems(1) step] .
  then have "work_inv sha1 (cf_torrent cf) (sum_list (map held ss) + comm_tokens (mn_comms m')) m3"
    using same_work_inv(1) [OF same] by (simp add: healthy_def swarm_inv_def)
  moreover have "rs_PiecesDone (mn_results m3) = num_hashes (cf_torrent cf)"
    "rs_Pieces (mn_results m3) = place [p] (rs_Pieces (mn_results m))"
    using Nil.prems(5) take_piece_places [OF r(1)] take_piece_count [OF r(1)] r(2) by (simp_all add: same_work_def)
  ultimately have "file_complete sha1 (cf_torrent cf) (place [p] (rs_Pieces (mn_results m))) m'"
    using save_when_done_complete [of sha1 cf _ m3 m'] Nil.prems(3,4) r(3-5) by simp
  then show ?case using step by blast
next
  case (Cons q ps p m pd)
  obtain m1 m3 m' pd' where r: "take_piece p (m\<lparr>mn_comms := (mn_comms m)\<lparr>cm_Results := q # ps\<rparr>\<rparr>) = Inr m1" "same_work m1 m3"
    "mn_saved m3 = mn_saved m" "mn_fs m3 = mn_fs m" "save_when_done cf [] m3 = Inr m'"
    and step: "swarm_step sha1 cf \<lparr>sw_main = m, sw_pending = pd, sw_sessions = ss\<rparr> \<lparr>sw_main = m', sw_pending = pd', sw_sessions = ss\<rparr>"
    using take_round [OF Cons.prems(1-3)] .
  have m3: "rs_Pieces (mn_results m3) = place [p] (rs_Pieces (mn_results m))" "cm_Results (mn_comms m3) = q # ps"
    "rs_PiecesDone (mn_results m3) + int (length (q # ps)) = num_hashes (cf_torrent cf)"
    using Cons.prems(5) take_piece_places [OF r(1)] take_piece_count [OF r(1)] r(2) by (simp_all add: same_work_def)
  then have "m' = m3" using r(5) by (simp add: save_when_done_def)
  note h = healthy_client.inv_step [OF Cons.prems(1) step]
  from Cons.IH [OF h [unfolded \<open>m' = m3\<close>] m3(2)] Cons.prems(3,4) r(3,4) m3(3) obtain m4 pd4 where
    "(swarm_step sha1 cf)\<^sup>*\<^sup>* \<lparr>sw_main = m3, sw_pending = pd', sw_sessions = ss\<rparr> \<lparr>sw_main = m4, sw_pending = pd4, sw_sessions = ss\<rparr>"
    "file_complete sha1 (cf_torrent cf) (place (q # ps) (rs_Pieces (mn_results m3))) m4" by auto
  with step \<open>m' = m3\<close> m3(1) show ?case
    by (intro exI [of _ m4] exI [of _ pd4]) (auto intro: converse_rtranclp_into_rtranclp)
qed


section \<open>The whole download\<close>

text \<open>
  All that is missing is queued for, or in progress in, one session whose peer is an honest seeder.
\<close>

definition last_seeder :: "(byte list \<Rightarrow> hash) \<Rightarrow> config \<Rightarrow> (int \<Rightarrow> byte list) \<Rightarrow> main_state \<Rightarrow> session \<Rightarrow> bool" where
  "last_seeder sha1 cf content m s \<longleftrightarrow>
     served_by (cf_torrent cf) content s \<and> torrent_content sha1 (cf_torrent cf) content
     \<and> 0 < tf_PieceLength (cf_torrent cf) \<and> tf_PieceLength (cf_torrent cf) < 2 ^ 32 \<and> num_hashes (cf_torrent cf) \<le> 2 ^ 32
     \<and> rs_PiecesDone (mn_results m) + int (length (plan content (s, mn_comms m))) = num_hashes (cf_torrent cf)
     \<and> rs_PiecesDone (mn_results m) \<noteq> num_hashes (cf_torrent cf)"

lemma seeder_steps:
  assumes "healthy sha1 cf \<lparr>sw_main = m, sw_pending = pd, sw_sessions = ss1 @ s # ss2\<rparr>" and "last_seeder sha1 cf content m s"
    and "length ks = to_go (s, mn_comms m)"
  obtains s' cm' where
    "seeder_rounds sha1 (cf_torrent cf) (rs_Pieces (mn_results m)) content ks (s, mn_comms m) = Inr (Looping, s', cm')"
    and "(swarm_step sha1 cf)\<^sup>*\<^sup>* \<lparr>sw_main = m, sw_pending = pd, sw_sessions = ss1 @ s # ss2\<rparr>
      \<lparr>sw_main = m\<lparr>mn_comms := cm'\<rparr>, sw_pending = pd, sw_sessions = ss1 @ s' # ss2\<rparr>"
    and "last_seeder sha1 cf content (m\<lparr>mn_comms := cm'\<rparr>) s'"
    and "plan content (s', cm') = plan content (s, mn_comms m)" and "to_go (s', cm') = 0"
proof -
  let ?t = "cf_torrent cf"
  have inv: "loop_inv sha1 ?t (s, mn_comms m)" using assms(1) by (simp add: healthy_def swarm_inv_def work_inv_def)
  have served: "served_by ?t content s" using assms(2) by (simp add: last_seeder_def)
  from assms(2) seeder_rounds_run [OF served inv _ _ _ _ assms(3), where pieces = "rs_Pieces (mn_results m)"]
  obtain s' cm' evs where r: "seeder_rounds sha1 ?t (rs_Pieces (mn_results m)) content ks (s, mn_comms m) = Inr (Looping, s', cm')"
    "session_run sha1 ?t (rs_Pieces (mn_results m)) (map Received evs) (s, mn_comms m) = Inr (Looping, s', cm')"
    "served_by ?t content s'" "plan content (s', cm') = plan content (s, mn_comms m)" "to_go (s', cm') = 0"
    unfolding last_seeder_def by blast
  have "last_seeder sha1 cf content (m\<lparr>mn_comms := cm'\<rparr>) s'"
    using assms(2) r(3,4) by (simp add: last_seeder_def)
  with r session_run_steps [OF r(2)] show ?thesis using that by blast
qed

text \<open>One more round of the session, and the main goroutine collects.\<close>

lemma seeder_collected:
  assumes "healthy sha1 cf \<lparr>sw_main = m, sw_pending = pd, sw_sessions = ss1 @ s # ss2\<rparr>" and "last_seeder sha1 cf content m s"
    and "to_go (s, mn_comms m) = 0" and "disk_ready (cf_torrent cf) (mn_fs m)" and "\<not> mn_saved m"
  shows "\<exists>m' pd' s'. (swarm_step sha1 cf)\<^sup>*\<^sup>* \<lparr>sw_main = m, sw_pending = pd, sw_sessions = ss1 @ s # ss2\<rparr>
      \<lparr>sw_main = m', sw_pending = pd', sw_sessions = ss1 @ s' # ss2\<rparr>
    \<and> file_complete sha1 (cf_torrent cf) (place (plan content (s, mn_comms m)) (rs_Pieces (mn_results m))) m'"
proof -
  let ?t = "cf_torrent cf"
  have inv: "loop_inv sha1 ?t (s, mn_comms m)" using assms(1) by (simp add: healthy_def swarm_inv_def work_inv_def)
  have served: "served_by ?t content s" using assms(2) by (simp add: last_seeder_def)
  from assms(2) seeder_finishes [OF served inv _ _ assms(3), where pieces = "rs_Pieces (mn_results m)"]
  obtain s' cm' where fin: "session_run sha1 ?t (rs_Pieces (mn_results m)) [Received keep_alive] (s, mn_comms m) = Inr (Looping, s', cm')"
    "cm_Results cm' = plan content (s, mn_comms m)"
    unfolding last_seeder_def by blast
  let ?m = "m\<lparr>mn_comms := cm'\<rparr>"
  have steps: "(swarm_step sha1 cf)\<^sup>*\<^sup>* \<lparr>sw_main = m, sw_pending = pd, sw_sessions = ss1 @ s # ss2\<rparr>
      \<lparr>sw_main = ?m, sw_pending = pd, sw_sessions = ss1 @ s' # ss2\<rparr>"
    using fin(1) by (intro session_run_steps [of _ _ _ "[keep_alive]"]) simp
  obtain p ps where ps: "plan content (s, mn_comms m) = p # ps"
    using assms(2) by (cases "plan content (s, mn_comms m)") (auto simp: last_seeder_def)
  have count: "rs_PiecesDone (mn_results m) + int (length (p # ps)) = num_hashes ?t"
    using assms(2) unfolding ps [symmetric] by (simp only: last_seeder_def)
  note h = healthy_client.inv_steps [OF steps assms(1)]
  have "\<exists>m' pd'. (swarm_step sha1 cf)\<^sup>*\<^sup>* \<lparr>sw_main = ?m, sw_pending = pd, sw_sessions = ss1 @ s' # ss2\<rparr>
      \<lparr>sw_main = m', sw_pending = pd', sw_sessions = ss1 @ s' # ss2\<rparr>
    \<and> file_complete sha1 ?t (place (p # ps) (rs_Pieces (mn_results ?m))) m'"
    by (rule results_taken [OF h]) (use fin(2) assms(4,5) count ps in simp_all)
  then obtain m' pd' where "(swarm_step sha1 cf)\<^sup>*\<^sup>* \<lparr>sw_main = ?m, sw_pending = pd, sw_sessions = ss1 @ s' # ss2\<rparr>
      \<lparr>sw_main = m', sw_pending = pd', sw_sessions = ss1 @ s' # ss2\<rparr>"
    "file_complete sha1 ?t (place (p # ps) (rs_Pieces (mn_results m))) m'" by auto
  with steps show ?thesis unfolding ps by (meson rtranclp_trans)
qed

end
