(* ===== verification/Session_Pair.thy ===== *)
theory Session_Pair
  imports Session_Seeder Swarm
begin

text \<open>
  Two clients of this kind at the ends of one connection: the session of a client that downloads and the
  session of a client that has all pieces. What one writes, the other reads, byte for byte and in order.
  A step is the code before the \<open>select\<close> of one of the two sessions, or one message handled by one of them;
  they interleave freely. The other cases of the \<open>select\<close> (a choke round, an interrupt) are left out, and
  what the sessions send to their main goroutines stays in the channels. \<open>pair_inv\<close> says that every
  outstanding request is, exactly once, on its way, waiting to be served, or answered by a block that is on
  its way; \<open>steps_left\<close> counts the steps: each step leaves one less, whoever takes it, so that no
  schedule is longer than another.
\<close>

section \<open>Systems whose steps can be counted\<close>

locale counted_system = step_system start step invariant
  for start :: "'s \<Rightarrow> bool" and step and invariant +
  fixes left :: "'s \<Rightarrow> nat"
  assumes one_less: "invariant s \<Longrightarrow> step s s' \<Longrightarrow> left s = Suc (left s')"
    and not_stuck: "invariant s \<Longrightarrow> 0 < left s \<Longrightarrow> \<exists>s'. step s s'"
begin

lemma inv_power: "(step ^^ n) s s' \<Longrightarrow> invariant s \<Longrightarrow> invariant s'"
  by (rule inv_steps [OF relpowp_imp_rtranclp])

lemma steps_counted: "(step ^^ n) s s' \<Longrightarrow> invariant s \<Longrightarrow> n + left s' = left s"
proof (induction n arbitrary: s')
  case (Suc n)
  then obtain s1 where s1: "(step ^^ n) s s1" "step s1 s'" by auto
  have "n + left s1 = left s" by (rule Suc.IH [OF s1(1) Suc.prems(2)])
  moreover have "left s1 = Suc (left s')" by (rule one_less [OF inv_power [OF s1(1) Suc.prems(2)] s1(2)])
  ultimately show ?case by simp
qed simp

lemma can_finish: "invariant s \<Longrightarrow> \<exists>s'. (step ^^ left s) s s'"
proof (induction "left s" arbitrary: s)
  case 0
  have "(step ^^ left s) s s" unfolding 0(1) [symmetric] by simp
  then show ?case ..
next
  case (Suc n)
  obtain s1 where s1: "step s s1" using not_stuck [OF Suc.prems] Suc.hyps(2) by auto
  then have "left s1 = n" using one_less [OF Suc.prems s1] Suc.hyps(2) by simp
  with Suc.hyps(1) inv_step [OF Suc.prems s1] obtain s' where "(step ^^ n) s1 s'" by blast
  with s1 show ?case unfolding Suc.hyps(2) [symmetric] by (meson relpowp_Suc_I2)
qed

end

section \<open>A pair of sessions\<close>

text \<open>A session with what has arrived for it; \<open>nd_top\<close>: it is at the top of its loop, not at the \<open>select\<close>.\<close>

record node =
  nd_top :: bool
  nd_loop :: loop_state
  nd_in :: "byte list"

text \<open>A step of one session, with the bytes it writes.\<close>

inductive node_step :: "(byte list \<Rightarrow> hash) \<Rightarrow> torrent_file \<Rightarrow> piece option list \<Rightarrow> node \<Rightarrow> byte list \<Rightarrow> node \<Rightarrow> bool"
  for sha1 :: "byte list \<Rightarrow> hash" and t :: torrent_file and pieces :: "piece option list" where
  node_top: "loop_top sha1 t pieces (s, cm) = Inr (s', cm') \<Longrightarrow>
    node_step sha1 t pieces \<lparr>nd_top = True, nd_loop = (s, cm), nd_in = i\<rparr>
      (drop (length (w_out (ss_wr s))) (w_out (ss_wr s'))) \<lparr>nd_top = False, nd_loop = (s', cm'), nd_in = i\<rparr>"
| node_take: "DeserializeMessage \<lparr>rd_data = i, rd_end = EOF, rd_chunks = chunks\<rparr> = (Inr m, r) \<Longrightarrow>
    handle_event t (Received m) st = Inr (Looping, st') \<Longrightarrow>
    node_step sha1 t pieces \<lparr>nd_top = False, nd_loop = st, nd_in = i\<rparr> []
      \<lparr>nd_top = True, nd_loop = st', nd_in = rd_data r\<rparr>"

definition arrives :: "byte list \<Rightarrow> node \<Rightarrow> node" where
  "arrives bs n = n\<lparr>nd_in := nd_in n @ bs\<rparr>"

text \<open>The first of the two sessions downloads, the second serves.\<close>

inductive pair_step :: "(byte list \<Rightarrow> hash) \<Rightarrow> torrent_file \<Rightarrow> piece option list \<Rightarrow> piece option list
    \<Rightarrow> node \<times> node \<Rightarrow> node \<times> node \<Rightarrow> bool"
  for sha1 :: "byte list \<Rightarrow> hash" and t :: torrent_file and own :: "piece option list" and pieces :: "piece option list" where
  pair_leech: "node_step sha1 t own l bs l' \<Longrightarrow> pair_step sha1 t own pieces (l, k) (l', arrives bs k)"
| pair_seed: "node_step sha1 t pieces k bs k' \<Longrightarrow> pair_step sha1 t own pieces (l, k) (arrives bs l, k')"

section \<open>The session that serves\<close>

text \<open>Requests for a block of the torrent, and the pieces a client holds that can answer them all.\<close>

definition askable :: "torrent_file \<Rightarrow> request \<Rightarrow> bool" where
  "askable t rq \<longleftrightarrow> 0 \<le> rq_index rq \<and> rq_index rq < num_hashes t \<and> 0 \<le> rq_start rq
     \<and> 0 < rq_length rq \<and> rq_length rq \<le> chunkSize \<and> rq_start rq + rq_length rq \<le> tf_PieceLength t"

definition stocked :: "torrent_file \<Rightarrow> (int \<Rightarrow> byte list) \<Rightarrow> piece option list \<Rightarrow> bool" where
  "stocked t content pieces \<longleftrightarrow> length pieces = length (tf_PieceHashes t)
     \<and> (\<forall>i < length pieces. \<exists>p. pieces ! i = Some p \<and> pc_Data p = content (int i)
          \<and> int (length (pc_Data p)) = tf_PieceLength t)
     \<and> tf_PieceLength t + 13 < 2 ^ 32 \<and> num_hashes t \<le> 2 ^ 32"

definition seeding :: "torrent_file \<Rightarrow> loop_state \<Rightarrow> bool" where
  "seeding t st \<longleftrightarrow> (case st of (s, cm) \<Rightarrow>
     \<not> pr_Choking (ss_peer s) \<and> pr_Interested (ss_peer s) \<and> w_reliable (ss_wr s)
     \<and> pg_order (ss_progress s) = None \<and> cm_Orders cm = [] \<and> (\<forall>rq \<in> set (ss_requested s). askable t rq))"

lemma askable_bounds:
  assumes "askable t rq" and "stocked t content pieces"
  shows "request_ok rq" and "servable pieces rq" and "pieces_small pieces"
    and "block_message (the (pieces ! nat (rq_index rq))) rq = seeder_block content rq"
    and "message_ok (seeder_block content rq)"
proof -
  have i: "nat (rq_index rq) < length pieces" "int (nat (rq_index rq)) = rq_index rq"
    using assms by (auto simp: askable_def stocked_def)
  then obtain p where p: "pieces ! nat (rq_index rq) = Some p" "pc_Data p = content (rq_index rq)"
      "int (length (pc_Data p)) = tf_PieceLength t"
    using assms(2) unfolding stocked_def by metis
  show "request_ok rq" using assms by (simp add: request_ok_def askable_def stocked_def)
  show "servable pieces rq" using assms i p by (simp add: servable_def askable_def)
  show "pieces_small pieces"
    unfolding pieces_small_def
  proof (intro allI impI)
    fix q assume "Some q \<in> set pieces"
    then obtain j where "j < length pieces" "pieces ! j = Some q" by (auto simp: in_set_conv_nth)
    then have "int (length (pc_Data q)) = tf_PieceLength t" using assms(2) unfolding stocked_def by fastforce
    then show "length (pc_Data q) + 13 < 2 ^ 32" using assms(2) by (simp add: stocked_def)
  qed
  show "block_message (the (pieces ! nat (rq_index rq))) rq = seeder_block content rq"
    using p by (simp add: seeder_block_def block_message_def piece_by_def)
  have "nat (rq_length rq) < 4294967283" using assms(1) by (simp add: askable_def chunkSize_def nat_less_iff)
  then show "message_ok (seeder_block content rq)"
    by (simp add: seeder_block_def block_message_def message_ok_def SerializePieceMsg_def min_less_iff_disj)
qed

text \<open>At the top of its loop the session answers the request it has, if any.\<close>

lemma seeding_top:
  assumes "seeding t (s, cm)" and "stocked t content pieces" and "length (ss_requested s) \<le> 1"
  obtains s' where "loop_top sha1 t pieces (s, cm) = Inr (s', cm)" and "seeding t (s', cm)" and "ss_requested s' = []"
    and "writes s s' (map (seeder_block content) (ss_requested s))"
proof -
  define u where "u = s\<lparr>ss_wr := (ss_wr s)\<lparr>w_out := w_out (ss_wr s)
    @ concat (map message_frame (map (seeder_block content) (ss_requested s)))\<rparr>, ss_requested := []\<rparr>"
  have "phase_upload pieces (s, cm) = Inr (u, cm)"
  proof (cases "ss_requested s")
    case Nil
    then show ?thesis by (simp add: phase_upload_def u_def)
  next
    case (Cons rq rqs)
    with assms(3) have rq: "ss_requested s = [rq]" by simp
    then have a: "askable t rq" using assms(1) by (simp add: seeding_def)
    note b = askable_bounds [OF a assms(2)]
    have "phase_upload pieces (s, cm) = Inr (s\<lparr>ss_wr := (ss_wr s)\<lparr>w_out := w_out (ss_wr s)
      @ message_frame (block_message (the (pieces ! nat (rq_index rq))) rq)\<rparr>, ss_requested := swap_delete 0 [rq]\<rparr>, cm)"
      using assms(1) rq b by (intro phase_upload_servable) (simp_all add: serving_def seeding_def)
    then show ?thesis using rq b(4) by (simp add: u_def swap_delete_def)
  qed
  moreover have "phase_complete sha1 (u, cm) = Inr (u, cm)" "phase_order t (u, cm) = Inr (u, cm)"
      "phase_requests (phase_interested (u, cm)) = (u, cm)"
    using assms(1)
    by (simp_all add: u_def seeding_def phase_complete_def phase_order_def phase_interested_def phase_requests_def
        getPiece_def ch_try_recv_def)
  ultimately have "loop_top sha1 t pieces (s, cm) = Inr (u, cm)" by (simp add: loop_top_def)
  then show ?thesis using that [of u] assms(1) by (simp add: u_def seeding_def writes_def)
qed

lemma seeding_takes_request:
  assumes "seeding t (s, cm)" and "stocked t content pieces" and "askable t rq"
  shows "handle_event t (Received (request_message rq)) (s, cm) = Inr (Looping, s\<lparr>ss_requested := ss_requested s @ [rq]\<rparr>, cm)"
    and "seeding t (s\<lparr>ss_requested := ss_requested s @ [rq]\<rparr>, cm)"
proof -
  have "request_ok rq" using askable_bounds [OF assms(3,2)] by simp
  then have "DeserializeRequestMsg (request_message rq) = Inr (rq_index rq, rq_start rq, rq_length rq)"
    by (simp add: request_message_def DeserializeRequestMsg_Serialize request_ok_def)
  then show "handle_event t (Received (request_message rq)) (s, cm) = Inr (Looping, s\<lparr>ss_requested := ss_requested s @ [rq]\<rparr>, cm)"
    by (simp add: handleMessage_def Let_def request_message_def SerializeRequestMsg_def)
  show "seeding t (s\<lparr>ss_requested := ss_requested s @ [rq]\<rparr>, cm)" using assms(1,3) by (simp add: seeding_def)
qed

lemma seeding_takes_have:
  assumes "seeding t (s, cm)"
  obtains cm' where "handle_event t (Received (have_message v)) (s, cm) = Inr (Looping, s, cm')" and "seeding t (s, cm')"
  using assms that [of "cm\<lparr>cm_Uploaded := ch_send (uint v) (cm_Uploaded cm)\<rparr>"]
  by (simp add: have_message_def handleMessage_def Let_def seeding_def)

section \<open>Messages on their way\<close>

definition wire :: "peer_message list \<Rightarrow> byte list" where
  "wire ms = concat (map message_frame ms)"

lemma wire_append: "wire ms @ wire ns = wire (ms @ ns)"
  by (simp add: wire_def)

lemma writes_wire: "writes s s' ms \<Longrightarrow> drop (length (w_out (ss_wr s))) (w_out (ss_wr s')) = wire ms"
  by (simp add: writes_def wire_def)

lemma wire_take:
  assumes "DeserializeMessage \<lparr>rd_data = wire ms, rd_end = EOF, rd_chunks = chunks\<rparr> = (Inr m, r)"
    and "\<forall>m \<in> set ms. message_ok m"
  obtains ms' where "ms = m # ms'" and "rd_data r = wire ms'"
proof (cases ms)
  case Nil
  then show ?thesis
    using DeserializeMessage_eof [of "\<lparr>rd_data = wire ms, rd_end = EOF, rd_chunks = chunks\<rparr>"] assms(1) by (simp add: wire_def)
next
  case (Cons m' ms')
  then show ?thesis
    using DeserializeMessage_frame [of m' "\<lparr>rd_data = wire ms, rd_end = EOF, rd_chunks = chunks\<rparr>" "wire ms'"] assms that [of ms']
    by (auto simp: wire_def)
qed

lemma wire_ready:
  assumes "message_ok m"
  obtains r where "DeserializeMessage \<lparr>rd_data = wire (m # ms), rd_end = EOF, rd_chunks = []\<rparr> = (Inr m, r)" and "rd_data r = wire ms"
  using DeserializeMessage_frame [OF assms, of "\<lparr>rd_data = wire (m # ms), rd_end = EOF, rd_chunks = []\<rparr>" "wire ms"] that
  by (auto simp: wire_def)

text \<open>The messages in what has arrived, as \<open>DeserializeMessage\<close> reads them one after the other.\<close>

function frames :: "byte list \<Rightarrow> peer_message list" where
  "frames bs = (case DeserializeMessage \<lparr>rd_data = bs, rd_end = EOF, rd_chunks = []\<rparr> of
     (Inl e, r) \<Rightarrow> []
   | (Inr m, r) \<Rightarrow> m # frames (rd_data r))"
  by pat_completeness auto
termination
  by (relation "measure length") (auto dest!: sym [THEN DeserializeMessage_consumes])

declare frames.simps [simp del]

lemma frames_wire: "\<forall>m \<in> set ms. message_ok m \<Longrightarrow> frames (wire ms) = ms"
proof (induction ms)
  case Nil
  show ?case
    using DeserializeMessage_eof [of "\<lparr>rd_data = [], rd_end = EOF, rd_chunks = []\<rparr>"]
    by (auto simp: wire_def frames.simps [of "[]"] split: prod.split sum.split)
next
  case (Cons m ms)
  then have "message_ok m" by simp
  then obtain r where "DeserializeMessage \<lparr>rd_data = wire (m # ms), rd_end = EOF, rd_chunks = []\<rparr> = (Inr m, r)" "rd_data r = wire ms"
    by (rule wire_ready [where ms = ms])
  with Cons show ?case by (simp add: frames.simps [of "wire (m # ms)"])
qed

text \<open>What the downloading session writes: \<open>have\<close> messages and requests.\<close>

fun asked :: "32 word + request \<Rightarrow> peer_message" where
  "asked (Inl v) = have_message v"
| "asked (Inr rq) = request_message rq"

fun requests_of :: "(32 word + request) list \<Rightarrow> request multiset" where
  "requests_of [] = {#}"
| "requests_of (Inl v # asks) = requests_of asks"
| "requests_of (Inr rq # asks) = add_mset rq (requests_of asks)"

fun haves_of :: "(32 word + request) list \<Rightarrow> nat" where
  "haves_of [] = 0"
| "haves_of (Inl v # asks) = Suc (haves_of asks)"
| "haves_of (Inr rq # asks) = haves_of asks"

lemma asked_ok: "message_ok (asked a)"
  by (cases a) (simp_all add: message_ok_def have_message_def request_message_def SerializeRequestMsg_def)

lemma requests_of_append [simp]: "requests_of (as @ bs) = requests_of as + requests_of bs"
  by (induction as rule: requests_of.induct) simp_all

lemma haves_of_append [simp]: "haves_of (as @ bs) = haves_of as + haves_of bs"
  by (induction as rule: haves_of.induct) simp_all

lemma of_Inl [simp]: "requests_of (map Inl vs) = {#}" "haves_of (map Inl vs) = length vs"
  by (induction vs) simp_all

lemma of_Inr [simp]: "requests_of (map Inr rqs) = mset rqs" "haves_of (map Inr rqs) = 0"
  by (induction rqs) simp_all

definition have_frames :: "byte list \<Rightarrow> nat" where
  "have_frames bs = length (filter (\<lambda>m. pm_Code m = MsgHave) (frames bs))"

lemma have_frames_asked: "have_frames (wire (map asked asks)) = haves_of asks"
proof -
  have "length (filter (\<lambda>m. pm_Code m = MsgHave) (map asked asks)) = haves_of asks"
    by (induction asks rule: haves_of.induct)
      (simp_all add: have_message_def request_message_def SerializeRequestMsg_def)
  then show ?thesis using asked_ok by (simp add: have_frames_def frames_wire)
qed

section \<open>The invariant and the number of steps\<close>

text \<open>What is on its way between the two sessions: \<open>asks\<close> to the one that serves, \<open>answers\<close> to the other.\<close>

definition under_way :: "(int \<Rightarrow> byte list) \<Rightarrow> node \<times> node \<Rightarrow> (32 word + request) list \<Rightarrow> request list \<Rightarrow> bool" where
  "under_way content p asks answers \<longleftrightarrow> (case p of (l, k) \<Rightarrow>
     nd_in k = wire (map asked asks) \<and> nd_in l = wire (map (seeder_block content) answers)
     \<and> mset (pg_requests (ss_progress (fst (nd_loop l))))
         = requests_of asks + mset (ss_requested (fst (nd_loop k))) + mset answers)"

definition pair_inv :: "(byte list \<Rightarrow> hash) \<Rightarrow> torrent_file \<Rightarrow> (int \<Rightarrow> byte list) \<Rightarrow> piece list \<Rightarrow> node \<times> node \<Rightarrow> bool" where
  "pair_inv sha1 t content goal p \<longleftrightarrow> (case p of (l, k) \<Rightarrow>
     served_by t content (fst (nd_loop l)) \<and> loop_inv sha1 t (nd_loop l) \<and> plan content (nd_loop l) = goal
     \<and> (nd_top l \<or> pg_order (ss_progress (fst (nd_loop l))) = None \<and> cm_Orders (snd (nd_loop l)) = []
          \<or> pg_requests (ss_progress (fst (nd_loop l))) \<noteq> [])
     \<and> seeding t (nd_loop k) \<and> length (ss_requested (fst (nd_loop k))) \<le> of_bool (nd_top k)
     \<and> (\<exists>asks answers. under_way content p asks answers))"

fun steps_left :: "node \<times> node \<Rightarrow> nat" where
  "steps_left (l, k) = 2 * (2 * to_go (nd_loop l) - (length (ss_requested (fst (nd_loop k))) + length (frames (nd_in l))))
     + 2 * (have_frames (nd_in k) + items (nd_loop l)) + of_bool (nd_top l) + of_bool (nd_top k)"

text \<open>Every outstanding request can be answered.\<close>

lemma outstanding_askable:
  assumes "served_by t content s" and "rq \<in> set (pg_requests (ss_progress s))"
  shows "askable t rq"
proof -
  have inv: "progress_inv (ss_progress s)" using assms(1) by (simp add: served_by_def session_inv_def)
  then obtain ord where ord: "pg_order (ss_progress s) = Some ord"
    using assms(2) by (cases "pg_order (ss_progress s)") (auto simp: progress_inv_def progress_zero_def)
  have "order_ok t ord" using assms(1) ord by (simp add: served_by_def session_inv_def)
  moreover have "block_ok ord (pg_nextToRequest (ss_progress s)) rq" using inv ord assms(2) by (simp add: progress_inv_def)
  ultimately show ?thesis by (auto simp: askable_def order_ok_def block_ok_def chunkSize_def)
qed

lemma outstanding_to_go:
  assumes "served_by t content s"
  shows "length (pg_requests (ss_progress s)) \<le> to_go (s, cm)"
proof (cases "pg_order (ss_progress s)")
  case None
  then show ?thesis using assms by (simp add: served_by_def session_inv_def progress_inv_def progress_zero_def)
qed (simp add: blocks_left_def)

lemma under_way_frames:
  assumes "under_way content (l, k) asks answers" and "served_by t content (fst (nd_loop l))" and "stocked t content pieces"
  shows "\<forall>rq \<in> set answers. askable t rq \<and> message_ok (seeder_block content rq)" and "\<forall>rq \<in># requests_of asks. askable t rq"
    and "length (frames (nd_in l)) = length answers" and "have_frames (nd_in k) = haves_of asks"
    and "size (requests_of asks) + length (ss_requested (fst (nd_loop k))) + length answers \<le> to_go (nd_loop l)"
proof -
  let ?rqs = "pg_requests (ss_progress (fst (nd_loop l)))"
  have m: "mset ?rqs = requests_of asks + mset (ss_requested (fst (nd_loop k))) + mset answers"
    using assms(1) by (simp add: under_way_def)
  then have "set_mset (mset ?rqs) = set_mset (requests_of asks) \<union> set (ss_requested (fst (nd_loop k))) \<union> set answers" by simp
  then have ok: "askable t rq" if "rq \<in># requests_of asks \<or> rq \<in> set answers" for rq
    using outstanding_askable [OF assms(2)] that by auto
  then show answers: "\<forall>rq \<in> set answers. askable t rq \<and> message_ok (seeder_block content rq)"
    using askable_bounds(5) [OF _ assms(3)] by blast
  show "\<forall>rq \<in># requests_of asks. askable t rq" using ok by blast
  have "frames (nd_in l) = map (seeder_block content) answers"
    using assms(1) answers by (simp add: under_way_def frames_wire)
  then show "length (frames (nd_in l)) = length answers" by simp
  show "have_frames (nd_in k) = haves_of asks" using assms(1) by (simp add: under_way_def have_frames_asked)
  have "size (requests_of asks) + length (ss_requested (fst (nd_loop k))) + length answers = length ?rqs"
    using arg_cong [OF m, of size] by simp
  also have "\<dots> \<le> to_go (nd_loop l)" using outstanding_to_go [OF assms(2), of "snd (nd_loop l)"] by (simp del: to_go.simps)
  finally show "size (requests_of asks) + length (ss_requested (fst (nd_loop k))) + length answers \<le> to_go (nd_loop l)" .
qed

section \<open>Steps of the downloading session\<close>

definition pair_world :: "(byte list \<Rightarrow> hash) \<Rightarrow> torrent_file \<Rightarrow> (int \<Rightarrow> byte list) \<Rightarrow> piece option list \<Rightarrow> bool" where
  "pair_world sha1 t content pieces \<longleftrightarrow>
     torrent_content sha1 t content \<and> stocked t content pieces \<and> 0 < tf_PieceLength t"

lemma pair_leech_top:
  assumes "pair_inv sha1 t content goal (l, k)" and "l = \<lparr>nd_top = True, nd_loop = (s, cm), nd_in = i\<rparr>"
    and "pair_world sha1 t content pieces"
  obtains s' cm' p' where "loop_top sha1 t own (s, cm) = Inr (s', cm')"
    and "p' = (\<lparr>nd_top = False, nd_loop = (s', cm'), nd_in = i\<rparr>,
      arrives (drop (length (w_out (ss_wr s))) (w_out (ss_wr s'))) k)"
    and "pair_inv sha1 t content goal p'" and "steps_left (l, k) = Suc (steps_left p')"
proof -
  have s: "served_by t content s" "loop_inv sha1 t (s, cm)" "plan content (s, cm) = goal" "seeding t (nd_loop k)"
      "length (ss_requested (fst (nd_loop k))) \<le> of_bool (nd_top k)"
    using assms(1) by (simp_all add: pair_inv_def assms(2) del: plan.simps loop_inv.simps)
  obtain asks answers where u: "under_way content (l, k) asks answers" using assms(1) by (auto simp: pair_inv_def)
  have w: "torrent_content sha1 t content" "stocked t content pieces" "0 < tf_PieceLength t"
    using assms(3) by (simp_all add: pair_world_def)
  obtain s' cm' where s': "loop_top sha1 t own (s, cm) = Inr (s', cm')" "served_by t content s'" "same_plan content (s, cm) (s', cm')"
      "(pg_order (ss_progress s') = None \<and> cm_Orders cm' = []) \<or> pg_requests (ss_progress s') \<noteq> []"
    and "\<exists>haves new. writes s s' (map have_message haves @ map request_message new)
      \<and> pg_requests (ss_progress s') = pg_requests (ss_progress s) @ new \<and> items (s, cm) = length haves + items (s', cm')"
    using loop_top_seeder [OF s(1,2) w(1,3)] .
  then obtain haves new where new: "writes s s' (map have_message haves @ map request_message new)"
      "pg_requests (ss_progress s') = pg_requests (ss_progress s) @ new" "items (s, cm) = length haves + items (s', cm')" by blast
  let ?p = "(\<lparr>nd_top = False, nd_loop = (s', cm'), nd_in = i\<rparr>,
      arrives (drop (length (w_out (ss_wr s))) (w_out (ss_wr s'))) k)"
  have "drop (length (w_out (ss_wr s))) (w_out (ss_wr s')) = wire (map asked (map Inl haves @ map Inr new))"
    using writes_wire [OF new(1)] by (simp add: o_def)
  then have u': "under_way content ?p (asks @ map Inl haves @ map Inr new) answers"
    using u new(2) by (simp add: under_way_def assms(2) arrives_def wire_append)
  have "loop_inv sha1 t (s', cm')" using loop_top_inv(1) [OF s(2) s'(1)] .
  then have inv': "pair_inv sha1 t content goal ?p"
    using s s' u' by (auto simp: pair_inv_def arrives_def same_plan_def simp del: plan.simps loop_inv.simps)
  note f = under_way_frames [OF u _ w(2)] and f' = under_way_frames [OF u' _ w(2)]
  have "steps_left (l, k) = Suc (steps_left ?p)"
    using f(3,4) f'(3,4) s(1) s'(2,3) new(3)
    by (simp add: assms(2) same_plan_def arrives_def del: to_go.simps items.simps)
  with s'(1) inv' show ?thesis using that by blast
qed

lemma pair_leech_take:
  assumes "pair_inv sha1 t content goal (l, k)" and "l = \<lparr>nd_top = False, nd_loop = (s, cm), nd_in = i\<rparr>"
    and "pair_world sha1 t content pieces"
    and "DeserializeMessage \<lparr>rd_data = i, rd_end = EOF, rd_chunks = chunks\<rparr> = (Inr m, r)"
  obtains s' p' where "handle_event t (Received m) (s, cm) = Inr (Looping, s', cm)"
    and "p' = (\<lparr>nd_top = True, nd_loop = (s', cm), nd_in = rd_data r\<rparr>, k)"
    and "pair_inv sha1 t content goal p'" and "steps_left (l, k) = Suc (steps_left p')"
proof -
  have s: "served_by t content s" "loop_inv sha1 t (s, cm)" "plan content (s, cm) = goal" "seeding t (nd_loop k)"
      "length (ss_requested (fst (nd_loop k))) \<le> of_bool (nd_top k)"
    using assms(1) by (simp_all add: pair_inv_def assms(2) del: plan.simps loop_inv.simps)
  obtain asks answers where u: "under_way content (l, k) asks answers" using assms(1) by (auto simp: pair_inv_def)
  have w: "torrent_content sha1 t content" "stocked t content pieces" "tf_PieceLength t < 2 ^ 32" "num_hashes t \<le> 2 ^ 32"
    using assms(3) by (simp_all add: pair_world_def stocked_def)
  note f = under_way_frames [OF u _ w(2)]
  have i: "i = wire (map (seeder_block content) answers)" using u by (simp add: under_way_def assms(2))
  have "\<forall>m \<in> set (map (seeder_block content) answers). message_ok m" using f(1) s(1) by (simp add: assms(2))
  from wire_take [OF assms(4) [unfolded i] this] obtain rq rest where
    rq: "answers = rq # rest" "m = seeder_block content rq" "rd_data r = wire (map (seeder_block content) rest)"
    by (metis map_eq_Cons_D)
  have "rq \<in># mset (pg_requests (ss_progress s))" using u rq(1) by (simp add: under_way_def assms(2))
  then have "rq \<in> set (pg_requests (ss_progress s))" by simp
  then obtain s' where s': "handle_event t (Received m) (s, cm) = Inr (Looping, s', cm)" "served_by t content s'"
      "plan content (s', cm) = goal" "to_go (s, cm) = Suc (to_go (s', cm))"
      "mset (pg_requests (ss_progress s)) = add_mset rq (mset (pg_requests (ss_progress s')))" "items (s', cm) = items (s, cm)"
    using seeder_answer [OF s(1) _ w(1,3,4), of rq cm] s(3) unfolding rq(2) by metis
  let ?p = "(\<lparr>nd_top = True, nd_loop = (s', cm), nd_in = rd_data r\<rparr>, k)"
  have u': "under_way content ?p asks rest"
    using u s'(5) rq(1,3) by (simp add: under_way_def assms(2))
  have "loop_inv sha1 t (s', cm)" using s(2) s'(2) by (simp add: served_by_def)
  then have inv': "pair_inv sha1 t content goal ?p"
    using s s' u' by (auto simp: pair_inv_def simp del: plan.simps loop_inv.simps)
  note f' = under_way_frames [OF u' _ w(2)]
  have "steps_left (l, k) = Suc (steps_left ?p)"
    using f(3,4,5) f'(3,4) s(1) s'(2,4,6) rq(1)
    by (simp add: assms(2) del: to_go.simps items.simps)
  with s'(1) inv' show ?thesis using that by blast
qed

section \<open>Steps of the session that serves\<close>

lemma pair_seed_top:
  assumes "pair_inv sha1 t content goal (l, k)" and "k = \<lparr>nd_top = True, nd_loop = (s, cm), nd_in = i\<rparr>"
    and "pair_world sha1 t content pieces"
  obtains s' p' where "loop_top sha1 t pieces (s, cm) = Inr (s', cm)"
    and "p' = (arrives (drop (length (w_out (ss_wr s))) (w_out (ss_wr s'))) l,
      \<lparr>nd_top = False, nd_loop = (s', cm), nd_in = i\<rparr>)"
    and "pair_inv sha1 t content goal p'" and "steps_left (l, k) = Suc (steps_left p')"
proof -
  have s: "served_by t content (fst (nd_loop l))" "seeding t (s, cm)" "length (ss_requested s) \<le> 1"
    using assms(1) by (simp_all add: pair_inv_def assms(2))
  obtain asks answers where u: "under_way content (l, k) asks answers" using assms(1) by (auto simp: pair_inv_def)
  have w: "stocked t content pieces" using assms(3) by (simp add: pair_world_def)
  obtain s' where s': "loop_top sha1 t pieces (s, cm) = Inr (s', cm)" "seeding t (s', cm)" "ss_requested s' = []"
      "writes s s' (map (seeder_block content) (ss_requested s))"
    using seeding_top [OF s(2) w s(3)] .
  let ?p = "(arrives (drop (length (w_out (ss_wr s))) (w_out (ss_wr s'))) l,
      \<lparr>nd_top = False, nd_loop = (s', cm), nd_in = i\<rparr>)"
  have u': "under_way content ?p asks (answers @ ss_requested s)"
    using u s'(3) by (simp add: under_way_def assms(2) arrives_def writes_wire [OF s'(4)] wire_append ac_simps)
  then have inv': "pair_inv sha1 t content goal ?p"
    using assms(1) s'(2,3) by (auto simp: pair_inv_def arrives_def)
  note f = under_way_frames [OF u s(1) w] and f' = under_way_frames [OF u' _ w]
  have "steps_left (l, k) = Suc (steps_left ?p)"
    using f(3,4) f'(3,4) s(1) s'(3)
    by (simp add: assms(2) arrives_def del: to_go.simps items.simps)
  with s'(1) inv' show ?thesis using that by blast
qed

lemma pair_seed_take:
  assumes "pair_inv sha1 t content goal (l, k)" and "k = \<lparr>nd_top = False, nd_loop = (s, cm), nd_in = i\<rparr>"
    and "pair_world sha1 t content pieces"
    and "DeserializeMessage \<lparr>rd_data = i, rd_end = EOF, rd_chunks = chunks\<rparr> = (Inr m, r)"
  obtains st' p' where "handle_event t (Received m) (s, cm) = Inr (Looping, st')"
    and "p' = (l, \<lparr>nd_top = True, nd_loop = st', nd_in = rd_data r\<rparr>)"
    and "pair_inv sha1 t content goal p'" and "steps_left (l, k) = Suc (steps_left p')"
proof -
  have s: "served_by t content (fst (nd_loop l))" "seeding t (s, cm)" "ss_requested s = []"
    using assms(1) by (simp_all add: pair_inv_def assms(2))
  obtain asks answers where u: "under_way content (l, k) asks answers" using assms(1) by (auto simp: pair_inv_def)
  have w: "stocked t content pieces" using assms(3) by (simp add: pair_world_def)
  note f = under_way_frames [OF u s(1) w]
  have i: "i = wire (map asked asks)" using u by (simp add: under_way_def assms(2))
  have "\<forall>m \<in> set (map asked asks). message_ok m" using asked_ok by simp
  from wire_take [OF assms(4) [unfolded i] this] obtain a rest where
    a: "asks = a # rest" "m = asked a" "rd_data r = wire (map asked rest)" by (metis map_eq_Cons_D)
  have "\<exists>st'. handle_event t (Received m) (s, cm) = Inr (Looping, st') \<and> seeding t st'
    \<and> mset (ss_requested (fst st')) + requests_of rest = requests_of asks
    \<and> haves_of asks + length (ss_requested (fst st')) = Suc (haves_of rest) \<and> length (ss_requested (fst st')) \<le> 1"
  proof (cases a)
    case (Inl v)
    obtain cm' where "handle_event t (Received (have_message v)) (s, cm) = Inr (Looping, s, cm')" "seeding t (s, cm')"
      using seeding_takes_have [OF s(2)] .
    with a Inl s(3) show ?thesis by (intro exI [of _ "(s, cm')"]) simp
  next
    case (Inr rq)
    then have "askable t rq" using f(2) a(1) by simp
    from seeding_takes_request [OF s(2) w this] a Inr s(3) show ?thesis
      by (intro exI [of _ "(s\<lparr>ss_requested := ss_requested s @ [rq]\<rparr>, cm)"]) simp
  qed
  then obtain st' where st': "handle_event t (Received m) (s, cm) = Inr (Looping, st')" "seeding t st'"
    "mset (ss_requested (fst st')) + requests_of rest = requests_of asks"
    "haves_of asks + length (ss_requested (fst st')) = Suc (haves_of rest)" "length (ss_requested (fst st')) \<le> 1" by blast
  let ?p = "(l, \<lparr>nd_top = True, nd_loop = st', nd_in = rd_data r\<rparr>)"
  have u': "under_way content ?p rest answers"
    using u s(3) a(3) st'(3) by (simp add: under_way_def assms(2) ac_simps)
  then have inv': "pair_inv sha1 t content goal ?p"
    using assms(1) st'(2,5) by (auto simp: pair_inv_def)
  note f' = under_way_frames [OF u' _ w]
  have "steps_left (l, k) = Suc (steps_left ?p)"
    using f(3,4,5) f'(3,4,5) s(1,3) st'(4,5)
    by (simp add: assms(2) del: to_go.simps items.simps)
  with st'(1) inv' show ?thesis using that by blast
qed

section \<open>Every schedule downloads everything\<close>

lemma pair_step_ok:
  assumes "pair_inv sha1 t content goal p" and "pair_step sha1 t own pieces p p'" and "pair_world sha1 t content pieces"
  shows "pair_inv sha1 t content goal p' \<and> steps_left p = Suc (steps_left p')"
  using assms(2)
proof cases
  case (pair_leech l bs l' k)
  note inv = assms(1) [unfolded pair_leech(1)]
  from pair_leech(3) show ?thesis
  proof cases
    case (node_top s cm s' cm' i)
    show ?thesis
      by (rule pair_leech_top [OF inv node_top(1) assms(3), of own]) (use node_top(2-4) pair_leech(1,2) in simp)
  next
    case (node_take i chunks m r st st')
    obtain s cm where st: "st = (s, cm)" by force
    show ?thesis
      by (rule pair_leech_take [OF inv node_take(1) [unfolded st] assms(3) node_take(4)])
        (use node_take(2,3,5) st pair_leech(1,2) in \<open>simp add: arrives_def del: handle_event.simps steps_left.simps\<close>)
  qed
next
  case (pair_seed k bs k' l)
  note inv = assms(1) [unfolded pair_seed(1)]
  from pair_seed(3) show ?thesis
  proof cases
    case (node_top s cm s' cm' i)
    show ?thesis
      by (rule pair_seed_top [OF inv node_top(1) assms(3)]) (use node_top(2-4) pair_seed(1,2) in simp)
  next
    case (node_take i chunks m r st st')
    obtain s cm where st: "st = (s, cm)" by force
    show ?thesis
      by (rule pair_seed_take [OF inv node_take(1) [unfolded st] assms(3) node_take(4)])
        (use node_take(2,3,5) st pair_seed(1,2) in \<open>simp add: arrives_def del: handle_event.simps steps_left.simps\<close>)
  qed
qed

lemma pair_not_stuck:
  assumes "pair_inv sha1 t content goal (l, k)" and "0 < steps_left (l, k)" and "pair_world sha1 t content pieces"
  shows "\<exists>p'. pair_step sha1 t own pieces (l, k) p'"
proof -
  obtain s cm i where l: "l = \<lparr>nd_top = nd_top l, nd_loop = (s, cm), nd_in = i\<rparr>"
    by (metis node.surjective old.unit.exhaust surj_pair)
  obtain s2 cm2 i2 where k: "k = \<lparr>nd_top = nd_top k, nd_loop = (s2, cm2), nd_in = i2\<rparr>"
    by (metis node.surjective old.unit.exhaust surj_pair)
  have w: "stocked t content pieces" using assms(3) by (simp add: pair_world_def)
  have s: "served_by t content s" using assms(1) by (simp add: pair_inv_def) (metis fst_conv l node.select_convs(2))
  obtain asks answers where u: "under_way content (l, k) asks answers" using assms(1) by (auto simp: pair_inv_def)
  show ?thesis
  proof (cases "nd_top l \<or> nd_top k")
    case True
    then show ?thesis
    proof
      assume "nd_top l"
      with l have l': "l = \<lparr>nd_top = True, nd_loop = (s, cm), nd_in = i\<rparr>" by simp
      from pair_leech_top [OF assms(1) this assms(3)] obtain s' cm' where "loop_top sha1 t own (s, cm) = Inr (s', cm')" by metis
      then show ?thesis unfolding l' by (blast intro: pair_leech node_top)
    next
      assume "nd_top k"
      with k have k': "k = \<lparr>nd_top = True, nd_loop = (s2, cm2), nd_in = i2\<rparr>" by simp
      from pair_seed_top [OF assms(1) this assms(3)] obtain s' where "loop_top sha1 t pieces (s2, cm2) = Inr (s', cm2)" by metis
      then show ?thesis unfolding k' by (blast intro: pair_seed node_top)
    qed
  next
    case False
    with l k have l': "l = \<lparr>nd_top = False, nd_loop = (s, cm), nd_in = i\<rparr>"
      and k': "k = \<lparr>nd_top = False, nd_loop = (s2, cm2), nd_in = i2\<rparr>" by simp_all
    note f = under_way_frames [OF u _ w]
    have in1: "i = wire (map (seeder_block content) answers)" and in2: "i2 = wire (map asked asks)"
      and rqs: "mset (pg_requests (ss_progress s)) = requests_of asks + mset (ss_requested s2) + mset answers"
      using u by (simp_all add: under_way_def l' k')
    have none: "ss_requested s2 = []" and idle: "pg_order (ss_progress s) = None \<and> cm_Orders cm = [] \<or> pg_requests (ss_progress s) \<noteq> []"
      using assms(1) by (simp_all add: pair_inv_def l' k')
    show ?thesis
    proof (cases answers)
      case (Cons rq rest)
      then have "message_ok (seeder_block content rq)" using f(1) s by (simp add: l')
      from wire_ready [OF this, of "map (seeder_block content) rest"] obtain r where
        r: "DeserializeMessage \<lparr>rd_data = i, rd_end = EOF, rd_chunks = []\<rparr> = (Inr (seeder_block content rq), r)"
        using in1 Cons by auto
      from pair_leech_take [OF assms(1) l' assms(3) this] obtain s' where
        "handle_event t (Received (seeder_block content rq)) (s, cm) = Inr (Looping, s', cm)" by metis
      with r show ?thesis unfolding l' by (blast intro: pair_leech node_take)
    next
      case Nil
      show ?thesis
      proof (cases asks)
        case (Cons a rest)
        from wire_ready [OF asked_ok, of a "map asked rest"] obtain r where
          r: "DeserializeMessage \<lparr>rd_data = i2, rd_end = EOF, rd_chunks = []\<rparr> = (Inr (asked a), r)"
          using in2 Cons by auto
        from pair_seed_take [OF assms(1) k' assms(3) this] obtain st' where
          "handle_event t (Received (asked a)) (s2, cm2) = Inr (Looping, st')" by metis
        with r show ?thesis unfolding k' by (blast intro: pair_seed node_take)
      next
        assume "asks = []"
        then have "pg_requests (ss_progress s) = []" using rqs Nil none by simp
        then have "pg_order (ss_progress s) = None" "cm_Orders cm = []" using idle by simp_all
        then have "steps_left (l, k) = 0"
          using f(3,4) s Nil none \<open>asks = []\<close> by (simp add: l' k' in_progress_def)
        with assms(2) show ?thesis by simp
      qed
    qed
  qed
qed

definition pair_started :: "(byte list \<Rightarrow> hash) \<Rightarrow> torrent_file \<Rightarrow> (int \<Rightarrow> byte list) \<Rightarrow> piece list \<Rightarrow> node \<times> node \<Rightarrow> bool" where
  "pair_started sha1 t content goal p \<longleftrightarrow> (case p of (l, k) \<Rightarrow>
     nd_top l \<and> nd_top k \<and> nd_in l = [] \<and> nd_in k = []
     \<and> served_by t content (fst (nd_loop l)) \<and> loop_inv sha1 t (nd_loop l) \<and> plan content (nd_loop l) = goal
     \<and> pg_requests (ss_progress (fst (nd_loop l))) = []
     \<and> seeding t (nd_loop k) \<and> ss_requested (fst (nd_loop k)) = [])"

lemma pair_started_inv:
  assumes "pair_started sha1 t content goal (l, k)"
  shows "pair_inv sha1 t content goal (l, k)" and "steps_left (l, k) = 4 * to_go (nd_loop l) + 2 * items (nd_loop l) + 2"
proof -
  have "under_way content (l, k) [] []" using assms by (simp add: pair_started_def under_way_def wire_def)
  then show "pair_inv sha1 t content goal (l, k)"
    using assms by (auto simp: pair_inv_def pair_started_def simp del: plan.simps loop_inv.simps)
  have "frames [] = []" "have_frames [] = 0" using frames_wire [of "[]"] by (simp_all add: wire_def have_frames_def)
  then show "steps_left (l, k) = 4 * to_go (nd_loop l) + 2 * items (nd_loop l) + 2"
    using assms by (simp add: pair_started_def del: to_go.simps items.simps)
qed

text \<open>With no step left the session is idle and everything that was queued is among the results.\<close>

lemma pair_finished:
  assumes "pair_inv sha1 t content goal (l, k)" and "steps_left (l, k) = 0"
  shows "cm_Results (snd (nd_loop l)) = goal" and "cm_Orders (snd (nd_loop l)) = []"
    and "pg_order (ss_progress (fst (nd_loop l))) = None"
proof -
  obtain s cm where sc: "nd_loop l = (s, cm)" by force
  have "items (s, cm) = 0" using assms(2) by (simp add: sc del: to_go.simps items.simps)
  then have idle: "in_progress s = []" "cm_Orders cm = []" by simp_all
  then show "cm_Orders (snd (nd_loop l)) = []" "pg_order (ss_progress (fst (nd_loop l))) = None"
    by (simp_all add: sc in_progress_def split: option.splits)
  have "plan content (s, cm) = goal" using assms(1) by (simp add: pair_inv_def sc del: plan.simps)
  then show "cm_Results (snd (nd_loop l)) = goal" using idle by (simp add: sc)
qed

interpretation pair: counted_system
    "\<lambda>p. pair_world sha1 t content pieces \<and> pair_started sha1 t content goal p" "pair_step sha1 t own pieces"
    "\<lambda>p. pair_world sha1 t content pieces \<and> pair_inv sha1 t content goal p" steps_left
  for sha1 t content goal own pieces
proof
  show "pair_world sha1 t content pieces \<and> pair_started sha1 t content goal p
    \<Longrightarrow> pair_world sha1 t content pieces \<and> pair_inv sha1 t content goal p" for p
    using pair_started_inv(1) [of sha1 t content goal "fst p" "snd p"] by simp
  show "pair_world sha1 t content pieces \<and> pair_inv sha1 t content goal p'"
    if "pair_world sha1 t content pieces \<and> pair_inv sha1 t content goal p" "pair_step sha1 t own pieces p p'" for p p'
    using that pair_step_ok by blast
  show "steps_left p = Suc (steps_left p')"
    if "pair_world sha1 t content pieces \<and> pair_inv sha1 t content goal p" "pair_step sha1 t own pieces p p'" for p p'
    using that pair_step_ok by blast
  show "\<exists>p'. pair_step sha1 t own pieces p p'"
    if "pair_world sha1 t content pieces \<and> pair_inv sha1 t content goal p" "0 < steps_left p" for p
    using that pair_not_stuck [of sha1 t content goal "fst p" "snd p"] by simp
qed

end
