(* ===== verification/Progress_Properties.thy ===== *)
theory Progress_Properties
  imports Swarm_Progress Session_Pair Swarm_Properties
begin

text \<open>
  The properties of the client that say it gets on: its main loop does not fail, with an honest
  seeder it completes the download, and another client of this kind is such a seeder.
\<close>

section \<open>A sample seeder\<close>

definition toy_content :: "int \<Rightarrow> byte list" where
  "toy_content i = (if i = 0 then [1, 2] else [3, 4])"

text \<open>It connects to the client, sends its bit field, in which both pieces are there, and an unchoke message.\<close>

definition toy_conn :: conn where
  "toy_conn = \<lparr>c_rd = \<lparr>rd_data = handshake_frame \<lparr>hs_Extensions = replicate 8 0, hs_InfoHash = replicate 20 9,
     hs_PeerId = replicate 20 65\<rparr>, rd_end = EOF, rd_chunks = []\<rparr>,
     c_wr = \<lparr>w_out = [], w_script = []\<rparr>, c_addr = TCPAddr 1 ''10.0.0.9'' 6881\<rparr>"

definition toy_greeting :: "event list" where
  "toy_greeting = map Received [\<lparr>pm_KeepAlive = False, pm_Code = MsgBitfield, pm_Data = [192]\<rparr>,
     \<lparr>pm_KeepAlive = False, pm_Code = MsgUnchoke, pm_Data = []\<rparr>]"

definition toy_comms :: communication where
  "toy_comms = comms_start [toy_order 0 [1, 2], toy_order 1 [3, 4]]"

text \<open>The session when the greeting has been handled: the first order is taken, the second is queued.\<close>

definition toy_session :: session where
  "toy_session = \<lparr>ss_peer = \<lparr>pr_Downloaded = 0, pr_ChokedBy = False, pr_Choking = True, pr_Interested = False,
       pr_InterestedSent = True, pr_Bitfield = \<lparr>bf_Length = 2, bf_data = [192]\<rparr>, pr_ID = replicate 20 CHR ''A'',
       pr_Addr = TCPAddr 1 ''10.0.0.9'' 6881\<rparr>,
     ss_progress = progress_zero\<lparr>pg_order := Some (toy_order 0 [1, 2]), pg_buf := [0, 0]\<rparr>, ss_requested = [],
     ss_wr = \<lparr>w_out = handshake_frame (own_handshake ''SH01-ziYDZM5WilvkDy9'' (replicate 20 9)) @ [0, 0, 0, 2, 5, 0]
       @ [0, 0, 0, 1, 2], w_script = []\<rparr>\<rparr>"

lemma toy_greeted:
  "case seed toy_conn toy_torrent toy_empty ''SH01-ziYDZM5WilvkDy9'' toy_comms of
     Inr (Some s, cm) \<Rightarrow> cm = toy_comms \<and> session_run toy_hash toy_torrent (rs_Pieces toy_empty) toy_greeting (s, cm)
       = Inr (Looping, toy_session, toy_comms\<lparr>cm_Orders := [toy_order 1 [3, 4]]\<rparr>)
   | _ \<Rightarrow> False"
  by code_simp

section \<open>Properties\<close>



text \<open>C4: An honest seeder completes the download. Take any state the client can reach in which all that is
  missing is queued for, or in progress in, a session whose peer has every piece and does not choke the client.
  When the peer answers the outstanding requests one at a time, in any order (\<open>ks\<close>), after exactly as many
  answers as there are blocks to go the client can take the results and write the file: every piece is there
  with the torrent's hash, the ones this peer sent with its content, and the part files are gone.\<close>

theorem honest_seeder_completes_download:
  assumes "swarm_started sha1 cf w0" and "(swarm_step sha1 cf)\<^sup>*\<^sup>* w0 w"
    and "w = \<lparr>sw_main = m, sw_pending = pd, sw_sessions = ss1 @ s # ss2\<rparr>" and "last_seeder sha1 cf content m s"
    and "length ks = to_go (s, mn_comms m)" and "disk_ready (cf_torrent cf) (mn_fs m)" and "\<not> mn_saved m"
  shows "\<exists>s' cm w1 w2. seeder_rounds sha1 (cf_torrent cf) (rs_Pieces (mn_results m)) content ks (s, mn_comms m)
        = Inr (Looping, s', cm)
    \<and> w1 = \<lparr>sw_main = m\<lparr>mn_comms := cm\<rparr>, sw_pending = pd, sw_sessions = ss1 @ s' # ss2\<rparr>
    \<and> (swarm_step sha1 cf)\<^sup>*\<^sup>* w w1 \<and> (swarm_step sha1 cf)\<^sup>*\<^sup>* w1 w2
    \<and> file_complete sha1 (cf_torrent cf) (place (plan content (s, mn_comms m)) (rs_Pieces (mn_results m))) (sw_main w2)"
proof -
  have h: "healthy sha1 cf w" using healthy_client.inv_steps [OF assms(2)] healthy_client.inv_start [OF assms(1)] .
  obtain s' cm where s': "seeder_rounds sha1 (cf_torrent cf) (rs_Pieces (mn_results m)) content ks (s, mn_comms m)
        = Inr (Looping, s', cm)"
      "(swarm_step sha1 cf)\<^sup>*\<^sup>* w \<lparr>sw_main = m\<lparr>mn_comms := cm\<rparr>, sw_pending = pd, sw_sessions = ss1 @ s' # ss2\<rparr>"
      "last_seeder sha1 cf content (m\<lparr>mn_comms := cm\<rparr>) s'"
      "plan content (s', cm) = plan content (s, mn_comms m)" "to_go (s', cm) = 0"
    using seeder_steps [OF h [unfolded assms(3)] assms(4,5)] unfolding assms(3) by metis
  have "to_go (s', mn_comms (m\<lparr>mn_comms := cm\<rparr>)) = 0" using s'(5) by (simp del: to_go.simps)
  from seeder_collected [OF healthy_client.inv_steps [OF s'(2) h] s'(3) this] s'(4) assms(6,7)
  obtain w2 where "(swarm_step sha1 cf)\<^sup>*\<^sup>* \<lparr>sw_main = m\<lparr>mn_comms := cm\<rparr>, sw_pending = pd, sw_sessions = ss1 @ s' # ss2\<rparr> w2"
    "file_complete sha1 (cf_torrent cf) (place (plan content (s, mn_comms m)) (rs_Pieces (mn_results m))) (sw_main w2)"
    by (auto simp del: plan.simps)
  with s'(1,2) show ?thesis by blast
qed

text \<open>The sample client downloads both pieces from the sample seeder, the blocks of each in one answer.\<close>

lemma toy_reached:
  obtains cf m m1 where "swarm_started toy_hash cf (swarm_start [] m)" and "cf_torrent cf = toy_torrent"
    and "(swarm_step toy_hash cf)\<^sup>*\<^sup>* (swarm_start [] m) \<lparr>sw_main = m1, sw_pending = [], sw_sessions = [toy_session]\<rparr>"
    and "mn_results m1 = toy_empty" and "mn_comms m1 = toy_comms\<lparr>cm_Orders := [toy_order 1 [3, 4]]\<rparr>"
    and "\<not> mn_saved m1" and "mn_fs m1 = (\<lambda>n. None)"
proof -
  have "rs_PiecesDone toy_empty = int (card (bf_members (rs_Bitfield toy_empty)))"
    by (simp add: toy_empty_def toy_members)
  then obtain cf m where m: "swarm_started toy_hash cf (swarm_start [] m)" "cf_torrent cf = toy_torrent"
      "cf_peerId cf = ''SH01-ziYDZM5WilvkDy9''" "mn_results m = toy_empty" "mn_comms m = toy_comms" "cs_peers (mn_conns m) = []"
      "\<not> mn_saved m" "mn_fs m = (\<lambda>n. None)"
    unfolding toy_comms_def by (rule toy_client [OF toy_loads(1,2)])
  let ?a = "c_addr toy_conn"
  define m' where "m' = m\<lparr>mn_conns := snd (Add (mn_conns m) ?a)\<rparr>"
  have m': "mn_results m' = toy_empty" "mn_comms m' = toy_comms" "mn_comms (m'\<lparr>mn_comms := toy_comms\<rparr>) = toy_comms"
    by (simp_all add: m'_def m)
  have "listen_round (Some ?a) (mn_conns m) = (Inr (Some ?a), snd (Add (mn_conns m) ?a))"
    using m(6) by (simp add: listen_round_def Add_def Add_check_def Add_commit_def IsOpen_def Let_def toy_conn_def)
  from step_listen [OF _ this, of toy_hash cf "[]" "[]"] m(6)
  have "swarm_step toy_hash cf (swarm_start [] m) \<lparr>sw_main = m', sw_pending = [] @ (Seed, ?a) # [], sw_sessions = []\<rparr>"
    by (simp add: swarm_start_def fresh_addr_def m'_def)
  moreover obtain s0 where s0: "seed toy_conn toy_torrent toy_empty ''SH01-ziYDZM5WilvkDy9'' toy_comms = Inr (Some s0, toy_comms)"
      "session_run toy_hash toy_torrent (rs_Pieces toy_empty) toy_greeting (s0, toy_comms)
        = Inr (Looping, toy_session, toy_comms\<lparr>cm_Orders := [toy_order 1 [3, 4]]\<rparr>)"
    using toy_greeted by (auto split: sum.splits prod.splits option.splits)
  have "open_session Seed toy_conn (cf_torrent cf) (mn_results m') (cf_peerId cf) (mn_comms m') = Inr (Some s0, toy_comms)"
    using s0(1) by (simp add: open_session_def m m')
  from of_goroutine [OF round_open [OF this, of toy_hash "[]" "[]" "[]"]]
  have "swarm_step toy_hash cf \<lparr>sw_main = m', sw_pending = [] @ (Seed, ?a) # [], sw_sessions = []\<rparr>
      \<lparr>sw_main = m'\<lparr>mn_comms := toy_comms\<rparr>, sw_pending = [], sw_sessions = [] @ s0 # []\<rparr>" by simp
  moreover have "session_run toy_hash (cf_torrent cf) (rs_Pieces (mn_results (m'\<lparr>mn_comms := toy_comms\<rparr>)))
      (map Received [\<lparr>pm_KeepAlive = False, pm_Code = MsgBitfield, pm_Data = [192]\<rparr>,
         \<lparr>pm_KeepAlive = False, pm_Code = MsgUnchoke, pm_Data = []\<rparr>]) (s0, mn_comms (m'\<lparr>mn_comms := toy_comms\<rparr>))
      = Inr (Looping, toy_session, toy_comms\<lparr>cm_Orders := [toy_order 1 [3, 4]]\<rparr>)"
    using s0(2) unfolding toy_greeting_def by (simp add: m(2) m'(1) del: session_run.simps list.map)
  note session_run_steps [OF this, of "[]" "[]" "[]"]
  ultimately have "(swarm_step toy_hash cf)\<^sup>*\<^sup>* (swarm_start [] m)
      \<lparr>sw_main = m'\<lparr>mn_comms := toy_comms, mn_comms := toy_comms\<lparr>cm_Orders := [toy_order 1 [3, 4]]\<rparr>\<rparr>,
       sw_pending = [], sw_sessions = [] @ toy_session # []\<rparr>"
    by (blast intro: converse_rtranclp_into_rtranclp)
  moreover have "m'\<lparr>mn_comms := toy_comms, mn_comms := toy_comms\<lparr>cm_Orders := [toy_order 1 [3, 4]]\<rparr>\<rparr>
      = m'\<lparr>mn_comms := toy_comms\<lparr>cm_Orders := [toy_order 1 [3, 4]]\<rparr>\<rparr>" by simp
  ultimately have "(swarm_step toy_hash cf)\<^sup>*\<^sup>* (swarm_start [] m)
      \<lparr>sw_main = m'\<lparr>mn_comms := toy_comms\<lparr>cm_Orders := [toy_order 1 [3, 4]]\<rparr>\<rparr>, sw_pending = [], sw_sessions = [toy_session]\<rparr>"
    by simp
  from that [OF m(1,2) this] m(7,8) m'(1) show ?thesis by (simp add: m'_def)
qed

lemma toy_served: "served_by toy_torrent toy_content toy_session"
proof -
  have "{0, 1} = {0..<2 :: int}"
    by (rule set_eqI) (simp only: insert_iff empty_iff atLeastLessThan_iff, presburger)
  then have bits: "bf_members \<lparr>bf_Length = 2, bf_data = [192]\<rparr> = {0..<2}" using toy_members(2) by simp
  have n: "num_hashes toy_torrent = 2" by (simp add: toy_torrent_def)
  have pg: "ss_progress toy_session = progress_zero\<lparr>pg_order := Some (toy_order 0 [1, 2]),
      pg_buf := replicate (nat (po_Length (toy_order 0 [1, 2]))) 0\<rparr>"
    by (simp add: toy_session_def toy_order_def numeral_2_eq_2)
  have "progress_inv (ss_progress toy_session)" unfolding pg by (rule progress_inv_start) (simp add: toy_order_def)
  moreover have "order_ok toy_torrent (toy_order 0 [1, 2])" by (simp add: order_ok_def toy_order_def toy_torrent_def)
  moreover have "bf_wf \<lparr>bf_Length = 2, bf_data = [192]\<rparr>" by (simp add: bf_wf_def)
  ultimately have "session_inv toy_torrent toy_session"
    unfolding session_inv_def by (simp add: toy_session_def)
  moreover have "progress_data P (ss_progress toy_session)" for P
    unfolding pg by (rule progress_data_start)
  ultimately show ?thesis using bits n by (simp add: served_by_def) (simp add: toy_session_def)
qed

lemma toy_torrent_content: "torrent_content toy_hash toy_torrent toy_content"
  by (auto simp: torrent_content_def toy_torrent_def toy_content_def less_Suc_eq)

lemma toy_seeder:
  assumes "cf_torrent cf = toy_torrent" and "mn_results m = toy_empty" and "mn_comms m = toy_comms\<lparr>cm_Orders := [toy_order 1 [3, 4]]\<rparr>"
  shows "last_seeder toy_hash cf toy_content m toy_session" and "to_go (toy_session, mn_comms m) = 2"
    and "plan toy_content (toy_session, mn_comms m) = [
      \<lparr>pc_Index = 0, pc_Length = 2, pc_Data = [1, 2], pc_From = replicate 20 CHR ''A''\<rparr>,
      \<lparr>pc_Index = 1, pc_Length = 2, pc_Data = [3, 4], pc_From = replicate 20 CHR ''A''\<rparr>]"
proof -
  from toy_torrent_content assms toy_served show "last_seeder toy_hash cf toy_content m toy_session"
    by (simp add: last_seeder_def toy_empty_def toy_comms_def comms_start_def in_progress_def toy_session_def) (simp add: toy_torrent_def)
  show "to_go (toy_session, mn_comms m) = 2"
    unfolding assms(3) by code_simp
  show "plan toy_content (toy_session, mn_comms m) = [
      \<lparr>pc_Index = 0, pc_Length = 2, pc_Data = [1, 2], pc_From = replicate 20 CHR ''A''\<rparr>,
      \<lparr>pc_Index = 1, pc_Length = 2, pc_Data = [3, 4], pc_From = replicate 20 CHR ''A''\<rparr>]"
    unfolding assms(3) by code_simp
qed

theorem honest_seeder_completes_download_witness:
  "\<exists>cf m w. swarm_started toy_hash cf (swarm_start [] m) \<and> (swarm_step toy_hash cf)\<^sup>*\<^sup>* (swarm_start [] m) w
    \<and> mn_fs (sw_main w) ''a-file-name-of-24-chars.x'' = Some (File [1, 2, 3, 4])"
proof -
  obtain cf m m1 where m: "swarm_started toy_hash cf (swarm_start [] m)" "cf_torrent cf = toy_torrent"
    "(swarm_step toy_hash cf)\<^sup>*\<^sup>* (swarm_start [] m) \<lparr>sw_main = m1, sw_pending = [], sw_sessions = [] @ toy_session # []\<rparr>"
    "mn_results m1 = toy_empty" "mn_comms m1 = toy_comms\<lparr>cm_Orders := [toy_order 1 [3, 4]]\<rparr>" "\<not> mn_saved m1" "mn_fs m1 = (\<lambda>n. None)"
    using toy_reached unfolding append_Nil by blast
  note seeder = toy_seeder [OF m(2,4,5)]
  have "disk_ready (cf_torrent cf) (mn_fs m1)" by (simp add: disk_ready_def m toy_names)
  from honest_seeder_completes_download [OF m(1,3) refl seeder(1) _ this m(6), of "[0, 0]"] seeder(2)
  obtain w1 w2 where w: "(swarm_step toy_hash cf)\<^sup>*\<^sup>* \<lparr>sw_main = m1, sw_pending = [], sw_sessions = [] @ toy_session # []\<rparr> w1"
    "(swarm_step toy_hash cf)\<^sup>*\<^sup>* w1 w2"
    "file_complete toy_hash toy_torrent (place (plan toy_content (toy_session, mn_comms m1)) (rs_Pieces toy_empty)) (sw_main w2)"
    unfolding m(2,4) by (auto simp del: plan.simps)
  have "mn_fs (sw_main w2) ''a-file-name-of-24-chars.x'' = Some (File [1, 2, 3, 4])"
    using w(3) unfolding seeder(3) by (auto simp: file_complete_def toy_empty_def toy_names)
  with m(1,3) w(1,2) show ?thesis by (meson rtranclp_trans)
qed

text \<open>C7: A client serves a client. Two sessions of this program at the two ends of a connection, one whose work
  is queued, one of a client with all pieces that has unchoked the other; each reads, byte for byte, what the
  other wrote, and no choke round or interrupt comes in between. However the two interleave, every run has the same length: four steps for every block to fetch,
  two for every piece, and two. No run is longer, every run can be continued to that length and is stuck only
  there, and then the downloading session is idle and has handed over every piece that was queued, verified,
  in the order of the queue.\<close>

theorem bitflood_serves_bitflood:
  assumes "pair_started sha1 t content goal (l, k)" and "pair_world sha1 t content pieces"
    and "(pair_step sha1 t own pieces ^^ n) (l, k) (l', k')"
    and "steps = 4 * to_go (nd_loop l) + 2 * items (nd_loop l) + 2"
  shows "n \<le> steps \<and> (\<exists>q. (pair_step sha1 t own pieces ^^ (steps - n)) (l', k') q)
    \<and> ((\<exists>q. pair_step sha1 t own pieces (l', k') q) \<longleftrightarrow> n < steps)
    \<and> (n = steps \<longrightarrow> cm_Results (snd (nd_loop l')) = goal \<and> cm_Orders (snd (nd_loop l')) = []
        \<and> pg_order (ss_progress (fst (nd_loop l'))) = None)"
proof -
  note inv = conjI [OF assms(2) pair_started_inv(1) [OF assms(1)]]
  have left: "n + steps_left (l', k') = steps"
    using pair.steps_counted [OF assms(3) inv] pair_started_inv(2) [OF assms(1)] assms(4) by simp
  note inv' = pair.inv_power [OF assms(3) inv]
  have "\<exists>q. (pair_step sha1 t own pieces ^^ (steps - n)) (l', k') q"
    using pair.can_finish [OF inv', of own] left by (metis add_diff_cancel_left')
  moreover have "(\<exists>q. pair_step sha1 t own pieces (l', k') q) \<longleftrightarrow> n < steps"
    using pair.not_stuck [OF inv', of own] pair.one_less [OF inv', of own] left by fastforce
  ultimately show ?thesis using pair_finished [OF conjunct2 [OF inv']] left by (simp del: steps_left.simps)
qed

text \<open>The sample session, and a client that has both pieces of the torrent and has unchoked it.\<close>

definition toy_serving :: session where
  "toy_serving = \<lparr>ss_peer = \<lparr>pr_Downloaded = 0, pr_ChokedBy = True, pr_Choking = False, pr_Interested = True,
       pr_InterestedSent = False, pr_Bitfield = \<lparr>bf_Length = 2, bf_data = [0]\<rparr>, pr_ID = replicate 20 CHR ''B'',
       pr_Addr = TCPAddr 2 ''10.0.0.8'' 6881\<rparr>,
     ss_progress = progress_zero, ss_requested = [], ss_wr = \<lparr>w_out = [], w_script = []\<rparr>\<rparr>"

definition toy_pair :: "node \<times> node" where
  "toy_pair = (\<lparr>nd_top = True, nd_loop = (toy_session, toy_comms\<lparr>cm_Orders := [toy_order 1 [3, 4]]\<rparr>), nd_in = []\<rparr>,
     \<lparr>nd_top = True, nd_loop = (toy_serving, toy_comms\<lparr>cm_Orders := []\<rparr>), nd_in = []\<rparr>)"

definition toy_goal :: "piece list" where
  "toy_goal = [\<lparr>pc_Index = 0, pc_Length = 2, pc_Data = [1, 2], pc_From = replicate 20 CHR ''A''\<rparr>,
     \<lparr>pc_Index = 1, pc_Length = 2, pc_Data = [3, 4], pc_From = replicate 20 CHR ''A''\<rparr>]"

lemma toy_pair_world: "pair_world toy_hash toy_torrent toy_content (rs_Pieces toy_results)"
  by (simp add: pair_world_def toy_torrent_content)
     (auto simp: stocked_def toy_torrent_def toy_results_def toy_content_def less_Suc_eq)

lemma toy_pair_started: "pair_started toy_hash toy_torrent toy_content toy_goal toy_pair"
proof -
  have "loop_inv toy_hash toy_torrent (toy_session, toy_comms\<lparr>cm_Orders := [toy_order 1 [3, 4]]\<rparr>)"
    using toy_served by (simp add: served_by_def comms_inv_def toy_comms_def comms_start_def)
      (simp add: order_ok_def toy_order_def toy_torrent_def)
  moreover have "plan toy_content (toy_session, toy_comms\<lparr>cm_Orders := [toy_order 1 [3, 4]]\<rparr>) = toy_goal"
    unfolding toy_goal_def by code_simp
  moreover have "seeding toy_torrent (toy_serving, toy_comms\<lparr>cm_Orders := []\<rparr>)"
    by (simp add: seeding_def toy_serving_def progress_zero_def)
  ultimately show ?thesis
    using toy_served by (simp add: pair_started_def toy_pair_def del: plan.simps loop_inv.simps)
      (simp add: toy_session_def toy_serving_def progress_zero_def)
qed

theorem bitflood_serves_bitflood_witness:
  "\<exists>l k. (pair_step toy_hash toy_torrent (rs_Pieces toy_empty) (rs_Pieces toy_results) ^^ 14) toy_pair (l, k)
    \<and> cm_Results (snd (nd_loop l)) = toy_goal"
proof -
  have n: "14 = 4 * to_go (nd_loop (fst toy_pair)) + 2 * items (nd_loop (fst toy_pair)) + 2"
    unfolding toy_pair_def by code_simp
  have "pair_started toy_hash toy_torrent toy_content toy_goal (fst toy_pair, snd toy_pair)" using toy_pair_started by simp
  note runs = bitflood_serves_bitflood [OF this toy_pair_world _ n, where own = "rs_Pieces toy_empty", unfolded prod.collapse]
  from runs [of 0 "fst toy_pair" "snd toy_pair"] obtain q where
    "(pair_step toy_hash toy_torrent (rs_Pieces toy_empty) (rs_Pieces toy_results) ^^ 14) toy_pair q" by auto
  with runs [of 14 "fst q" "snd q"] show ?thesis by (metis prod.collapse)
qed

end
