(* ===== verification/Swarm_Time.thy ===== *)
theory Swarm_Time
  imports Swarm_Pool
begin

text \<open>
  The client in time: the timers of \<open>launchTimers\<close> (\<open>client/client.go\<close>), whose ticks are cases of the
  \<open>select\<close> of the main loop, and the runs of the client with a clock, as sequences of rounds. A
  timed run is a run of Swarm that shows when each round of the main goroutine took place, which
  case it took and whom it dialled. The lemmas: how far apart ticks are, and what happens to a
  blacklisted address in the meantime.
\<close>

section \<open>Timers\<close>

definition chokeAlgorithmTick :: int where
  "chokeAlgorithmTick = 10"

definition loggingTick :: int where
  "loggingTick = 1"

text \<open>\<open>time.Second * time.Duration(n)\<close>, in nanoseconds, a product of 64 bits.\<close>

definition seconds :: "int \<Rightarrow> int" where
  "seconds n = sint (word_of_int (1000000000 * n) :: 64 word)"

text \<open>
  A timer is a goroutine that sleeps and then waits until its tick is received, for ever. It is known
  by when it wakes up. A sleep that is not positive ends at once.
\<close>

record timer =
  tm_interval :: int
  tm_due :: int

definition timer_sleep :: "int \<Rightarrow> timer \<Rightarrow> timer" where
  "timer_sleep now t = t\<lparr>tm_due := now + max 0 (seconds (tm_interval t))\<rparr>"

definition timer_ready :: "int \<Rightarrow> timer \<Rightarrow> bool" where
  "timer_ready now t \<longleftrightarrow> tm_due t \<le> now"

record timers =
  ts_choke :: timer
  ts_tracker :: timer
  ts_logging :: timer

definition launchTimers :: "int \<Rightarrow> int \<Rightarrow> int \<Rightarrow> int \<Rightarrow> timers" where
  "launchTimers now chokeInterval trackerInterval loggingInterval =
     \<lparr>ts_choke = timer_sleep now \<lparr>tm_interval = chokeInterval, tm_due = now\<rparr>,
      ts_tracker = timer_sleep now \<lparr>tm_interval = trackerInterval, tm_due = now\<rparr>,
      ts_logging = timer_sleep now \<lparr>tm_interval = loggingInterval, tm_due = now\<rparr>\<rparr>"

text \<open>A tick can be received when its timer waits; the timer then sleeps again.\<close>

fun tick_ready :: "main_event \<Rightarrow> int \<Rightarrow> timers \<Rightarrow> bool" where
  "tick_ready (ChokeTick srt rnd iorder gorder) now ts = timer_ready now (ts_choke ts)"
| "tick_ready (TrackerTick get net) now ts = timer_ready now (ts_tracker ts)"
| "tick_ready LoggingTick now ts = timer_ready now (ts_logging ts)"
| "tick_ready ev now ts = True"

fun tick_taken :: "main_event \<Rightarrow> int \<Rightarrow> timers \<Rightarrow> timers" where
  "tick_taken (ChokeTick srt rnd iorder gorder) now ts = ts\<lparr>ts_choke := timer_sleep now (ts_choke ts)\<rparr>"
| "tick_taken (TrackerTick get net) now ts = ts\<lparr>ts_tracker := timer_sleep now (ts_tracker ts)\<rparr>"
| "tick_taken LoggingTick now ts = ts\<lparr>ts_logging := timer_sleep now (ts_logging ts)\<rparr>"
| "tick_taken ev now ts = ts"

lemma timer_sleep_simps [simp]:
  "tm_interval (timer_sleep now t) = tm_interval t" "tm_due (timer_sleep now t) = now + max 0 (seconds (tm_interval t))"
  by (simp_all add: timer_sleep_def)

lemma seconds_small: "- (2 ^ 33) < n \<Longrightarrow> n < 2 ^ 33 \<Longrightarrow> seconds n = 1000000000 * n"
  unfolding seconds_def sint_sbintrunc' by (simp add: signed_take_bit_int_eq_self)

text \<open>A tracker whose interval is not positive is asked again and again, without any pause.\<close>

lemma no_pause_without_interval:
  assumes "- (2 ^ 33) < tm_interval (ts_tracker ts)" and "tm_interval (ts_tracker ts) \<le> 0"
  shows "tick_ready (TrackerTick get net) now (tick_taken (TrackerTick get net) now ts)"
  using assms seconds_small [OF assms(1)] by (simp add: timer_ready_def)

section \<open>Runs in time\<close>

inductive timed_run :: "(byte list \<Rightarrow> hash) \<Rightarrow> config \<Rightarrow> int \<times> timers \<times> swarm
    \<Rightarrow> (int \<times> main_event \<times> addr list) list \<Rightarrow> int \<times> timers \<times> swarm \<Rightarrow> bool"
  for sha1 :: "byte list \<Rightarrow> hash" and cf :: config and x :: "int \<times> timers \<times> swarm" where
  timed_start: "timed_run sha1 cf x [] x"
| timed_main: "timed_run sha1 cf x tr (now, ts, w) \<Longrightarrow> now \<le> later \<Longrightarrow> tick_ready ev later ts \<Longrightarrow>
    main_round cf later ev as w w' \<Longrightarrow>
    timed_run sha1 cf x (tr @ [(later, ev, as)]) (later, tick_taken ev later ts, w')"
| timed_goroutine: "timed_run sha1 cf x tr (now, ts, w) \<Longrightarrow> goroutine_round sha1 cf w w' \<Longrightarrow>
    timed_run sha1 cf x tr (now, ts, w')"

text \<open>Without the clock a timed run is a run of the client.\<close>

lemma timed_run_steps:
  "timed_run sha1 cf x tr y \<Longrightarrow> (swarm_step sha1 cf)\<^sup>*\<^sup>* (snd (snd x)) (snd (snd y))"
  by (induction rule: timed_run.induct) (auto intro: rtranclp.rtrancl_into_rtrancl swarm_step.intros)

section \<open>The distance of ticks\<close>

text \<open>Rounds of a kind at least \<open>d\<close> apart, the first no sooner than \<open>d\<close> after the start.\<close>

definition spaced :: "int \<Rightarrow> int \<Rightarrow> ('a \<Rightarrow> bool) \<Rightarrow> (int \<times> 'a) list \<Rightarrow> bool" where
  "spaced d start k tr \<longleftrightarrow> sorted_wrt (\<lambda>s t. s + d \<le> t) (start # map fst (filter (k \<circ> snd) tr))"

lemma spaced_snoc:
  "spaced d start k (tr @ [(t, v)]) \<longleftrightarrow>
    spaced d start k tr \<and> (k v \<longrightarrow> start + d \<le> t \<and> (\<forall>(s, u) \<in> set tr. k u \<longrightarrow> s + d \<le> t))"
  by (auto simp: spaced_def sorted_wrt_append)

lemma spaced_count:
  "sorted_wrt (\<lambda>s t. s + d \<le> t) (start # ts) \<Longrightarrow> 0 \<le> d \<Longrightarrow> start \<le> now \<Longrightarrow> \<forall>t \<in> set ts. t \<le> now \<Longrightarrow>
    int (length ts) * d \<le> now - start"
proof (induction ts arbitrary: start)
  case (Cons t ts)
  from Cons.IH [of t] Cons.prems show ?case by (simp add: algebra_simps)
qed simp

fun is_choke_tick :: "main_event \<Rightarrow> bool" where
  "is_choke_tick (ChokeTick srt rnd iorder gorder) = True"
| "is_choke_tick ev = False"

fun is_tracker_tick :: "main_event \<Rightarrow> bool" where
  "is_tracker_tick (TrackerTick get net) = True"
| "is_tracker_tick ev = False"

text \<open>A timer that has been received from is due one interval after the last tick, or later.\<close>

definition timer_kept :: "int \<Rightarrow> int \<Rightarrow> ('a \<Rightarrow> bool) \<Rightarrow> (int \<times> 'a) list \<Rightarrow> timer \<Rightarrow> bool" where
  "timer_kept d start k tr t \<longleftrightarrow> seconds (tm_interval t) = d \<and> spaced d start k tr
     \<and> start + d \<le> tm_due t \<and> (\<forall>(s, u) \<in> set tr. k u \<longrightarrow> s + d \<le> tm_due t)"

lemma timer_kept_start:
  "0 \<le> seconds n \<Longrightarrow> timer_kept (seconds n) start k [] (timer_sleep start \<lparr>tm_interval = n, tm_due = start\<rparr>)"
  by (simp add: timer_kept_def spaced_def)

lemma timer_kept_round:
  assumes "timer_kept d start k tr t" and "0 \<le> d" and "start \<le> now"
    and "if k v then timer_ready now t \<and> t' = timer_sleep now t else t' = t"
  shows "timer_kept d start k (tr @ [(now, v)]) t'"
  using assms by (fastforce simp: timer_kept_def spaced_snoc timer_ready_def split: if_splits)

lemma timed_run_timers:
  assumes "timed_run sha1 cf x tr y" and "0 \<le> d" and "0 \<le> e"
    and "timer_kept d (fst x) (is_choke_tick \<circ> fst) ([] :: (int \<times> main_event \<times> addr list) list) (ts_choke (fst (snd x)))"
    and "timer_kept e (fst x) (is_tracker_tick \<circ> fst) ([] :: (int \<times> main_event \<times> addr list) list) (ts_tracker (fst (snd x)))"
  shows "timer_kept d (fst x) (is_choke_tick \<circ> fst) tr (ts_choke (fst (snd y)))
    \<and> timer_kept e (fst x) (is_tracker_tick \<circ> fst) tr (ts_tracker (fst (snd y)))
    \<and> sorted (map fst tr) \<and> fst x \<le> fst y \<and> (\<forall>t \<in> set tr. fst t \<le> fst y)"
  using assms
proof (induction rule: timed_run.induct)
  case (timed_main tr now ts w later ev as w')
  then show ?case
    by (cases ev) (fastforce simp: sorted_append intro!: timer_kept_round)+
qed auto

section \<open>Blacklisted addresses\<close>

text \<open>An address put on the blacklist at \<open>since\<close>, or again later.\<close>

definition quiet :: "string \<Rightarrow> int \<Rightarrow> connections \<Rightarrow> bool" where
  "quiet ip since c \<longleftrightarrow> (\<exists>t. cs_blacklist c ip = Some t \<and> since \<le> t)"

lemma quiet_peers [simp]: "quiet ip since (c\<lparr>cs_peers := ps\<rparr>) = quiet ip since c"
  by (simp add: quiet_def)

lemma quiet_IsBlacklisted:
  assumes "quiet ip since c" and "now \<le> since + connectionBlacklistDuration" and "IsBlacklisted now c x = (b, c')"
  shows "quiet ip since c' \<and> (x = ip \<longrightarrow> b)"
  using assms by (auto simp: quiet_def IsBlacklisted_def split: option.splits if_splits)

lemma quiet_BlacklistIp: "quiet ip since c \<Longrightarrow> since \<le> now \<Longrightarrow> quiet ip since (BlacklistIp now c x)"
  by (auto simp: quiet_def BlacklistIp_def)

lemma quiet_BlacklistAddr: "quiet ip since c \<Longrightarrow> since \<le> now \<Longrightarrow> quiet ip since (snd (BlacklistAddr now c a))"
  by (auto simp: quiet_def BlacklistAddr_def split: sum.split)

lemma quiet_Add: "Add c a = (r, c') \<Longrightarrow> quiet ip since c' = quiet ip since c"
  by (auto simp: quiet_def Add_def Add_commit_def Let_def split: sum.splits)

lemma quiet_connect:
  assumes "quiet ip since c" and "since \<le> now" and "connectToPeer dial now c x port = (r, c')"
  shows "quiet ip since c' \<and> (\<forall>a. r = Inr a \<longrightarrow> dial x port = Some a)"
  using assms quiet_BlacklistIp [OF assms(1,2), of x]
  by (auto simp: connectToPeer_def quiet_Add split: sum.splits bool.splits option.splits prod.splits)

lemma quiet_launch_loop:
  assumes "since \<le> now" and "now \<le> since + connectionBlacklistDuration"
    and "\<forall>x pt a. dial x pt = Some a \<longrightarrow> addr_ip a = x"
  shows "launch_loop dial now requested peers n c = (r, c') \<Longrightarrow> quiet ip since c \<Longrightarrow>
    quiet ip since c' \<and> (\<forall>as. r = Inr as \<longrightarrow> ip \<notin> addr_ip ` set as)"
proof (induction peers arbitrary: n c r c')
  case (Cons peer rest)
  obtain ipb port where peer: "peer = (ipb, port)" by (cases peer)
  let ?ip = "ip_String ipb"
  note loop = Cons.prems(1) [unfolded peer launch_loop.simps Let_def]
  show ?case
  proof (cases "IsOpen c ?ip = Inr False")
    case False
    then show ?thesis using Cons.IH [OF _ Cons.prems(2)] loop by (auto split: sum.splits bool.splits)
  next
    case True
    obtain b c1 where bl: "IsBlacklisted now c ?ip = (b, c1)" by force
    note q1 = quiet_IsBlacklisted [OF Cons.prems(2) assms(2) bl]
    show ?thesis
    proof (cases "b \<or> port = None")
      case True
      then show ?thesis
        using q1 Cons.IH [of n c1 r c'] loop \<open>IsOpen c ?ip = Inr False\<close> bl by (cases b) auto
    next
      case False
      then obtain pt where pt: "port = Some pt" and other: "?ip \<noteq> ip" using q1 by auto
      obtain r2 c2 where con: "connectToPeer dial now c1 ?ip pt = (r2, c2)" by force
      note q2 = quiet_connect [OF conjunct1 [OF q1] assms(1) con]
      show ?thesis
      proof (cases r2)
        case (Inl e)
        have "(r, c') = (if n = requested then (Inr [], c2)
            else if n > requested then (Inl (Panic (Explicit ''connected to more peers than wanted'')), c2)
            else launch_loop dial now requested rest n c2)"
          using loop unfolding True bl pt by (cases b) (use False in \<open>simp_all add: con Inl\<close>)
        then show ?thesis using q2 Cons.IH [of n c2 r c'] by (cases n requested rule: linorder_cases) simp_all
      next
        case (Inr a)
        have "dial ?ip pt = Some a" using q2 Inr by simp
        then have "addr_ip a = ?ip" by (rule assms(3) [rule_format])
        with other have a: "addr_ip a \<noteq> ip" by simp
        obtain r4 c4 where rest: "launch_loop dial now requested rest (n + 1) c2 = (r4, c4)" by force
        note q4 = Cons.IH [OF rest conjunct1 [OF q2]]
        have "(r, c') = (if n + 1 = requested then (Inr [a], c2)
            else if n + 1 > requested then (Inl (Panic (Explicit ''connected to more peers than wanted'')), c2)
            else (case r4 of Inl e \<Rightarrow> (Inl e, c4) | Inr as \<Rightarrow> (Inr (a # as), c4)))"
          using loop unfolding True bl pt by (cases b; cases r4) (use False in \<open>auto simp: con Inr rest\<close>)
        then show ?thesis using q2 q4 a by (cases "n + 1" requested rule: linorder_cases; cases r4) auto
      qed
    qed
  qed
qed simp

lemma quiet_forget:
  assumes "since \<le> now"
  shows "quiet ip since c \<or> (\<exists>(i, a) \<in> set ended. is_tcp a \<and> addr_ip a = ip) \<Longrightarrow>
    quiet ip since (fst (forget_ended now ended c gen intr))"
proof (induction ended arbitrary: c gen intr)
  case (Cons e ended)
  obtain i a where e: "e = (i, a)" by (cases e)
  let ?c = "snd (BlacklistAddr now c a)"
  have "quiet ip since ?c \<or> (\<exists>(i, a) \<in> set ended. is_tcp a \<and> addr_ip a = ip)"
    using Cons.prems quiet_BlacklistAddr [OF _ assms, of ip c a] assms
    by (cases a) (auto simp: e quiet_def BlacklistAddr_def is_tcp_def addr_ip_def)
  from Cons.IH [OF this, of "gen(i := None)" "intr(i := None)"] show ?case
    by (simp add: forget_ended_def e del: fun_upd_apply)
qed (simp add: forget_ended_def)

lemma quiet_remove_ended: "quiet ip since (remove_ended as c) = quiet ip since c"
proof (induction as arbitrary: c)
  case (Cons a as)
  have "quiet ip since (snd (Remove c a)) = quiet ip since c" by (simp add: Remove_def split: option.split)
  with Cons show ?case by (simp add: remove_ended_def)
qed (simp add: remove_ended_def)

text \<open>An address is quiet once the main goroutine has dealt with the end of its connection.\<close>

definition ended_ip :: "string \<Rightarrow> main_state \<Rightarrow> bool" where
  "ended_ip ip m \<longleftrightarrow> (\<exists>(i, a) \<in> set (cm_ConnectionEnded (mn_comms m)). is_tcp a \<and> addr_ip a = ip)"

lemma quiet_update_online:
  assumes "since \<le> now" and "quiet ip since (mn_conns m) \<or> ended_ip ip m"
  shows "quiet ip since (mn_conns (update_online now m))"
proof -
  obtain c1 gen intr where f: "forget_ended now (cm_ConnectionEnded (mn_comms m)) (mn_conns m) (mn_generosity m) (mn_interested m)
      = (c1, gen, intr)" by (metis prod_cases3)
  have "quiet ip since c1"
    using quiet_forget [OF assms(1) assms(2) [unfolded ended_ip_def], of "mn_generosity m" "mn_interested m"] f by simp
  then show ?thesis by (simp add: update_online_def updateOnlineConnections_def f quiet_remove_ended)
qed

lemma main_select_quiet:
  assumes "main_select cf ev m = Some (Inr (exit, m1))"
  shows "quiet ip since (mn_conns m1) = quiet ip since (mn_conns m) \<and> ended_ip ip m1 = ended_ip ip m"
proof -
  have "cs_blacklist (mn_conns m1) = cs_blacklist (mn_conns m)
      \<and> cm_ConnectionEnded (mn_comms m1) = cm_ConnectionEnded (mn_comms m)"
    using assms
    by (cases ev) (auto simp: take_piece_def bind_result_def choke_tick_def tracker_tick_def Let_def
        split: list.splits sum.splits option.splits prod.splits if_splits go_error.splits)
  then show ?thesis by (simp add: quiet_def ended_ip_def)
qed

lemma main_round_quiet:
  assumes "main_round cf now ev as w w'" and "since \<le> now" and "now \<le> since + connectionBlacklistDuration"
    and "quiet ip since (mn_conns (sw_main w)) \<or> ended_ip ip (sw_main w)"
  shows "quiet ip since (mn_conns (sw_main w')) \<and> ip \<notin> addr_ip ` set as"
  using assms
proof (induction rule: main_round.induct)
  case (round_main ev m dial now script as m' pd ss)
  then obtain exit m1 where sel: "main_select cf ev m = Some (Inr (exit, m1))"
    by (auto simp: main_iter_def split: option.splits sum.splits)
  let ?m2 = "update_online now m1"
  have q: "quiet ip since (mn_conns ?m2)"
    using quiet_update_online [OF round_main(4), of ip m1] round_main(6) main_select_quiet [OF sel] by simp
  obtain m3 where re: "relaunch cf dial now ?m2 = Inr (as, m3)" and sv: "save_when_done cf script m3 = Inr m'"
    using round_main(3) sel by (auto simp: main_iter_def Let_def bind_result_def split: if_splits sum.splits)
  have "quiet ip since (mn_conns m3) \<and> ip \<notin> addr_ip ` set as"
  proof (cases "rs_PiecesDone (mn_results ?m2) \<noteq> num_hashes (cf_torrent cf)
      \<and> int (length (cs_peers (mn_conns ?m2))) < maximumDownloaders")
    case True
    then obtain c3 where l: "launchClients dial now (maximumDownloaders - int (length (cs_peers (mn_conns ?m2)))) (mn_tracker ?m2)
        (mn_conns ?m2) = (Inr as, c3)" and m3: "m3 = ?m2\<lparr>mn_conns := c3\<rparr>"
      using re by (auto simp: relaunch_def Let_def split: prod.splits sum.splits)
    have "\<forall>x pt a. dial x pt = Some a \<longrightarrow> addr_ip a = x" using round_main(2) by (simp add: dial_fresh_def)
    from quiet_launch_loop [OF round_main(4,5) this l [unfolded launchClients_def] q] show ?thesis by (simp add: m3)
  next
    case False
    then show ?thesis using re q by (auto simp: relaunch_def Let_def)
  qed
  moreover have "mn_conns m' = mn_conns m3"
    using sv by (auto simp: save_when_done_def split: if_splits sum.splits prod.splits)
  ultimately show ?case by simp
qed

lemma timed_run_quiet:
  assumes "timed_run sha1 cf x tr y" and "quiet ip since (mn_conns (sw_main (snd (snd x))))" and "since \<le> fst x"
  shows "\<forall>(now, ev, as) \<in> set tr. now \<le> since + connectionBlacklistDuration \<longrightarrow> ip \<notin> addr_ip ` set as"
    and "fst y \<le> since + connectionBlacklistDuration \<Longrightarrow> quiet ip since (mn_conns (sw_main (snd (snd y))))"
    and "fst x \<le> fst y"
proof -
  have "(\<forall>(now, ev, as) \<in> set tr. now \<le> since + connectionBlacklistDuration \<longrightarrow> ip \<notin> addr_ip ` set as)
    \<and> (fst y \<le> since + connectionBlacklistDuration \<longrightarrow> quiet ip since (mn_conns (sw_main (snd (snd y)))))
    \<and> fst x \<le> fst y"
    using assms
  proof (induction rule: timed_run.induct)
    case (timed_main tr now ts w later ev as w')
    then have "quiet ip since (mn_conns (sw_main w')) \<and> ip \<notin> addr_ip ` set as"
      if "later \<le> since + connectionBlacklistDuration"
      using that main_round_quiet [OF timed_main(4) _ that, of ip] by simp
    then show ?case using timed_main by auto
  next
    case (timed_goroutine tr now ts w w')
    from timed_goroutine(2) have "cs_blacklist (mn_conns (sw_main w')) = cs_blacklist (mn_conns (sw_main w))"
    proof (induction rule: goroutine_round.induct)
      case (round_session ev s m s' cm pd ss1 ss2)
      then show ?case by (cases ev) simp_all
    qed (auto simp: listen_round_def Add_def Add_commit_def Let_def split: sum.splits)
    then show ?case using timed_goroutine by (simp add: quiet_def)
  qed simp
  then show "\<forall>(now, ev, as) \<in> set tr. now \<le> since + connectionBlacklistDuration \<longrightarrow> ip \<notin> addr_ip ` set as"
    "fst y \<le> since + connectionBlacklistDuration \<Longrightarrow> quiet ip since (mn_conns (sw_main (snd (snd y))))"
    "fst x \<le> fst y" by blast+
qed

end
