(* ===== verification/Time_Properties.thy ===== *)
theory Time_Properties
  imports Swarm_Time
begin

text \<open>
  The properties of the client in time: how far apart its periodic rounds are, and whom it does not
  dial.
\<close>

section \<open>A sample client\<close>

text \<open>One piece is missing, the tracker names one peer, and the connection to this peer has ended.\<close>

definition clock_config :: config where
  "clock_config = \<lparr>cf_torrent = \<lparr>tf_Announce = ''http://t0'', tf_Name = ''a-file-name-of-24-chars.x'', tf_Comment = '''',
     tf_CreatedBy = '''', tf_CreationDate = 0, tf_Length = 2, tf_PieceLength = 2, tf_PieceHashes = [[1]],
     tf_InfoHash = replicate 20 9, tf_AnnounceList = []\<rparr>, cf_peerId = ''SH01-ziYDZM5WilvkDy9'', cf_port = 6881,
     cf_parse = (\<lambda>s. Inl IOError), cf_unmarshal = (\<lambda>r. Inl IOError), cf_savedNumber = 0,
     cf_savedPieces = \<lparr>bf_Length = 1, bf_data = [0]\<rparr>\<rparr>"

definition clock_main :: "connection list \<Rightarrow> (string \<Rightarrow> int option) \<Rightarrow> (string \<times> addr) list \<Rightarrow> main_state" where
  "clock_main peers black ended =
    \<lparr>mn_results = \<lparr>rs_Pieces = [None], rs_PiecesDone = 0, rs_TotalLength = 0, rs_Bitfield = \<lparr>bf_Length = 1, bf_data = [0]\<rparr>\<rparr>,
     mn_comms = \<lparr>cm_Orders = [], cm_Results = [], cm_PeerInterested = [], cm_ConnectionEnded = ended, cm_Uploaded = []\<rparr>,
     mn_conns = \<lparr>cs_peers = peers, cs_blacklist = black\<rparr>, mn_generosity = (\<lambda>x. None), mn_interested = (\<lambda>x. None),
     mn_uploaded = 0, mn_tracker = \<lparr>ti_Tracker = None, ti_Interval = 900, ti_IPs = [[10, 0, 0, 1]], ti_Ports = [6881]\<rparr>,
     mn_saved = False, mn_fs = (\<lambda>n. None)\<rparr>"

definition clock_dial :: dialer where
  "clock_dial ip pt = (if ip = ''10.0.0.1'' then Some (TCPAddr 7 ip 6881) else None)"

abbreviation clock_swarm :: "main_state \<Rightarrow> (side \<times> addr) list \<Rightarrow> swarm" where
  "clock_swarm m pd \<equiv> \<lparr>sw_main = m, sw_pending = pd, sw_sessions = []\<rparr>"

lemmas clock_defs = main_iter_def update_online_def updateOnlineConnections_def forget_ended_def remove_ended_def
  BlacklistAddr_def Remove_def last_index_def swap_delete_def relaunch_def launchClients_def IsOpen_def IsBlacklisted_def connectToPeer_def
  Add_def Add_check_def Add_commit_def save_when_done_def maximumDownloaders_def connectionBlacklistDuration_def
  addr_same_def clock_main_def clock_config_def clock_dial_def

lemma clock_ip: "ip_String [10, 0, 0, 1] = ''10.0.0.1''"
  by code_simp

text \<open>After five seconds the end of the connection is noticed; after thirty nobody is dialled.\<close>

lemma clock_first:
  "main_iter clock_config clock_dial 5000000000 [] LoggingTick
     (clock_main [\<lparr>cn_ip = TCPAddr 3 ''10.0.0.1'' 6881, cn_unchoke = []\<rparr>] (\<lambda>x. None) [(''p'', TCPAddr 3 ''10.0.0.1'' 6881)])
   = Some (Inr (Looping, [], clock_main [] [''10.0.0.1'' \<mapsto> 5000000000] []))"
  by (simp add: clock_defs clock_ip fun_eq_iff Let_def)

lemma clock_quiet:
  "main_iter clock_config clock_dial 30000000000 [] LoggingTick (clock_main [] [''10.0.0.1'' \<mapsto> 5000000000] [])
   = Some (Inr (Looping, [], clock_main [] [''10.0.0.1'' \<mapsto> 5000000000] []))"
  by (simp add: clock_defs clock_ip)

lemma clock_again:
  "main_iter clock_config clock_dial 70000000000 [] LoggingTick (clock_main [] [''10.0.0.1'' \<mapsto> 5000000000] [])
   = Some (Inr (Looping, [TCPAddr 7 ''10.0.0.1'' 6881],
       clock_main [\<lparr>cn_ip = TCPAddr 7 ''10.0.0.1'' 6881, cn_unchoke = []\<rparr>] (\<lambda>x. None) []))"
  by (simp add: clock_defs clock_ip fun_eq_iff Let_def)


lemma clock_fresh: "\<forall>p \<in> set (cs_peers (mn_conns m)). addr_ref (cn_ip p) = 3 \<Longrightarrow> dial_fresh clock_dial (mn_conns m)"
  by (auto simp: dial_fresh_def clock_dial_def is_tcp_def addr_ip_def fresh_addr_def split: if_splits)

lemma clock_run:
  "timed_run sha1 clock_config (5000000000, launchTimers 0 10 900 1, clock_swarm (clock_main [] [''10.0.0.1'' \<mapsto> 5000000000] []) [])
    [(30000000000, LoggingTick, []), (70000000000, LoggingTick, [TCPAddr 7 ''10.0.0.1'' 6881])]
    (70000000000, tick_taken LoggingTick 70000000000 (tick_taken LoggingTick 30000000000 (launchTimers 0 10 900 1)),
      clock_swarm (clock_main [\<lparr>cn_ip = TCPAddr 7 ''10.0.0.1'' 6881, cn_unchoke = []\<rparr>] (\<lambda>x. None) [])
        [(Leech, TCPAddr 7 ''10.0.0.1'' 6881)])"
proof -
  let ?m = "clock_main [] [''10.0.0.1'' \<mapsto> 5000000000] []"
  have fresh: "dial_fresh clock_dial (mn_conns ?m)" by (rule clock_fresh) (simp add: clock_main_def)
  note r1 = round_main [OF _ fresh clock_quiet, of "[]" "[]"] and r2 = round_main [OF _ fresh clock_again, of "[]" "[]"]
  have s: "seconds 1 = 1000000000" by (simp add: seconds_small)
  from timed_main [OF timed_start [of sha1 clock_config "(5000000000, launchTimers 0 10 900 1, clock_swarm ?m [])"] _ _ r1] have "timed_run sha1 clock_config (5000000000, launchTimers 0 10 900 1, clock_swarm ?m [])
    ([] @ [(30000000000, LoggingTick, [])]) (30000000000, tick_taken LoggingTick 30000000000 (launchTimers 0 10 900 1), clock_swarm ?m [])"
    by (simp add: launchTimers_def timer_ready_def s)
  from timed_main [OF this _ _ r2] show ?thesis
    by (simp add: launchTimers_def timer_ready_def s)
qed

section \<open>Properties\<close>

text \<open>C10: An ended peer is left alone. When a round of the main goroutine at time \<open>t0\<close> deals with the end of
  a connection to some IP, then this round and every later one up to a minute after \<open>t0\<close> starts no
  leech on an address with this IP, whatever the tracker names and whatever happens in between.\<close>

theorem ended_peer_not_redialled:
  assumes "main_round cf t0 ev as w0 w1" and "(ident, a) \<in> set (cm_ConnectionEnded (mn_comms (sw_main w0)))" and "is_tcp a"
    and "timed_run sha1 cf (t0, ts, w1) tr x"
  shows "addr_ip a \<notin> addr_ip ` set as
    \<and> (\<forall>(now, ev, bs) \<in> set tr. now \<le> t0 + 60000000000 \<longrightarrow> addr_ip a \<notin> addr_ip ` set bs)"
proof -
  have "ended_ip (addr_ip a) (sw_main w0)" using assms(2,3) by (auto simp: ended_ip_def)
  with main_round_quiet [OF assms(1), of t0 "addr_ip a"]
  have "quiet (addr_ip a) t0 (mn_conns (sw_main w1)) \<and> addr_ip a \<notin> addr_ip ` set as"
    by (simp add: connectionBlacklistDuration_def)
  with timed_run_quiet(1) [OF assms(4), of "addr_ip a" t0] show ?thesis
    by (simp add: connectionBlacklistDuration_def)
qed

theorem ended_peer_not_redialled_witness:
  "let tr = [(30000000000, LoggingTick, []), (70000000000, LoggingTick, [TCPAddr 7 ''10.0.0.1'' 6881])]
   in (\<exists>w1 x. timed_run (\<lambda>bs. bs) clock_config (5000000000, launchTimers 0 10 900 1, w1) tr x)
     \<and> (\<forall>(now, ev, bs) \<in> set tr. now \<le> 65000000000 \<longrightarrow> ''10.0.0.1'' \<notin> addr_ip ` set bs)"
proof -
  let ?a = "TCPAddr 3 ''10.0.0.1'' 6881"
  let ?m = "clock_main [\<lparr>cn_ip = ?a, cn_unchoke = []\<rparr>] (\<lambda>x. None) [(''p'', ?a)]"
  have "dial_fresh clock_dial (mn_conns ?m)" by (rule clock_fresh) (simp add: clock_main_def)
  note r = round_main [OF _ this clock_first, of "[]" "[]", simplified]
  have "(''p'', ?a) \<in> set (cm_ConnectionEnded (mn_comms (sw_main (clock_swarm ?m []))))" by (simp add: clock_main_def)
  from ended_peer_not_redialled [OF r this _ clock_run] clock_run [of "\<lambda>bs. bs"] show ?thesis
    by (auto simp: is_tcp_def addr_ip_def Let_def)
qed



end
