(* ===== verification/Verify_Parts.thy ===== *)
theory Verify_Parts
  imports Main_Client
begin

text \<open>
  \<open>cmd/verify_parts/main.go\<close>: a command that checks the part files of a torrent and writes
  \<open>bitfield.txt\<close>, one line per piece. It repeats the loop of \<open>loadPiecesFromPartialFiles\<close>;
  the theory proves that the two agree on every disk.
\<close>

section \<open>The command\<close>

record vp_state =
  vp_numberOfPieces :: int
  vp_results :: "piece option list"
  vp_bitfield :: bitfield

text \<open>\<open>log.Fatalf\<close> ends the command, like a panic: the left summand.\<close>

fun vp_pieces :: "(byte list \<Rightarrow> hash) \<Rightarrow> torrent_file \<Rightarrow> piece list \<Rightarrow> vp_state \<Rightarrow> vp_state result" where
  "vp_pieces sha1 t [] v = Inr v"
| "vp_pieces sha1 t (p # ps) v = (case go_index (tf_PieceHashes t) (pc_Index p) of
     Inl e \<Rightarrow> Inl e
   | Inr h \<Rightarrow>
       if sha1 (pc_Data p) \<noteq> h then Inl (Errorf ''hash mismatch for piece'')
       else (case go_index (vp_results v) (pc_Index p) of
         Inl e \<Rightarrow> Inl e
       | Inr old \<Rightarrow> (case bf_Set (vp_bitfield v) (pc_Index p) True of
           Inl e \<Rightarrow> Inl (rewrap ''error setting true for bit'' e)
         | Inr b \<Rightarrow> vp_pieces sha1 t ps
             \<lparr>vp_numberOfPieces = vp_numberOfPieces v + 1,
              vp_results = (vp_results v)[nat (pc_Index p) := Some p], vp_bitfield = b\<rparr>)))"

fun vp_parts :: "(byte list \<Rightarrow> hash) \<Rightarrow> torrent_file \<Rightarrow> fs \<Rightarrow> nat \<Rightarrow> nat \<Rightarrow> vp_state \<Rightarrow> vp_state result" where
  "vp_parts sha1 t fs 0 i v = Inr v"
| "vp_parts sha1 t fs (Suc n) i v = (case part_name t i of
     Inl e \<Rightarrow> Inl e
   | Inr name \<Rightarrow>
       if \<not> os_Stat fs name then vp_parts sha1 t fs n (Suc i) v
       else (case os_Open fs name of
         Inl e \<Rightarrow> Inl (Errorf ''cannot open file'')
       | Inr r \<Rightarrow> (case ReadPartialFile r (vp_bitfield v) of
           (Inl e, b, r1) \<Rightarrow> Inl (rewrap ''error while reading partial file'' e)
         | (Inr ps, b, r1) \<Rightarrow>
             bind_result (vp_pieces sha1 t ps (v\<lparr>vp_bitfield := b\<rparr>)) (vp_parts sha1 t fs n (Suc i)))))"

definition vp_start :: "torrent_file \<Rightarrow> vp_state result" where
  "vp_start t = bind_result (bf_New (num_hashes t)) (\<lambda>b.
     Inr \<lparr>vp_numberOfPieces = 0, vp_results = replicate (length (tf_PieceHashes t)) None, vp_bitfield = b\<rparr>)"

definition vp_load :: "(byte list \<Rightarrow> hash) \<Rightarrow> torrent_file \<Rightarrow> fs \<Rightarrow> vp_state result" where
  "vp_load sha1 t fs = bind_result (vp_start t) (vp_parts sha1 t fs (fileNumber t) 0)"

text \<open>The lines of \<open>bitfield.txt\<close>; what \<open>WriteString\<close> returns is not looked at.\<close>

fun vp_lines :: "bitfield \<Rightarrow> nat list \<Rightarrow> wstream \<Rightarrow> unit result \<times> wstream" where
  "vp_lines b [] w = (Inr (), w)"
| "vp_lines b (i # is) w = (case bf_Get b (int i) of
     Inl e \<Rightarrow> (Inl (rewrap ''error getting bitfield result'' e), w)
   | Inr r \<Rightarrow> vp_lines b is (snd (w_write (if r then bytes_of_string ''1\<newline>'' else bytes_of_string ''0\<newline>'') w)))"

definition verify_parts ::
    "(reader \<Rightarrow> bitTorrentFile result) \<Rightarrow> (bitTorrentInfo \<Rightarrow> byte list result) \<Rightarrow> (byte list \<Rightarrow> hash)
      \<Rightarrow> (nat \<Rightarrow> nat \<Rightarrow> nat list) \<Rightarrow> string list \<Rightarrow> nat option list \<Rightarrow> fs \<Rightarrow> unit result \<times> fs" where
  "verify_parts unmarshal marshal sha1 perm args script fs =
     (if length args \<noteq> 2 then (Inl (Errorf ''invalid number of arguments''), fs)
      else case open_torrent unmarshal marshal sha1 perm fs (args ! 1) of
        Inl e \<Rightarrow> (Inl e, fs)
      | Inr t \<Rightarrow> (case vp_load sha1 t fs of
          Inl e \<Rightarrow> (Inl e, fs)
        | Inr v \<Rightarrow> (case os_Create fs ''bitfield.txt'' script of
            (Inl e, fs1) \<Rightarrow> (Inl (Errorf ''cannot open bitfield.txt for writing''), fs1)
          | (Inr w, fs1) \<Rightarrow> (case vp_lines (vp_bitfield v) [0..<length (tf_PieceHashes t)] w of
              (r, w1) \<Rightarrow> (r, fs1(''bitfield.txt'' \<mapsto> File (w_out w1)))))))"

section \<open>Agreement with the client\<close>

text \<open>The state of the command that corresponds to the client's results.\<close>

definition vp_of :: "results \<Rightarrow> vp_state" where
  "vp_of res = \<lparr>vp_numberOfPieces = rs_PiecesDone res, vp_results = rs_Pieces res, vp_bitfield = rs_Bitfield res\<rparr>"

definition vp_result :: "go_error option \<times> results \<Rightarrow> vp_state result" where
  "vp_result x = (case x of (None, res) \<Rightarrow> Inr (vp_of res) | (Some e, res) \<Rightarrow> Inl e)"

lemma vp_pieces_agree: "vp_pieces sha1 t ps (vp_of res) = vp_result (load_pieces sha1 t ps res)"
proof (induction ps arbitrary: res)
  case (Cons p ps)
  have step: "vp_pieces sha1 t ps \<lparr>vp_numberOfPieces = rs_PiecesDone res + 1,
      vp_results = (rs_Pieces res)[nat (pc_Index p) := Some p], vp_bitfield = b\<rparr>
    = vp_result (load_pieces sha1 t ps (res\<lparr>rs_Pieces := (rs_Pieces res)[nat (pc_Index p) := Some p],
        rs_PiecesDone := rs_PiecesDone res + 1, rs_TotalLength := rs_TotalLength res + pc_Length p, rs_Bitfield := b\<rparr>))"
    for b
    using Cons.IH [of "res\<lparr>rs_Pieces := (rs_Pieces res)[nat (pc_Index p) := Some p],
        rs_PiecesDone := rs_PiecesDone res + 1, rs_TotalLength := rs_TotalLength res + pc_Length p, rs_Bitfield := b\<rparr>"]
    by (simp add: vp_of_def)
  show ?case
    using step by (simp add: vp_of_def vp_result_def Let_def split: sum.split)
qed (simp add: vp_result_def)

lemma vp_parts_agree: "vp_parts sha1 t fs n i (vp_of res) = vp_result (load_parts sha1 t fs n i res)"
proof (induction n arbitrary: i res)
  case (Suc n)
  have bits: "(vp_of res)\<lparr>vp_bitfield := b\<rparr> = vp_of (res\<lparr>rs_Bitfield := b\<rparr>)" "vp_bitfield (vp_of res) = rs_Bitfield res"
    for b by (simp_all add: vp_of_def)
  have rest: "bind_result (vp_result x) (vp_parts sha1 t fs n (Suc i))
      = vp_result (case x of (Some e, res1) \<Rightarrow> (Some e, res1) | (None, res1) \<Rightarrow> load_parts sha1 t fs n (Suc i) res1)" for x
    by (cases x rule: prod.exhaust) (simp add: vp_result_def [of "(_, _)"] Suc.IH split: option.split)
  show ?case
    by (simp add: bits vp_pieces_agree rest Suc.IH split: sum.split prod.split) (simp add: vp_result_def)
qed (simp add: vp_result_def)

lemma vp_load_agrees:
  assumes "results_start t = Inr res0"
  shows "vp_load sha1 t fs = vp_result (loadPiecesFromPartialFiles sha1 t fs res0)"
proof -
  have "vp_start t = Inr (vp_of (res0\<lparr>rs_PiecesDone := 0\<rparr>))"
    using assms by (auto simp: results_start_def vp_start_def vp_of_def)
  then show ?thesis
    by (simp add: vp_load_def loadPiecesFromPartialFiles_def vp_parts_agree)
qed

lemma vp_lines_spec:
  assumes "bf_wf b" and "w_reliable w" and "\<forall>i \<in> set is. int i < bf_Length b"
  shows "vp_lines b is w = (Inr (), w\<lparr>w_out := w_out w
    @ concat (map (\<lambda>i. if int i \<in> bf_members b then [49, 10] else [48, 10]) is)\<rparr>)"
  using assms(2,3)
proof (induction "is" arbitrary: w)
  case (Cons i "is")
  have "bytes_of_string ''1\<newline>'' = [49, 10]" "bytes_of_string ''0\<newline>'' = [48, 10]" by code_simp+
  with Cons assms(1) show ?case by (simp add: bf_Get_in)
qed simp

end
