(* ===== verification/Peer_Connect.thy ===== *)
theory Peer_Connect
  imports Peer_Protocol Random_Ids Torrent_Decode
begin

text \<open>
  \<open>cmd/peerconnect/main.go\<close>: a command that connects to one peer and downloads the first ten
  pieces from it. Errors of \<open>conn.Write\<close> are not looked at. The loops that wait for messages end
  when the peer's stream does. \<open>main\<close> itself dials a fixed address and reads a fixed file:
  the connection and the torrent are arguments here.
\<close>

definition TargetPort :: int where "TargetPort = 6881"
definition ChunkSize :: int where "ChunkSize = 16384"

section \<open>Sending and receiving\<close>

definition sendMessage :: "byte \<Rightarrow> byte list \<Rightarrow> wstream \<Rightarrow> wstream" where
  "sendMessage code d w = (case SerializeMessage \<lparr>pm_KeepAlive = False, pm_Code = code, pm_Data = d\<rparr> of
     Inl e \<Rightarrow> w
   | Inr msgData \<Rightarrow> snd (w_write msgData w))"

section \<open>One piece\<close>

text \<open>The inner loop: requests until five are outstanding or the piece is asked for.\<close>

function send_requests :: "int \<Rightarrow> int \<Rightarrow> int \<Rightarrow> int \<Rightarrow> wstream \<Rightarrow> (int \<times> int \<times> wstream) result" where
  "send_requests pieceIndex pieceLength pieceNextRequest numberOfRequests w =
     (if numberOfRequests < 5 \<and> pieceNextRequest < pieceLength
      then let len = min ChunkSize (pieceLength - pieceNextRequest) in
        (case SerializeMessage (SerializeRequestMsg \<lparr>pm_KeepAlive = False, pm_Code = MsgRequest, pm_Data = []\<rparr>
            pieceIndex pieceNextRequest len) of
          Inl e \<Rightarrow> Inl (rewrap ''failed to serialize bitfield'' e)
        | Inr msgData \<Rightarrow> send_requests pieceIndex pieceLength (pieceNextRequest + len) (numberOfRequests + 1)
            (snd (w_write msgData w)))
      else Inr (pieceNextRequest, numberOfRequests, w))"
  by pat_completeness auto
termination
  by (relation "measure (\<lambda>(i, l, n, k, w). nat (l - n))") (auto simp: ChunkSize_def)

declare send_requests.simps [simp del]

text \<open>The outer loop. The index of a \<open>piece\<close> message is not compared with the piece asked for.\<close>

function piece_loop ::
    "int \<Rightarrow> int \<Rightarrow> byte list \<Rightarrow> int \<Rightarrow> int \<Rightarrow> reader \<Rightarrow> wstream \<Rightarrow> byte list result \<times> reader \<times> wstream" where
  "piece_loop pieceIndex pieceLength pieceData pieceNextRequest numberOfRequests r w =
     (case send_requests pieceIndex pieceLength pieceNextRequest numberOfRequests w of
        Inl e \<Rightarrow> (Inl e, r, w)
      | Inr (next1, num1, w1) \<Rightarrow> (case DeserializeMessage r of
          (Inl e, r1) \<Rightarrow> (Inl (rewrap ''error while receiving message'' e), r1, w1)
        | (Inr msg, r1) \<Rightarrow>
            if pm_Code msg = MsgPiece
            then (case DeserializePieceMsg msg of
                Inl e \<Rightarrow> (Inl (rewrap ''error while receiving piece message'' e), r1, w1)
              | Inr (index, begin, d) \<Rightarrow>
                  if begin > int (length pieceData) then (Inl (Panic SliceBounds), r1, w1)
                  else let data1 = go_copy_at pieceData (nat begin) d in
                    if next1 \<ge> pieceLength \<and> num1 - 1 = 0 then (Inr data1, r1, w1)
                    else piece_loop pieceIndex pieceLength data1 next1 (num1 - 1) r1 w1)
            else if next1 \<ge> pieceLength \<and> num1 = 0 then (Inr pieceData, r1, w1)
            else piece_loop pieceIndex pieceLength pieceData next1 num1 r1 w1))"
  by pat_completeness auto
termination
  by (relation "measure (\<lambda>(i, l, d, n, k, r, w). length (rd_data r))")
     (auto dest!: sym [THEN DeserializeMessage_consumes])

declare piece_loop.simps [simp del]

text \<open>A piece whose hash differs is only logged.\<close>

definition requestPiece ::
    "(byte list \<Rightarrow> hash) \<Rightarrow> torrent_file \<Rightarrow> int \<Rightarrow> conn \<Rightarrow> unit result \<times> conn" where
  "requestPiece sha1 t pieceIndex c = (case go_make (tf_PieceLength t) 0 of
     Inl e \<Rightarrow> (Inl e, c)
   | Inr pieceData \<Rightarrow> (case piece_loop pieceIndex (tf_PieceLength t) pieceData 0 0 (c_rd c) (c_wr c) of
       (Inl e, r, w) \<Rightarrow> (Inl e, c\<lparr>c_rd := r, c_wr := w\<rparr>)
     | (Inr d, r, w) \<Rightarrow> (let c1 = c\<lparr>c_rd := r, c_wr := w\<rparr> in
         (case go_index (tf_PieceHashes t) pieceIndex of
            Inl e \<Rightarrow> (Inl e, c1)
          | Inr h \<Rightarrow>
              if sha1 d \<noteq> h then (Inr (), c1)
              else (case SerializeMessage \<lparr>pm_KeepAlive = False, pm_Code = MsgHave,
                       pm_Data = be_put32 (uint32_of pieceIndex)\<rparr> of
                  Inl e \<Rightarrow> (Inl (rewrap ''failed to serialize bitfield'' e), c1)
                | Inr msgData \<Rightarrow> (Inr (), c1\<lparr>c_wr := snd (w_write msgData w)\<rparr>))))))"

section \<open>The session\<close>

function wait_for_unchoke :: "reader \<Rightarrow> unit result \<times> reader" where
  "wait_for_unchoke r = (case DeserializeMessage r of
     (Inl e, r1) \<Rightarrow> (Inl e, r1)
   | (Inr msg, r1) \<Rightarrow> if pm_Code msg = MsgUnchoke then (Inr (), r1) else wait_for_unchoke r1)"
  by pat_completeness auto
termination
  by (relation "measure (\<lambda>r. length (rd_data r))") (auto dest!: sym [THEN DeserializeMessage_consumes])

declare wait_for_unchoke.simps [simp del]

fun request_pieces :: "(byte list \<Rightarrow> hash) \<Rightarrow> torrent_file \<Rightarrow> nat list \<Rightarrow> conn \<Rightarrow> unit result \<times> conn" where
  "request_pieces sha1 t [] c = (Inr (), c)"
| "request_pieces sha1 t (i # is) c = (case requestPiece sha1 t (int i) c of
     (Inl e, c1) \<Rightarrow> (Inl e, c1)
   | (Inr u, c1) \<Rightarrow> request_pieces sha1 t is c1)"

definition actAsLeech :: "(byte list \<Rightarrow> hash) \<Rightarrow> torrent_file \<Rightarrow> conn \<Rightarrow> unit result \<times> conn" where
  "actAsLeech sha1 t c =
     (let c1 = c\<lparr>c_wr := sendMessage MsgInterested [] (c_wr c)\<rparr> in
      (case wait_for_unchoke (c_rd c1) of
         (Inl e, r) \<Rightarrow> (Inl e, c1\<lparr>c_rd := r\<rparr>)
       | (Inr u, r) \<Rightarrow> (case request_pieces sha1 t [0..<10] (c1\<lparr>c_rd := r\<rparr>) of
           (Inl e, c2) \<Rightarrow> (Inl e, c2)
         | (Inr u, c2) \<Rightarrow> (Inr (), c2\<lparr>c_wr := sendMessage MsgNotInterested [] (c_wr c2)\<rparr>))))"

text \<open>
  \<open>actAsSeed\<close> and \<open>loopSend\<close>, which \<open>main\<close> does not call. \<open>receiveMessage\<close> only logs; \<open>None\<close> means
  that the loop never ends.
\<close>

definition receiveMessage :: "reader \<Rightarrow> unit result \<times> reader" where
  "receiveMessage r = (case DeserializeMessage r of
     (Inl e, r1) \<Rightarrow> (if is_panic e then Inl e else Inr (), r1)
   | (Inr msg, r1) \<Rightarrow>
       if pm_Code msg = MsgRequest
       then (case DeserializeRequestMsg msg of
           Inl e \<Rightarrow> (if is_panic e then Inl e else Inr (), r1)
         | Inr rq \<Rightarrow> (Inr (), r1))
       else (Inr (), r1))"

partial_function (option) seed_loop :: "reader \<Rightarrow> unit result option" where
  "seed_loop r = (case receiveMessage r of
     (Inl e, r1) \<Rightarrow> Some (Inl e)
   | (Inr u, r1) \<Rightarrow> seed_loop r1)"

definition actAsSeed :: "conn \<Rightarrow> unit result option" where
  "actAsSeed c = (case receiveMessage (c_rd c) of
     (Inl e, r) \<Rightarrow> Some (Inl e)
   | (Inr u, r) \<Rightarrow> (case SerializeMessage \<lparr>pm_KeepAlive = False, pm_Code = MsgUnchoke, pm_Data = []\<rparr> of
       Inl e \<Rightarrow> Some (Inr ())
     | Inr msgData \<Rightarrow> (let c1 = c\<lparr>c_rd := r, c_wr := snd (w_write msgData (c_wr c))\<rparr> in seed_loop (c_rd c1))))"

partial_function (option) loopSend :: "wstream \<Rightarrow> unit option" where
  "loopSend w = (case SerializeMessage \<lparr>pm_KeepAlive = False, pm_Code = MsgUnchoke, pm_Data = []\<rparr> of
     Inl e \<Rightarrow> Some ()
   | Inr msgData \<Rightarrow> loopSend (snd (w_write msgData w)))"

text \<open>\<open>main\<close> after the file is open: the handshake with an empty bit field, then the leech.\<close>

definition peerconnect_main ::
    "(reader \<Rightarrow> bitTorrentFile result) \<Rightarrow> (bitTorrentInfo \<Rightarrow> byte list result) \<Rightarrow> (byte list \<Rightarrow> hash)
      \<Rightarrow> (nat \<Rightarrow> nat \<Rightarrow> nat list) \<Rightarrow> (nat \<Rightarrow> nat \<Rightarrow> nat) \<Rightarrow> reader result \<Rightarrow> conn option \<Rightarrow> unit result" where
  "peerconnect_main unmarshal marshal sha1 perm randIntn torrentFile dialled =
     bind_result (MakePeerId randIntn) (\<lambda>peerId. (case torrentFile of
       Inl e \<Rightarrow> Inl (Errorf ''error opening torrent file'')
     | Inr file \<Rightarrow> (case DecodeTorrentFile unmarshal marshal sha1 perm file of
         Inl e \<Rightarrow> Inl (rewrap ''error decoding torrent file'' e)
       | Inr t \<Rightarrow> (case dialled of
           None \<Rightarrow> Inl (Errorf ''connection failed'')
         | Some c \<Rightarrow> bind_result (bf_New (num_hashes t)) (\<lambda>b.
             (case InitiateConnection c t \<lparr>rs_Pieces = replicate (length (tf_PieceHashes t)) None, rs_PiecesDone = 0,
                 rs_TotalLength = 0, rs_Bitfield = b\<rparr> peerId of
                (Inl e, c1) \<Rightarrow> Inl (rewrap ''handshake failed'' e)
              | (Inr p, c1) \<Rightarrow> (case actAsLeech sha1 t c1 of
                  (Inl e, c2) \<Rightarrow> if is_panic e then Inl e else Inr ()
                | (Inr u, c2) \<Rightarrow> Inr ())))))))"

section \<open>Lemmas\<close>

text \<open>The requests stay on the chunk grid, and no more than five are outstanding.\<close>

lemma send_requests_spec:
  assumes "0 \<le> pos" and "num \<le> 5"
  shows "\<exists>pos' num' w'. send_requests i len pos num w = Inr (pos', num', w') \<and> pos \<le> pos' \<and> num \<le> num' \<and> num' \<le> 5
    \<and> (pos \<le> len \<longrightarrow> pos' \<le> len) \<and> (num' < 5 \<longrightarrow> len \<le> pos')"
  using assms
proof (induction "nat (len - pos)" arbitrary: pos num w rule: less_induct)
  case less
  show ?case
  proof (cases "num < 5 \<and> pos < len")
    case False
    with less.prems show ?thesis by (subst send_requests.simps) auto
  next
    case True
    let ?n = "min ChunkSize (len - pos)"
    have n: "0 < ?n" "?n \<le> len - pos" using True by (auto simp: ChunkSize_def)
    obtain bs where bs: "SerializeMessage (SerializeRequestMsg \<lparr>pm_KeepAlive = False, pm_Code = MsgRequest, pm_Data = []\<rparr> i pos ?n) = Inr bs"
      using SerializeMessage_frame by (simp add: SerializeRequestMsg_def message_ok_def)
    have "nat (len - (pos + ?n)) < nat (len - pos)" using n True by linarith
    from less.hyps [OF this, of "num + 1" "snd (w_write bs w)"] less.prems n True obtain pos' num' w' where
      "send_requests i len (pos + ?n) (num + 1) (snd (w_write bs w)) = Inr (pos', num', w')"
      "pos + ?n \<le> pos'" "num + 1 \<le> num'" "num' \<le> 5" "pos' \<le> len" "num' < 5 \<longrightarrow> len \<le> pos'" by auto
    moreover from this have "pos \<le> pos'" using n by linarith
    ultimately show ?thesis using True bs by (subst send_requests.simps) (simp add: Let_def)
  qed
qed

text \<open>\<open>receiveMessage\<close> accepts everything, the end of the stream too: the seed loop never ends.\<close>

lemma receiveMessage_accepts: "fst (receiveMessage r) = Inr ()"
proof -
  have "\<not> is_panic e" if "DeserializeMessage r = (Inl e, r1)" for e r1
    using that DeserializeMessage_no_panic [of r] by simp
  moreover have "\<not> is_panic e" if "DeserializeRequestMsg m = Inl e" for e m
    using that DeserializeRequestMsg_total(1) by blast
  ultimately show ?thesis
    by (auto simp: receiveMessage_def split: prod.split sum.split)
qed

lemma seed_loop_never_returns: "seed_loop r = None"
proof -
  have False if "seed_loop r = Some x" for x
  proof (rule seed_loop.raw_induct [where P = "\<lambda>r x. False", OF _ that])
    fix f :: "reader \<Rightarrow> unit result option" and r y
    assume "\<And>r y. f r = Some y \<Longrightarrow> False"
      and "(case receiveMessage r of (Inl e, r1) \<Rightarrow> Some (Inl e) | (Inr u, r1) \<Rightarrow> f r1) = Some y"
    with receiveMessage_accepts [of r] show False by (auto split: prod.splits)
  qed
  then show ?thesis by (cases "seed_loop r") auto
qed

lemma actAsSeed_never_returns: "actAsSeed c = None"
proof -
  have "SerializeMessage \<lparr>pm_KeepAlive = False, pm_Code = MsgUnchoke, pm_Data = []\<rparr>
      = Inr (message_frame \<lparr>pm_KeepAlive = False, pm_Code = MsgUnchoke, pm_Data = []\<rparr>)"
    by (rule SerializeMessage_frame) (simp_all add: message_ok_def)
  with receiveMessage_accepts [of "c_rd c"] show ?thesis
    by (auto simp: actAsSeed_def Let_def seed_loop_never_returns split: prod.split sum.split)
qed

text \<open>A torrent of fewer than ten pieces makes the command panic once its last piece is there.\<close>

lemma requestPiece_beyond:
  assumes "0 \<le> tf_PieceLength t" and "num_hashes t \<le> i"
    and "piece_loop i (tf_PieceLength t) (replicate (nat (tf_PieceLength t)) 0) 0 0 (c_rd c) (c_wr c) = (Inr d, r, w)"
  shows "fst (requestPiece sha1 t i c) = Inl (Panic IndexOutOfRange)"
  using assms by (simp add: requestPiece_def Let_def go_index_def)

end
