(* ===== verification/Tool_Download.thy ===== *)
theory Tool_Download
  imports Peer_Connect Session_Honest
begin

text \<open>
  A download by the command \<open>peerconnect\<close> from a peer that sends the blocks of the piece, in any
  order and between other messages. The lemmas: what the loop writes is the request of every block
  in ascending order, whatever comes back; it ends with the message that brings the last block; a
  buffer into which all blocks were copied is the piece.
\<close>

section \<open>The requests\<close>

definition request_frame :: "int \<Rightarrow> int \<Rightarrow> int \<Rightarrow> byte list" where
  "request_frame i len start = message_frame (request_message
     \<lparr>rq_index = i, rq_start = start, rq_length = min ChunkSize (len - start)\<rparr>)"

text \<open>The requests of the blocks from a position on.\<close>

definition requests_from :: "int \<Rightarrow> int \<Rightarrow> int \<Rightarrow> byte list" where
  "requests_from i len pos =
     concat (map (\<lambda>k. request_frame i len (pos + int k * ChunkSize)) [0..<blocks_of (len - pos)])"

lemma requests_from_end [simp]: "len \<le> pos \<Longrightarrow> requests_from i len pos = []"
  by (simp add: requests_from_def)

lemma requests_from_step:
  assumes "pos < len"
  shows "requests_from i len pos = request_frame i len pos @ requests_from i len (pos + min ChunkSize (len - pos))"
proof (cases "len - pos \<le> ChunkSize")
  case True
  then have "blocks_of (len - pos) = 1"
    using assms blocks_of_step [of "len - pos"] by (simp add: chunkSize_def ChunkSize_def)
  with True assms show ?thesis by (simp add: requests_from_def min_def)
next
  case False
  have shift: "(\<lambda>k. request_frame i len (pos + int k * ChunkSize)) \<circ> Suc
      = (\<lambda>k. request_frame i len (pos + ChunkSize + int k * ChunkSize))"
    by (rule ext) (simp add: algebra_simps)
  have "blocks_of (len - pos) = Suc (blocks_of (len - (pos + ChunkSize)))"
    using assms blocks_of_step [of "len - pos"] by (simp add: chunkSize_def ChunkSize_def algebra_simps)
  with False show ?thesis
    by (simp add: requests_from_def upt_conv_Cons map_Suc_upt [symmetric] shift [symmetric] del: upt_Suc)
qed

lemma send_requests_reliable:
  assumes "0 \<le> pos" "pos \<le> len" and "0 \<le> num" "num \<le> 5" and "w_reliable w"
  obtains pos' num' out where
    "send_requests i len pos num w = Inr (pos', num', w\<lparr>w_out := w_out w @ out\<rparr>)"
    "requests_from i len pos = out @ requests_from i len pos'"
    "num' + int (blocks_of (len - pos')) = num + int (blocks_of (len - pos))"
    "0 \<le> pos'" "pos' \<le> len" "0 \<le> num'" "num' \<le> 5" "num' < 5 \<longrightarrow> pos' = len"
proof -
  have "\<exists>pos' num' out. send_requests i len pos num w = Inr (pos', num', w\<lparr>w_out := w_out w @ out\<rparr>)
    \<and> requests_from i len pos = out @ requests_from i len pos'
    \<and> num' + int (blocks_of (len - pos')) = num + int (blocks_of (len - pos))
    \<and> 0 \<le> pos' \<and> pos' \<le> len \<and> 0 \<le> num' \<and> num' \<le> 5 \<and> (num' < 5 \<longrightarrow> pos' = len)"
    using assms
  proof (induction "nat (len - pos)" arbitrary: pos num w rule: less_induct)
    case less
    show ?case
    proof (cases "num < 5 \<and> pos < len")
      case False
      with less.prems have "send_requests i len pos num w = Inr (pos, num, w\<lparr>w_out := w_out w @ []\<rparr>)"
        by (subst send_requests.simps) auto
      with False less.prems show ?thesis by (intro exI [of _ pos] exI [of _ num] exI [of _ "[]"]) auto
    next
      case True
      let ?n = "min ChunkSize (len - pos)" and ?w = "w\<lparr>w_out := w_out w @ request_frame i len pos\<rparr>"
      have n: "0 < ?n" "?n \<le> len - pos" using True by (auto simp: ChunkSize_def)
      have "SerializeMessage (SerializeRequestMsg \<lparr>pm_KeepAlive = False, pm_Code = MsgRequest, pm_Data = []\<rparr> i pos ?n)
          = Inr (request_frame i len pos)"
        using request_message_frame [of "\<lparr>rq_index = i, rq_start = pos, rq_length = ?n\<rparr>"]
        by (simp add: request_message_def request_frame_def)
      then have step: "send_requests i len pos num w = send_requests i len (pos + ?n) (num + 1) ?w"
        using True less.prems(5) by (subst send_requests.simps) (simp add: Let_def)
      have blocks: "int (blocks_of (len - pos)) = 1 + int (blocks_of (len - (pos + ?n)))"
        using True blocks_of_step [of "len - pos"]
        by (cases "len - pos \<le> ChunkSize") (auto simp: chunkSize_def ChunkSize_def algebra_simps)
      have "nat (len - (pos + ?n)) < nat (len - pos)" using n True by linarith
      from less.hyps [OF this, of "num + 1" ?w] less.prems n True obtain pos' num' out where
        "send_requests i len (pos + ?n) (num + 1) ?w = Inr (pos', num', ?w\<lparr>w_out := w_out ?w @ out\<rparr>)"
        "requests_from i len (pos + ?n) = out @ requests_from i len pos'"
        "num' + int (blocks_of (len - pos')) = num + 1 + int (blocks_of (len - (pos + ?n)))"
        "0 \<le> pos'" "pos' \<le> len" "0 \<le> num'" "num' \<le> 5" "num' < 5 \<longrightarrow> pos' = len"
        by auto
      with step blocks requests_from_step [of pos len i] True show ?thesis
        by (intro exI [of _ pos'] exI [of _ num'] exI [of _ "request_frame i len pos @ out"]) simp
    qed
  qed
  then show thesis using that by blast
qed

section \<open>The messages that come back\<close>

text \<open>The block of a piece message; its index is not looked at.\<close>

definition block_of :: "peer_message \<Rightarrow> (int \<times> byte list) option" where
  "block_of m = (case DeserializePieceMsg m of Inl e \<Rightarrow> None | Inr (i, b, d) \<Rightarrow> Some (b, d))"

definition copy_block :: "int \<times> byte list \<Rightarrow> byte list \<Rightarrow> byte list" where
  "copy_block blk buf = go_copy_at buf (nat (fst blk)) (snd blk)"

lemma copy_block_pair: "copy_block (b, d) buf = go_copy_at buf (nat b) d"
  by (simp add: copy_block_def)

lemma length_copy_blocks [simp]: "length (fold copy_block blks buf) = length buf"
  by (induction blks arbitrary: buf) (simp_all add: copy_block_def)

definition answer_ok :: "int \<Rightarrow> peer_message \<Rightarrow> bool" where
  "answer_ok len m \<longleftrightarrow> message_ok m
     \<and> (pm_Code m = MsgPiece \<longrightarrow> (case block_of m of None \<Rightarrow> False | Some (b, d) \<Rightarrow> b \<le> len))"

lemma piece_loop_answers:
  assumes "ms \<noteq> []" and "pm_Code (last ms) = MsgPiece" and "\<forall>m \<in> set ms. answer_ok (int (length buf)) m"
    and "rd_data r = concat (map message_frame ms) @ rest" and "w_reliable w"
    and "0 \<le> pos" "pos \<le> len" and "0 \<le> num" "num \<le> 5"
    and "int (length (filter (\<lambda>m. pm_Code m = MsgPiece) ms)) = num + int (blocks_of (len - pos))"
  shows "\<exists>r'. piece_loop i len buf pos num r w
      = (Inr (fold copy_block (List.map_filter block_of ms) buf), r', w\<lparr>w_out := w_out w @ requests_from i len pos\<rparr>)
    \<and> rd_data r' = rest"
  using assms
proof (induction ms arbitrary: buf pos num r w)
  case (Cons m ms)
  obtain pos' num' out where s:
    "send_requests i len pos num w = Inr (pos', num', w\<lparr>w_out := w_out w @ out\<rparr>)"
    "requests_from i len pos = out @ requests_from i len pos'"
    "num' + int (blocks_of (len - pos')) = num + int (blocks_of (len - pos))"
    "0 \<le> pos'" "pos' \<le> len" "0 \<le> num'" "num' \<le> 5" "num' < 5 \<longrightarrow> pos' = len"
    using send_requests_reliable [of pos len num w i] Cons.prems(5-9) by blast
  let ?w = "w\<lparr>w_out := w_out w @ out\<rparr>"
  have ok: "message_ok m" using Cons.prems(3) by (simp add: answer_ok_def)
  obtain r1 where r1: "DeserializeMessage r = (Inr m, r1)" "rd_data r1 = concat (map message_frame ms) @ rest"
    using DeserializeMessage_frame [OF ok, of r "concat (map message_frame ms) @ rest"] Cons.prems(4) by auto
  have total: "int (length (filter (\<lambda>m. pm_Code m = MsgPiece) (m # ms))) = num' + int (blocks_of (len - pos'))"
    using Cons.prems(10) s(3) by simp
  have nonempty: "filter (\<lambda>m. pm_Code m = MsgPiece) ms \<noteq> []" if "ms \<noteq> []"
    using Cons.prems(2) that last_in_set [OF that] by (auto simp: filter_empty_conv)
  have done_iff: "pos' \<ge> len \<and> k = 0 \<longleftrightarrow> ms = []"
    if "int (length (filter (\<lambda>m. pm_Code m = MsgPiece) ms)) = k + int (blocks_of (len - pos'))" "0 \<le> k" for k
    using that nonempty s(5) blocks_of_step [of "len - pos'"] by (cases "ms = []"; cases "pos' < len") auto
  show ?case
  proof (cases "pm_Code m = MsgPiece")
    case False
    then have ms: "ms \<noteq> []" using Cons.prems(2) by auto
    have cnt: "int (length (filter (\<lambda>m. pm_Code m = MsgPiece) ms)) = num' + int (blocks_of (len - pos'))"
      using total False by simp
    have "DeserializePieceMsg m = Inl (Errorf ''cannot deserialize piece message on a non-piece message'')"
      using False by (simp add: DeserializePieceMsg_def)
    then have "block_of m = None" by (simp add: block_of_def)
    moreover have "piece_loop i len buf pos num r w = piece_loop i len buf pos' num' r1 ?w"
      using s(1) r1(1) False ms done_iff [OF cnt s(6)]
      by (subst piece_loop.simps) auto
    moreover from Cons.IH [OF ms _ _ r1(2), of buf ?w pos' num'] obtain r' where
      "piece_loop i len buf pos' num' r1 ?w = (Inr (fold copy_block (List.map_filter block_of ms) buf), r',
        ?w\<lparr>w_out := w_out ?w @ requests_from i len pos'\<rparr>)" "rd_data r' = rest"
      using Cons.prems ms s cnt by auto
    ultimately show ?thesis using s(2) by (simp add: map_filter_simps)
  next
    case True
    then obtain idx b d where blk: "DeserializePieceMsg m = Inr (idx, b, d)" "b \<le> int (length buf)"
      using Cons.prems(3) by (auto simp: answer_ok_def block_of_def split: sum.splits)
    then have bo: "block_of m = Some (b, d)" by (simp add: block_of_def)
    let ?buf = "go_copy_at buf (nat b) d"
    have cnt: "int (length (filter (\<lambda>m. pm_Code m = MsgPiece) ms)) = num' - 1 + int (blocks_of (len - pos'))"
      using total True by simp
    have "0 < num'" using total True s(5,6,8) by (cases "num' = 0") auto
    then have num: "0 \<le> num' - 1" by simp
    show ?thesis
    proof (cases "ms = []")
      case ms: True
      have "piece_loop i len buf pos num r w = (Inr ?buf, r1, ?w)"
        using s(1) r1(1) True blk ms done_iff [OF cnt num]
        by (subst piece_loop.simps) (simp add: Let_def)
      moreover have "requests_from i len pos' = []" using ms done_iff [OF cnt num] by simp
      ultimately show ?thesis using s(2) r1(2) bo ms by (simp add: map_filter_simps copy_block_def)
    next
      case ms: False
      have "piece_loop i len buf pos num r w = piece_loop i len ?buf pos' (num' - 1) r1 ?w"
        using s(1) r1(1) True blk ms done_iff [OF cnt num]
        by (subst piece_loop.simps) (auto simp: Let_def)
      moreover from Cons.IH [OF ms _ _ r1(2), of ?buf ?w pos' "num' - 1"] obtain r' where
        "piece_loop i len ?buf pos' (num' - 1) r1 ?w = (Inr (fold copy_block (List.map_filter block_of ms) ?buf), r',
          ?w\<lparr>w_out := w_out ?w @ requests_from i len pos'\<rparr>)" "rd_data r' = rest"
        using Cons.prems ms s cnt num by auto
      ultimately show ?thesis using s(2) bo by (simp add: map_filter_simps copy_block_pair)
    qed
  qed
qed simp

section \<open>The blocks of a piece\<close>

definition piece_blocks :: "byte list \<Rightarrow> (int \<times> byte list) list" where
  "piece_blocks P = map (\<lambda>k. (int k * ChunkSize, take (nat ChunkSize) (drop (k * nat ChunkSize) P)))
     [0..<blocks_of (int (length P))]"

definition part_of :: "byte list \<Rightarrow> int \<times> byte list \<Rightarrow> bool" where
  "part_of P blk \<longleftrightarrow> 0 \<le> fst blk \<and> fst blk + int (length (snd blk)) \<le> int (length P)
     \<and> snd blk = take (length (snd blk)) (drop (nat (fst blk)) P)"

definition covers :: "int \<times> byte list \<Rightarrow> nat \<Rightarrow> bool" where
  "covers blk j \<longleftrightarrow> nat (fst blk) \<le> j \<and> j < nat (fst blk) + length (snd blk)"

lemma copy_block_nth:
  assumes "part_of P blk" and "length buf = length P" and "j < length P"
  shows "copy_block blk buf ! j = (if covers blk j then P ! j else buf ! j)"
proof -
  have "nat (fst blk) \<le> length buf" using assms unfolding part_of_def by linarith
  moreover have "snd blk ! (j - nat (fst blk)) = P ! j" if "covers blk j"
  proof -
    have "snd blk ! (j - nat (fst blk)) = take (length (snd blk)) (drop (nat (fst blk)) P) ! (j - nat (fst blk))"
      using assms(1) by (simp add: part_of_def)
    also have "\<dots> = drop (nat (fst blk)) P ! (j - nat (fst blk))"
      using that by (intro nth_take) (auto simp: covers_def)
    also have "\<dots> = P ! j" using that assms by (simp add: covers_def)
    finally show ?thesis .
  qed
  ultimately show ?thesis
    using assms(2,3) nth_go_copy_at [of j buf "nat (fst blk)" "snd blk"] by (auto simp: copy_block_def covers_def)
qed

lemma copy_blocks_nth:
  assumes "\<forall>blk \<in> set blks. part_of P blk" and "length buf = length P" and "j < length P"
  shows "fold copy_block blks buf ! j = (if \<exists>blk \<in> set blks. covers blk j then P ! j else buf ! j)"
  using assms
proof (induction blks arbitrary: buf)
  case (Cons blk blks)
  have "length (copy_block blk buf) = length P" using Cons.prems(2) by (simp add: copy_block_def)
  with Cons show ?case using copy_block_nth [of P blk buf j] by auto
qed simp

lemma blocks_of_le: "int k < int (blocks_of n) \<Longrightarrow> int k * ChunkSize < n"
proof (induction k arbitrary: n)
  case 0
  then show ?case using blocks_of_nonpos [of n] by (cases "n \<le> 0") auto
next
  case (Suc k)
  then have "0 < n" using blocks_of_nonpos [of n] by (cases "n \<le> 0") auto
  then have "int k < int (blocks_of (n - chunkSize))" using Suc.prems blocks_of_step [of n] by simp
  from Suc.IH [OF this] show ?case by (simp add: chunkSize_def ChunkSize_def algebra_simps)
qed

lemma blocks_of_ge: "int k * ChunkSize < n \<Longrightarrow> k < blocks_of n"
proof (induction k arbitrary: n)
  case 0
  then show ?case using blocks_of_step [of n] by simp
next
  case (Suc k)
  then have "0 < n" by (simp add: ChunkSize_def algebra_simps)
  moreover have "k < blocks_of (n - chunkSize)"
    by (rule Suc.IH) (use Suc.prems in \<open>simp add: chunkSize_def ChunkSize_def algebra_simps\<close>)
  ultimately show ?case using blocks_of_step [of n] by simp
qed

lemma piece_blocks_parts:
  assumes "blk \<in> set (piece_blocks P)"
  shows "part_of P blk" and "fst blk \<le> int (length P)"
proof -
  obtain k where k: "k < blocks_of (int (length P))"
    "blk = (int k * ChunkSize, take (nat ChunkSize) (drop (k * nat ChunkSize) P))"
    using assms by (auto simp: piece_blocks_def)
  have "int k * ChunkSize < int (length P)" using blocks_of_le [of k "int (length P)"] k(1) by simp
  moreover have "nat (int k * ChunkSize) = k * nat ChunkSize" by (simp add: nat_mult_distrib ChunkSize_def)
  ultimately show "part_of P blk" and "fst blk \<le> int (length P)"
    using k(2) by (auto simp: part_of_def ChunkSize_def min_def)
qed

lemma piece_blocks_cover:
  assumes "j < length P"
  shows "\<exists>blk \<in> set (piece_blocks P). covers blk j"
proof -
  let ?k = "j div nat ChunkSize" and ?C = "nat ChunkSize"
  have j: "?k * ?C \<le> j" "j < ?k * ?C + ?C"
    using div_mult_mod_eq [of j ?C] mod_less_divisor [of ?C j] by (simp_all add: ChunkSize_def)
  have "int ?k * ChunkSize < int (length P)" using j(1) assms by (simp add: ChunkSize_def)
  then have "?k < blocks_of (int (length P))" by (rule blocks_of_ge)
  moreover have "nat (int ?k * ChunkSize) = ?k * ?C" by (simp add: nat_mult_distrib ChunkSize_def)
  moreover have "j < ?k * ?C + min ?C (length P - ?k * ?C)" using j assms by linarith
  ultimately show ?thesis
    using j(1) by (intro bexI [of _ "(int ?k * ChunkSize, take ?C (drop (?k * ?C) P))"])
      (auto simp: covers_def piece_blocks_def min.commute)
qed

text \<open>Copying all blocks, in any order and into any buffer, gives the piece.\<close>

lemma all_blocks_copied:
  assumes "mset blks = mset (piece_blocks P)" and "length buf = length P"
  shows "fold copy_block blks buf = P"
proof (rule nth_equalityI)
  have same: "set blks = set (piece_blocks P)" using assms(1) by (rule mset_eq_setD)
  show "fold copy_block blks buf ! j = P ! j" if "j < length (fold copy_block blks buf)" for j
    using that assms(2) piece_blocks_cover [of j P] piece_blocks_parts(1) [of _ P] copy_blocks_nth [of blks P buf j]
    by (auto simp: same)
qed (use assms(2) in simp)

end
