(* ===== verification/Dev_Log.thy ===== *)
theory Dev_Log
  imports Go_IO
begin

text \<open>
  \<open>logging/devlog.go\<close>: the log handler that writes one coloured line per record. The attributes are
  formatted by the standard text handler into a buffer; that handler is an argument, given by its
  operations, as is the formatting of the time. The lemmas: the buffer is empty between records,
  what is suppressed, and that handlers derived from one another share buffer and writer.
\<close>

section \<open>Attributes of log/slog\<close>

datatype log_value = NilValue | StringValue string | LevelValue int | OtherValue string

record log_attr =
  la_Key :: string
  la_Value :: log_value

definition attr_zero :: log_attr where
  "attr_zero = \<lparr>la_Key = '''', la_Value = NilValue\<rparr>"

definition signed_dec :: "int \<Rightarrow> string" where
  "signed_dec n = (if n < 0 then itoa n else CHR ''+'' # itoa n)"

definition level_text :: "string \<Rightarrow> int \<Rightarrow> string" where
  "level_text b n = (if n = 0 then b else b @ signed_dec n)"

definition level_String :: "int \<Rightarrow> string" where
  "level_String l = (if l < 0 then level_text ''DEBUG'' (l + 4) else if l < 4 then level_text ''INFO'' l
     else if l < 8 then level_text ''WARN'' (l - 4) else level_text ''ERROR'' (l - 8))"

fun value_String :: "log_value \<Rightarrow> string" where
  "value_String NilValue = ''<nil>''"
| "value_String (StringValue s) = s"
| "value_String (LevelValue l) = level_String l"
| "value_String (OtherValue s) = s"

record log_record =
  lr_Level :: int
  lr_Time :: string
  lr_Message :: string
  lr_Attrs :: "log_attr list"

type_synonym replacer = "string list \<Rightarrow> log_attr \<Rightarrow> log_attr"

section \<open>The handler\<close>

definition lightGray :: int where "lightGray = 37"
definition darkGray :: int where "darkGray = 90"
definition lightRed :: int where "lightRed = 91"
definition lightYellow :: int where "lightYellow = 93"
definition lightBlue :: int where "lightBlue = 94"
definition lightMagenta :: int where "lightMagenta = 95"
definition cyan :: int where "cyan = 36"
definition white :: int where "white = 97"

definition reset :: string where
  "reset = char_of (27 :: nat) # ''[0m''"

definition colorizer :: "int \<Rightarrow> string \<Rightarrow> string" where
  "colorizer colorCode v = char_of (27 :: nat) # ''['' @ itoa colorCode @ ''m'' @ v @ reset"

text \<open>
  The inner handler, a \<open>slog.Handler\<close>, by its operations: whether it takes records of a level, what it
  writes into its buffer for a record and whether it fails, and the handlers derived from it.
\<close>

record 'h slog_ops =
  so_Enabled :: "'h \<Rightarrow> int \<Rightarrow> bool"
  so_Handle :: "'h \<Rightarrow> log_record \<Rightarrow> go_error option \<times> string"
  so_WithAttrs :: "'h \<Rightarrow> log_attr list \<Rightarrow> 'h"
  so_WithGroup :: "'h \<Rightarrow> string \<Rightarrow> 'h"

text \<open>
  Derived handlers share the buffer and the writer (both are pointers), so these two are a state of
  their own; the mutex makes every use of the buffer one step.
\<close>

record 'h handler =
  hd_h :: 'h
  hd_r :: "replacer option"
  hd_colorize :: bool

record log_store =
  ls_b :: string
  ls_writer :: "wstream list option"

text \<open>
  The writer is an \<open>io.MultiWriter\<close>, the list of its writers (a plain writer is a list of one): a
  write goes to each in turn and stops at the first that fails. It is nil until an option sets it.
\<close>

fun multi_write :: "byte list \<Rightarrow> wstream list \<Rightarrow> go_error option \<times> wstream list" where
  "multi_write bs [] = (None, [])"
| "multi_write bs (w # ws) = (case w_write bs w of
     (Some e, w1) \<Rightarrow> (Some e, w1 # ws)
   | (None, w1) \<Rightarrow> (case multi_write bs ws of (err, ws1) \<Rightarrow> (err, w1 # ws1)))"

definition io_WriteString :: "string \<Rightarrow> wstream list option \<Rightarrow> go_error option \<times> wstream list option" where
  "io_WriteString s w = (case w of
     None \<Rightarrow> (Some (Panic NilDereference), None)
   | Some ws \<Rightarrow> (case multi_write (map of_char s) ws of (err, ws1) \<Rightarrow> (err, Some ws1)))"

definition written :: "byte list \<Rightarrow> wstream \<Rightarrow> wstream" where
  "written bs w = w\<lparr>w_out := w_out w @ bs\<rparr>"

lemma written_simps [simp]:
  "w_script (written bs w) = w_script w" "w_out (written bs w) = w_out w @ bs"
  "written bs (written cs w) = written (cs @ bs) w" "written [] w = w"
  by (simp_all add: written_def)

lemma map_written [simp]: "written bs \<circ> written cs = written (cs @ bs)" "map (written []) ws = ws"
  by (simp_all add: fun_eq_iff map_idI)

lemma multi_write_reliable [simp]:
  "\<forall>w \<in> set ws. w_reliable w \<Longrightarrow> multi_write bs ws = (None, map (written bs) ws)"
  by (induction ws) (simp_all add: written_def)

definition Enabled :: "'h slog_ops \<Rightarrow> 'h handler \<Rightarrow> int \<Rightarrow> bool" where
  "Enabled ops h level = so_Enabled ops (hd_h h) level"

definition WithAttrs :: "'h slog_ops \<Rightarrow> 'h handler \<Rightarrow> log_attr list \<Rightarrow> 'h handler" where
  "WithAttrs ops h attrs = \<lparr>hd_h = so_WithAttrs ops (hd_h h) attrs, hd_r = hd_r h, hd_colorize = hd_colorize h\<rparr>"

definition WithGroup :: "'h slog_ops \<Rightarrow> 'h handler \<Rightarrow> string \<Rightarrow> 'h handler" where
  "WithGroup ops h name = \<lparr>hd_h = so_WithGroup ops (hd_h h) name, hd_r = hd_r h, hd_colorize = hd_colorize h\<rparr>"

definition computeAttrs :: "'h slog_ops \<Rightarrow> 'h handler \<Rightarrow> log_record \<Rightarrow> log_store \<Rightarrow> string result \<times> log_store" where
  "computeAttrs ops h r st = (case so_Handle ops (hd_h h) r of (err, text) \<Rightarrow>
     (case err of
        Some e \<Rightarrow> (Inl (rewrap ''error when calling inner handler's Handle'' e), st\<lparr>ls_b := ''''\<rparr>)
      | None \<Rightarrow> (Inr (ls_b st @ text), st\<lparr>ls_b := ''''\<rparr>)))"

definition level_color :: "int \<Rightarrow> int option" where
  "level_color l = (if l \<le> -4 then Some lightGray else if l \<le> 0 then Some cyan else if l < 4 then Some lightBlue
     else if l < 8 then Some lightYellow else if l \<le> 8 + 1 then Some lightRed
     else if l > 8 + 1 then Some lightMagenta else None)"

definition colored :: "'h handler \<Rightarrow> int \<Rightarrow> string \<Rightarrow> string" where
  "colored h code v = (if hd_colorize h then colorizer code v else v)"

definition replaced :: "'h handler \<Rightarrow> log_attr \<Rightarrow> log_attr" where
  "replaced h a = (case hd_r h of None \<Rightarrow> a | Some f \<Rightarrow> f [] a)"

definition log_level :: "'h handler \<Rightarrow> log_record \<Rightarrow> string" where
  "log_level h r = (let a = replaced h \<lparr>la_Key = ''level'', la_Value = LevelValue (lr_Level r)\<rparr> in
     if a = attr_zero then ''''
     else (let level = value_String (la_Value a) @ '':'' in
       case level_color (lr_Level r) of Some c \<Rightarrow> colored h c level | None \<Rightarrow> level))"

definition log_timestamp :: "'h handler \<Rightarrow> log_record \<Rightarrow> string" where
  "log_timestamp h r = (let a = replaced h \<lparr>la_Key = ''time'', la_Value = StringValue (lr_Time r)\<rparr> in
     if a = attr_zero then '''' else colored h lightGray (value_String (la_Value a)))"

definition log_msg :: "'h handler \<Rightarrow> log_record \<Rightarrow> string" where
  "log_msg h r = (let a = replaced h \<lparr>la_Key = ''msg'', la_Value = StringValue (lr_Message r)\<rparr> in
     if a = attr_zero then '''' else colored h white (value_String (la_Value a)))"

definition log_part :: "string \<Rightarrow> string" where
  "log_part s = (if s = '''' then '''' else s @ '' '')"

definition Handle :: "'h slog_ops \<Rightarrow> 'h handler \<Rightarrow> log_record \<Rightarrow> log_store \<Rightarrow> go_error option \<times> log_store" where
  "Handle ops h r st =
     (let level = log_level h r; timestamp = log_timestamp h r; msg = log_msg h r in
      (case computeAttrs ops h r st of
         (Inl e, st1) \<Rightarrow> (Some e, st1)
       | (Inr attrs, st1) \<Rightarrow>
           let out = log_part timestamp @ log_part level @ log_part msg
             @ (if attrs = '''' then '''' else colored h darkGray attrs)
           in (case io_WriteString out (ls_writer st1) of
                (Some e, w) \<Rightarrow> (Some e, st1\<lparr>ls_writer := w\<rparr>)
              | (None, w) \<Rightarrow> (None, st1\<lparr>ls_writer := w\<rparr>))))"

section \<open>Construction\<close>

definition suppressDefaults :: "replacer option \<Rightarrow> replacer" where
  "suppressDefaults nxt groups a =
     (if la_Key a = ''time'' \<or> la_Key a = ''level'' \<or> la_Key a = ''msg'' then attr_zero
      else case nxt of None \<Rightarrow> a | Some f \<Rightarrow> f groups a)"

type_synonym 'h handler_option = "'h handler \<times> log_store \<Rightarrow> 'h handler \<times> log_store"

fun WithDestinationWriter :: "wstream list option \<Rightarrow> 'h handler_option" where
  "WithDestinationWriter writer (h, st) = (h, st\<lparr>ls_writer := writer\<rparr>)"

fun WithColor :: "'h handler_option" where
  "WithColor (h, st) = (h\<lparr>hd_colorize := True\<rparr>, st)"

text \<open>The text handler is given the replacer.\<close>

definition log_New :: "(replacer \<Rightarrow> 'h) \<Rightarrow> replacer option \<Rightarrow> 'h handler_option list \<Rightarrow> 'h handler \<times> log_store" where
  "log_New newTextHandler replaceAttr options =
     fold (\<lambda>opt x. opt x) options
       (\<lparr>hd_h = newTextHandler (suppressDefaults replaceAttr), hd_r = replaceAttr, hd_colorize = False\<rparr>,
        \<lparr>ls_b = '''', ls_writer = None\<rparr>)"

section \<open>Lemmas\<close>

text \<open>Whatever happens to a record, the next one finds the buffer empty.\<close>

lemma computeAttrs_resets: "ls_b (snd (computeAttrs ops h r st)) = ''''"
  by (simp add: computeAttrs_def split: prod.split option.split)

lemma Handle_resets: "ls_b (snd (Handle ops h r st)) = ''''"
  using computeAttrs_resets [of ops h r st]
  by (auto simp: Handle_def Let_def split: prod.split sum.split option.split)

text \<open>Every level has a colour; the last \<open>else if\<close> is always taken when it is reached.\<close>

lemma level_color_total: "level_color l \<noteq> None"
  by (simp add: level_color_def)

lemma suppressDefaults_cases:
  "suppressDefaults None groups a = (if la_Key a \<in> {''time'', ''level'', ''msg''} then attr_zero else a)"
  by (simp add: suppressDefaults_def)

text \<open>One record of the handlers \<open>main.go\<close> builds, with colours: a line when the text handler succeeds.\<close>

definition painted_line :: "log_record \<Rightarrow> string \<Rightarrow> string" where
  "painted_line r attrs = colorizer lightGray (lr_Time r) @ '' '' @
     colorizer (the (level_color (lr_Level r))) (level_String (lr_Level r) @ '':'') @ '' '' @
     colorizer white (lr_Message r) @ '' '' @ (if attrs = '''' then '''' else colorizer darkGray attrs)"

lemma colorizer_not_empty [simp]: "colorizer c v \<noteq> ''''"
  by (simp add: colorizer_def)

lemma Handle_painted:
  assumes "hd_r h = None" and "hd_colorize h" and "ls_b st = ''''" and "ls_writer st = Some ws"
    and "\<forall>w \<in> set ws. w_reliable w"
  shows "Handle ops h r st = (case so_Handle ops (hd_h h) r of
      (Some e, text) \<Rightarrow> (Some (rewrap ''error when calling inner handler's Handle'' e), st)
    | (None, text) \<Rightarrow> (None, st\<lparr>ls_writer := Some (map (written (map of_char (painted_line r text))) ws)\<rparr>))"
proof -
  obtain c where "level_color (lr_Level r) = Some c" using level_color_total [of "lr_Level r"] by blast
  moreover have "st\<lparr>ls_b := ''''\<rparr> = st" using assms(3) by simp
  ultimately show ?thesis
    using assms
    by (auto simp: Handle_def Let_def log_level_def log_timestamp_def log_msg_def replaced_def colored_def
        attr_zero_def log_part_def computeAttrs_def painted_line_def io_WriteString_def split: option.split prod.split)
qed

text \<open>The handlers derived from one: all share its replacer and its colours.\<close>

inductive derived :: "'h slog_ops \<Rightarrow> 'h handler \<Rightarrow> 'h handler \<Rightarrow> bool" for ops h where
  derived_self: "derived ops h h"
| derived_attrs: "derived ops h g \<Longrightarrow> derived ops h (WithAttrs ops g attrs)"
| derived_group: "derived ops h g \<Longrightarrow> derived ops h (WithGroup ops g name)"

lemma derived_same: "derived ops h g \<Longrightarrow> hd_r g = hd_r h \<and> hd_colorize g = hd_colorize h"
  by (induction rule: derived.induct) (simp_all add: WithAttrs_def WithGroup_def)

text \<open>Records that several handlers of a family are given, one after the other.\<close>

definition log_all :: "'h slog_ops \<Rightarrow> ('h handler \<times> log_record) list \<Rightarrow> log_store \<Rightarrow> log_store" where
  "log_all ops hrs st = fold (\<lambda>(h, r) st. snd (Handle ops h r st)) hrs st"

definition log_lines :: "'h slog_ops \<Rightarrow> ('h handler \<times> log_record) list \<Rightarrow> byte list" where
  "log_lines ops hrs = concat (map (\<lambda>(h, r). map of_char (painted_line r (snd (so_Handle ops (hd_h h) r))))
     [(h, r) \<leftarrow> hrs. fst (so_Handle ops (hd_h h) r) = None])"

lemma log_all_painted:
  assumes "\<forall>(h, r) \<in> set hrs. hd_r h = None \<and> hd_colorize h" and "ls_b st = ''''"
    and "ls_writer st = Some ws" and "\<forall>w \<in> set ws. w_reliable w"
  shows "log_all ops hrs st = st\<lparr>ls_writer := Some (map (written (log_lines ops hrs)) ws)\<rparr>"
  using assms
proof (induction hrs arbitrary: st ws)
  case (Cons hr hrs)
  obtain h r where hr: "hr = (h, r)" by (cases hr)
  let ?st = "snd (Handle ops h r st)"
  have all: "log_all ops (hr # hrs) st = log_all ops hrs ?st" by (simp add: log_all_def hr)
  have h: "hd_r h = None" "hd_colorize h" using Cons.prems(1) by (simp_all add: hr)
  note one = Handle_painted [OF h Cons.prems(2-4)]
  obtain ws1 where ws1: "ls_writer ?st = Some ws1" and rel: "\<forall>w \<in> set ws1. w_reliable w"
    and lines: "map (written (log_lines ops hrs)) ws1 = map (written (log_lines ops (hr # hrs))) ws"
    using Cons.prems(3,4) by (cases "so_Handle ops (hd_h h) r"; cases "fst (so_Handle ops (hd_h h) r)")
      (simp_all add: one hr log_lines_def)
  have empty: "ls_b ?st = ''''" using Cons.prems(2) by (auto simp: one split: prod.split option.split)
  have "\<forall>(h, r) \<in> set hrs. hd_r h = None \<and> hd_colorize h" using Cons.prems(1) by simp
  from Cons.IH [OF this empty ws1 rel] lines show ?case
    unfolding all by (auto simp: one split: prod.split option.split)
qed (auto simp: log_all_def log_lines_def comp_def)

end
