(* ===== verification/Program_Entry.thy ===== *)
theory Program_Entry
  imports Dev_Log Swarm_Inv "HOL-Library.Sublist"
begin

text \<open>
  \<open>main.go\<close> and the way from the command line to the main loop: \<open>program_start\<close> (the arguments,
  the log file, the handler), \<open>Main_start\<close> (\<open>client.Main\<close> up to its loop, put together from the parts
  in Main_Client) and \<open>program_end\<close>. The lemmas: which exit codes there are and when, that a program
  which gets as far as the loop has started the client the invariants of Swarm_Inv speak of, and
  that the log file is only appended to.
\<close>

section \<open>main\<close>

definition LogFile :: string where
  "LogFile = ''testdata/log/all.log''"

definition Port :: "16 word" where
  "Port = 6881"

text \<open>
  Either the exit code, or the torrent's name, the handler and what it writes to. \<open>stderr\<close> is the
  writer of \<open>os.Stderr\<close>; a log file whose directory is missing is an entry that cannot be opened.
\<close>

definition program_start ::
    "(replacer \<Rightarrow> 'h) \<Rightarrow> string list \<Rightarrow> nat option list \<Rightarrow> wstream \<Rightarrow> fs
      \<Rightarrow> (int + string \<times> 'h handler \<times> log_store) \<times> fs" where
  "program_start newTextHandler args script stderr fs =
     (if length args \<noteq> 2 then (Inl 1, fs)
      else case os_OpenAppend fs LogFile script of
        (Inl e, fs1) \<Rightarrow> (Inl 1, fs1)
      | (Inr f, fs1) \<Rightarrow>
          let logWriter = Some [f, stderr];
              (prettyHandler, st) = log_New newTextHandler None [WithColor, WithDestinationWriter logWriter]
          in (Inr (args ! 1, prettyHandler, st), fs1))"

text \<open>A record reaches the handler when its level is enabled.\<close>

definition slog_Log :: "'h slog_ops \<Rightarrow> 'h handler \<Rightarrow> log_record \<Rightarrow> log_store \<Rightarrow> log_store" where
  "slog_Log ops h r st = (if Enabled ops h (lr_Level r) then snd (Handle ops h r st) else st)"

definition program_end :: "'h slog_ops \<Rightarrow> 'h handler \<Rightarrow> string \<Rightarrow> log_store \<Rightarrow> int \<times> log_store" where
  "program_end ops h time st = (0, slog_Log ops h
     \<lparr>lr_Level = 0, lr_Time = time, lr_Message = ''teardown complete, exit'',
      lr_Attrs = [\<lparr>la_Key = ''code'', la_Value = OtherValue (itoa 0)\<rparr>]\<rparr> st)"

section \<open>client.Main up to its loop\<close>

text \<open>An error is reported and \<open>os.Exit(1)\<close> called; a panic ends the process with code 2.\<close>

definition exit_code :: "go_error \<Rightarrow> int" where
  "exit_code e = (if is_panic e then 2 else 1)"

text \<open>What the process gets from outside: libraries, clock, network, the permutations of \<open>math/rand\<close>.\<close>

record world =
  wd_unmarshalFile :: "reader \<Rightarrow> bitTorrentFile result"
  wd_marshal :: "bitTorrentInfo \<Rightarrow> byte list result"
  wd_shuffle :: "nat \<Rightarrow> nat \<Rightarrow> nat list"
  wd_parse :: "string \<Rightarrow> url result"
  wd_unmarshal :: "reader \<Rightarrow> bitTorrentPeers result"
  wd_net :: "nat \<Rightarrow> url \<Rightarrow> get_outcome"
  wd_perm :: "nat \<Rightarrow> nat list"
  wd_draws :: "nat \<Rightarrow> nat \<Rightarrow> nat"
  wd_dial :: dialer
  wd_now :: int

definition Main_start ::
    "(byte list \<Rightarrow> hash) \<Rightarrow> world \<Rightarrow> string \<Rightarrow> 16 word \<Rightarrow> fs
      \<Rightarrow> (int + config \<times> addr list \<times> main_state) option" where
  "Main_start sha1 wd filename port fs =
     (case open_torrent (wd_unmarshalFile wd) (wd_marshal wd) sha1 (wd_shuffle wd) fs filename of
        Inl e \<Rightarrow> Some (Inl (exit_code e))
      | Inr torrent \<Rightarrow>
          (case MakePeerId (wd_draws wd) of
             Inl e \<Rightarrow> Some (Inl (exit_code e))
           | Inr peerId \<Rightarrow> (case main_start sha1 (wd_parse wd) (wd_unmarshal wd) (wd_net wd) (wd_perm wd) peerId port torrent fs of
               None \<Rightarrow> None
             | Some (Inl e) \<Rightarrow> Some (Inl (exit_code e))
             | Some (Inr (cf, m)) \<Rightarrow> (case first_launch cf (wd_dial wd) (wd_now wd) m of
                 Inl e \<Rightarrow> Some (Inl (exit_code e))
               | Inr (as, m1) \<Rightarrow> Some (Inr (cf, as, m1))))))"

section \<open>Lemmas\<close>

text \<open>The client the program starts is the one of Swarm_Inv.\<close>

lemma Main_start_started:
  assumes "Main_start sha1 wd filename port fs = Some (Inr (cf, as, m))"
    and "\<forall>n. mset (wd_perm wd n) = mset [0..<n]" and "dial_fresh (wd_dial wd) \<lparr>cs_peers = [], cs_blacklist = (\<lambda>x. None)\<rparr>"
    and "0 \<le> tf_PieceLength (cf_torrent cf)" and "rs_PiecesDone (mn_results m) = int (card (have_set m))"
  shows "started_on sha1 cf fs (swarm_start as m)"
proof -
  obtain t peerId m0 where start: "main_start sha1 (wd_parse wd) (wd_unmarshal wd) (wd_net wd) (wd_perm wd) peerId port t fs
      = Some (Inr (cf, m0))" and launch: "first_launch cf (wd_dial wd) (wd_now wd) m0 = Inr (as, m)"
    using assms(1) by (auto simp: Main_start_def split: sum.splits option.splits prod.splits)
  have "cf_torrent cf = t" using main_start_Inr [OF start] .
  moreover have "mn_conns m0 = \<lparr>cs_peers = [], cs_blacklist = (\<lambda>x. None)\<rparr>"
    using start by (auto simp: main_start_def Let_def split: sum.splits prod.splits option.splits go_error.splits if_splits)
  ultimately show ?thesis
    using start launch assms(2-5) unfolding started_on_def by metis
qed

text \<open>The process ends before the loop with code 1 after an error and with code 2 after a panic.\<close>

lemma Main_start_panics:
  assumes "Main_start sha1 wd filename port fs = Some (Inl code)"
  shows "code = 1 \<or> code = 2"
  using assms by (auto simp: Main_start_def exit_code_def split: sum.splits option.splits prod.splits)

text \<open>Whatever is logged, no writer loses what it was given before: the log file is only appended to.\<close>

lemma w_write_appends: "prefix (w_out w) (w_out (snd (w_write bs w)))"
  by (auto simp: w_write_def split: list.split option.split)

lemma multi_write_appends: "list_all2 (\<lambda>w w'. prefix (w_out w) (w_out w')) ws (snd (multi_write bs ws))"
proof (induction ws)
  case (Cons w ws)
  then show ?case
    using w_write_appends [of w bs]
    by (auto split: prod.split option.split intro: list.rel_refl)
qed simp

lemma Handle_appends:
  "rel_option (list_all2 (\<lambda>w w'. prefix (w_out w) (w_out w'))) (ls_writer st) (ls_writer (snd (Handle ops h r st)))"
proof -
  obtain a st1 where c: "computeAttrs ops h r st = (a, st1)" by force
  then have st1: "ls_writer st1 = ls_writer st" by (auto simp: computeAttrs_def split: prod.splits option.splits)
  have refl: "list_all2 (\<lambda>w w'. prefix (w_out w) (w_out w')) ws ws" for ws by (simp add: list.rel_refl)
  show ?thesis
  proof (cases "ls_writer st")
    case None
    then show ?thesis using st1 by (auto simp: Handle_def Let_def c io_WriteString_def split: sum.split prod.split option.split)
  next
    case (Some ws)
    have "list_all2 (\<lambda>w w'. prefix (w_out w) (w_out w')) ws ws1" if "multi_write bs ws = (e, ws1)" for bs e ws1
      using multi_write_appends [of ws bs] that by simp
    with refl Some st1 show ?thesis
      by (auto simp: Handle_def Let_def c io_WriteString_def split: sum.split prod.split option.split)
  qed
qed

text \<open>What \<open>main\<close> sets up: colours, no replacer, and two writers, the log file first.\<close>

definition logged :: "fs \<Rightarrow> byte list" where
  "logged fs = (case fs LogFile of Some (File bs) \<Rightarrow> bs | _ \<Rightarrow> [])"

lemma program_start_Inr:
  assumes "program_start newTextHandler args script stderr fs = (Inr (filename, h, st), fs1)"
  shows "length args = 2 \<and> filename = args ! 1 \<and> hd_r h = None \<and> hd_colorize h
    \<and> hd_h h = newTextHandler (suppressDefaults None)
    \<and> st = \<lparr>ls_b = '''', ls_writer = Some [\<lparr>w_out = logged fs, w_script = script\<rparr>, stderr]\<rparr>
    \<and> fs1 = fs(LogFile \<mapsto> File (logged fs))"
  using assms
  by (auto simp: program_start_def log_New_def os_OpenAppend_def logged_def fun_eq_iff
      split: if_splits prod.splits sum.splits option.splits fs_entry.splits)

end
