(* ===== verification/Tool_Properties.thy ===== *)
theory Tool_Properties
  imports Verify_Parts Tool_Download Program_Entry
begin

text \<open>
  The properties of the parts around the client: the command \<open>verify_parts\<close> tells of the part files
  what the client makes of them, the command \<open>peerconnect\<close> downloads a piece from a peer that sends
  its blocks, and the log handler writes each record once.
\<close>

section \<open>Properties\<close>

text \<open>C37: \<open>verify_parts\<close> is equivalent to the client's own loading of the part files. When the client
  loads them, the command writes one line per piece, 1 exactly for the pieces the client then has;
  when the client fails, the command stops with the same error and writes nothing.\<close>

theorem verify_parts_agrees_with_client:
  assumes "open_torrent unmarshal marshal sha1 perm fs filename = Inr t" and "results_start t = Inr res0"
    and "fs ''bitfield.txt'' \<noteq> Some Denied"
  shows "verify_parts unmarshal marshal sha1 perm [prog, filename] [] fs =
    (case loadPiecesFromPartialFiles sha1 t fs res0 of
       (Some e, res) \<Rightarrow> (Inl e, fs)
     | (None, res) \<Rightarrow> (Inr (), fs(''bitfield.txt'' \<mapsto>
         File (concat (map (\<lambda>p. if p \<noteq> None then [49, 10] else [48, 10]) (rs_Pieces res))))))"
proof -
  obtain err res where load: "loadPiecesFromPartialFiles sha1 t fs res0 = (err, res)" by force
  show ?thesis
  proof (cases err)
    case (Some e)
    with load vp_load_agrees [OF assms(2), of sha1 fs] assms(1) show ?thesis
      by (simp add: verify_parts_def vp_result_def)
  next
    case None
    have "results_ok sha1 t (res0\<lparr>rs_PiecesDone := 0\<rparr>)"
      using results_start_ok(1) [OF assms(2)] by (simp add: results_ok_def)
    from load_parts_ok [OF load [unfolded loadPiecesFromPartialFiles_def None] this]
    have ok: "results_ok sha1 t res" by simp
    then have wf: "bf_wf (rs_Bitfield res)" "\<forall>i \<in> set [0..<length (tf_PieceHashes t)]. int i < bf_Length (rs_Bitfield res)"
      by (simp_all add: results_ok_def)
    have "map (\<lambda>i. if int i \<in> bf_members (rs_Bitfield res) then [49, 10] else [48, 10 :: byte]) [0..<length (tf_PieceHashes t)]
        = map (\<lambda>p. if p \<noteq> None then [49, 10] else [48, 10]) (rs_Pieces res)"
      using ok by (intro nth_equalityI) (simp_all add: results_ok_def)
    then have lines: "vp_lines (rs_Bitfield res) [0..<length (tf_PieceHashes t)] \<lparr>w_out = [], w_script = []\<rparr>
        = (Inr (), \<lparr>w_out = concat (map (\<lambda>p. if p \<noteq> None then [49, 10] else [48, 10]) (rs_Pieces res)), w_script = []\<rparr>)"
      using vp_lines_spec [OF wf(1) _ wf(2), of "\<lparr>w_out = [], w_script = []\<rparr>"] by simp
    have "os_Create fs ''bitfield.txt'' [] = (Inr \<lparr>w_out = [], w_script = []\<rparr>, fs(''bitfield.txt'' \<mapsto> File []))"
      using assms(3) by (auto simp: os_Create_def split: option.split fs_entry.split)
    with lines load None vp_load_agrees [OF assms(2), of sha1 fs] assms(1) show ?thesis
      by (simp add: verify_parts_def vp_result_def vp_of_def)
  qed
qed

definition tool_info :: bitTorrentFile where
  "tool_info = \<lparr>bt_Announce = ''http://t0'', bt_Comment = '''', bt_CreatedBy = '''', bt_CreationDate = 0,
     bt_Info = \<lparr>bi_Name = ''a-file-name-of-24-chars.x'', bi_Length = 4, bi_PieceLength = 2,
       bi_Pieces = [1, 2] @ replicate 18 0 @ [3, 4] @ replicate 18 0\<rparr>, bt_AnnounceList = []\<rparr>"

definition tool_sha1 :: "byte list \<Rightarrow> hash" where
  "tool_sha1 bs = take 20 (bs @ replicate 20 0)"

definition tool_disk :: fs where
  "tool_disk = [''x.torrent'' \<mapsto> File [], ''a-file-name-of-24-ch.0.part'' \<mapsto> File (be_put32 1 @ be_put32 2 @ [3, 4])]"

definition tool_torrent :: torrent_file where
  "tool_torrent = \<lparr>tf_Announce = ''http://t0'', tf_Name = ''a-file-name-of-24-chars.x'', tf_Comment = '''',
     tf_CreatedBy = '''', tf_CreationDate = 0, tf_Length = 4, tf_PieceLength = 2,
     tf_PieceHashes = [tool_sha1 [1, 2], tool_sha1 [3, 4]], tf_InfoHash = tool_sha1 [9], tf_AnnounceList = []\<rparr>"

theorem verify_parts_agrees_with_client_witness:
  "verify_parts (\<lambda>r. Inr tool_info) (\<lambda>i. Inr [9]) tool_sha1 (\<lambda>c n. [0..<n]) [''verify_parts'', ''x.torrent''] [] tool_disk
    = (Inr (), tool_disk(''bitfield.txt'' \<mapsto> File [48, 10, 49, 10]))"
proof -
  have t: "open_torrent (\<lambda>r. Inr tool_info) (\<lambda>i. Inr [9]) tool_sha1 (\<lambda>c n. [0..<n]) tool_disk ''x.torrent'' = Inr tool_torrent"
    and start: "results_start tool_torrent = Inr \<lparr>rs_Pieces = [None, None], rs_PiecesDone = 0, rs_TotalLength = 0,
      rs_Bitfield = \<lparr>bf_Length = 2, bf_data = [0]\<rparr>\<rparr>"
    and load: "loadPiecesFromPartialFiles tool_sha1 tool_torrent tool_disk \<lparr>rs_Pieces = [None, None], rs_PiecesDone = 0,
        rs_TotalLength = 0, rs_Bitfield = \<lparr>bf_Length = 2, bf_data = [0]\<rparr>\<rparr>
      = (None, \<lparr>rs_Pieces = [None, Some \<lparr>pc_Index = 1, pc_Length = 2, pc_Data = [3, 4], pc_From = ''''\<rparr>],
          rs_PiecesDone = 1, rs_TotalLength = 2, rs_Bitfield = \<lparr>bf_Length = 2, bf_data = [64]\<rparr>\<rparr>)"
    by code_simp+
  have "tool_disk ''bitfield.txt'' \<noteq> Some Denied" by (simp add: tool_disk_def)
  from verify_parts_agrees_with_client [OF t start this, of "''verify_parts''"] load show ?thesis by simp
qed

section \<open>The peerconnect command\<close>

text \<open>C38: The command \<open>peerconnect\<close> downloads a piece from any peer that sends its blocks, in any order
  and with other messages between them: it asks for every block once, in ascending order, ends with
  the last block, and announces the piece exactly when the data hashes to the torrent's hash. The
  piece index in the answers plays no part: the blocks of another piece are taken for this one's.\<close>

theorem peerconnect_downloads_piece:
  assumes "0 < tf_PieceLength t" and "int (length P) = tf_PieceLength t" and "0 \<le> i" and "i < num_hashes t"
    and "\<forall>m \<in> set ms. message_ok m \<and> (pm_Code m = MsgPiece \<longrightarrow> block_of m \<noteq> None)"
    and "ms \<noteq> []" and "pm_Code (last ms) = MsgPiece"
    and "mset (List.map_filter block_of ms) = mset (piece_blocks P)"
    and "rd_data (c_rd c) = concat (map message_frame ms) @ rest" and "w_reliable (c_wr c)"
  shows "\<exists>c'. requestPiece sha1 t i c = (Inr (), c') \<and> rd_data (c_rd c') = rest
    \<and> w_out (c_wr c') = w_out (c_wr c) @ requests_from i (tf_PieceLength t) 0
      @ (if sha1 P = tf_PieceHashes t ! nat i
         then message_frame \<lparr>pm_KeepAlive = False, pm_Code = MsgHave, pm_Data = be_put32 (uint32_of i)\<rparr> else [])"
proof -
  let ?len = "tf_PieceLength t" and ?buf = "replicate (nat (tf_PieceLength t)) 0 :: byte list"
    and ?have = "\<lparr>pm_KeepAlive = False, pm_Code = MsgHave, pm_Data = be_put32 (uint32_of i)\<rparr>"
  have len: "int (length ?buf) = ?len" "length ?buf = length P" using assms(1,2) by simp_all
  have size: "length (List.map_filter block_of ms) = blocks_of ?len"
    using arg_cong [OF assms(8), of size] assms(2) by (simp add: piece_blocks_def)
  have blk: "b \<le> ?len" if "block_of m = Some (b, d)" "m \<in> set ms" for m b d
  proof -
    have "(b, d) \<in> set (List.map_filter block_of ms)" using that by (force simp: map_filter_def)
    then have "(b, d) \<in> set (piece_blocks P)" by (simp only: mset_eq_setD [OF assms(8)])
    from piece_blocks_parts(2) [OF this] show ?thesis using assms(2) by simp
  qed
  have "filter (\<lambda>m. pm_Code m = MsgPiece) ms = filter (\<lambda>m. block_of m \<noteq> None) ms"
    using assms(5) by (intro filter_cong) (auto simp: block_of_def DeserializePieceMsg_def)
  then have count: "int (length (filter (\<lambda>m. pm_Code m = MsgPiece) ms)) = 0 + int (blocks_of (?len - 0))"
    using size by (simp add: map_filter_def comp_def)
  have "\<forall>m \<in> set ms. answer_ok (int (length ?buf)) m"
    using assms(5) blk len(1) by (auto simp: answer_ok_def split: option.split)
  from piece_loop_answers [OF assms(6,7) this assms(9,10) _ _ _ _ count, of i] assms(1) len obtain r' where
    "piece_loop i ?len ?buf 0 0 (c_rd c) (c_wr c) = (Inr (fold copy_block (List.map_filter block_of ms) ?buf), r',
      (c_wr c)\<lparr>w_out := w_out (c_wr c) @ requests_from i ?len 0\<rparr>)" "rd_data r' = rest"
    by auto
  moreover have "SerializeMessage ?have = Inr (message_frame ?have)"
    by (rule SerializeMessage_frame) (simp_all add: message_ok_def)
  ultimately show ?thesis
    using assms(1,3,4,10) all_blocks_copied [OF assms(8) len(2)]
    by (simp add: requestPiece_def Let_def go_index_def)
qed

theorem peerconnect_downloads_piece_witness:
  "\<exists>c'. requestPiece tool_sha1 tool_torrent 1
      \<lparr>c_rd = \<lparr>rd_data = message_frame \<lparr>pm_KeepAlive = True, pm_Code = 0, pm_Data = []\<rparr>
          @ message_frame \<lparr>pm_KeepAlive = False, pm_Code = MsgPiece, pm_Data = be_put32 9 @ be_put32 0 @ [3, 4]\<rparr> @ [7],
        rd_end = EOF, rd_chunks = []\<rparr>, c_wr = \<lparr>w_out = [], w_script = []\<rparr>, c_addr = TCPAddr 0 ''1.2.3.4'' 6881\<rparr>
        = (Inr (), c')
    \<and> rd_data (c_rd c') = [7]
    \<and> w_out (c_wr c') = requests_from 1 2 0
      @ message_frame \<lparr>pm_KeepAlive = False, pm_Code = MsgHave, pm_Data = be_put32 1\<rparr>"
proof -
  let ?ms = "[\<lparr>pm_KeepAlive = True, pm_Code = 0, pm_Data = []\<rparr>,
    \<lparr>pm_KeepAlive = False, pm_Code = MsgPiece, pm_Data = be_put32 9 @ be_put32 0 @ [3, 4]\<rparr>]"
  have "map block_of ?ms = [None, Some (0, [3, 4])]" and "piece_blocks [3, 4] = [(0, [3, 4])]" by code_simp+
  then have "mset (List.map_filter block_of ?ms) = mset (piece_blocks [3, 4])"
    and "\<forall>m \<in> set ?ms. message_ok m \<and> (pm_Code m = MsgPiece \<longrightarrow> block_of m \<noteq> None)"
    by (simp_all add: map_filter_simps message_ok_def)
  moreover have "tool_sha1 [3, 4] = tf_PieceHashes tool_torrent ! nat 1" "uint32_of 1 = 1"
    by (simp_all add: tool_torrent_def uint32_of_def)
  ultimately show ?thesis
    using peerconnect_downloads_piece [of tool_torrent "[3, 4]" 1 ?ms "\<lparr>
      c_rd = \<lparr>rd_data = concat (map message_frame ?ms) @ [7], rd_end = EOF, rd_chunks = []\<rparr>,
      c_wr = \<lparr>w_out = [], w_script = []\<rparr>, c_addr = TCPAddr 0 ''1.2.3.4'' 6881\<rparr>" "[7]" tool_sha1]
    by (simp add: tool_torrent_def)
qed

section \<open>The log handler\<close>

text \<open>C39: The log of a run. \<open>main\<close> gets as far as the client only with one argument; it then logs to the
  log file and to \<open>stderr\<close>. Its handler and all handlers derived from it with attributes or groups, as
  the sessions use them, turn any sequence of records into one line each, in order and in both
  places, behind what the log file held before: time, level, message, attributes, each in its
  colour. A record whose text handler fails leaves no trace: nothing of it appears, in its own
  line or in the line of another handler.\<close>

theorem log_lines_in_order:
  assumes "program_start newText args [] stderr fs = (Inr (filename, h, st), fs1)" and "w_reliable stderr"
    and "\<forall>(g, r) \<in> set hrs. derived ops h g"
  shows "length args = 2 \<and> filename = args ! 1
    \<and> (\<exists>f err. ls_writer (log_all ops hrs st) = Some [f, err]
        \<and> w_out f = logged fs @ log_lines ops hrs \<and> w_out err = w_out stderr @ log_lines ops hrs)
    \<and> ls_b (log_all ops hrs st) = ''''"
proof -
  note start = program_start_Inr [OF assms(1)]
  then have "\<forall>(g, r) \<in> set hrs. hd_r g = None \<and> hd_colorize g"
    using assms(3) derived_same by fastforce
  from log_all_painted [OF this, of st _ ops] assms(2) start show ?thesis by simp
qed

text \<open>A text handler that prints the attributes it was given, and fails on warnings.\<close>

definition text_ops :: "string slog_ops" where
  "text_ops = \<lparr>so_Enabled = (\<lambda>h l. True), so_Handle = (\<lambda>h r. (if lr_Level r = 4 then Some IOError else None, h)),
     so_WithAttrs = (\<lambda>h as. h @ concat (map la_Key as)), so_WithGroup = (\<lambda>h g. h @ g)\<rparr>"

abbreviation log_start :: "string handler \<times> log_store" where
  "log_start \<equiv> log_New (\<lambda>f. ''a=1 '') None [WithColor,
     WithDestinationWriter (Some [\<lparr>w_out = [9], w_script = []\<rparr>, \<lparr>w_out = [], w_script = []\<rparr>])]"

theorem log_lines_in_order_witness:
  "let h = fst log_start; st = snd log_start;
       g = WithAttrs text_ops h [\<lparr>la_Key = ''peer-id'', la_Value = StringValue ''x''\<rparr>];
       warn = \<lparr>lr_Level = 4, lr_Time = ''t'', lr_Message = ''m'', lr_Attrs = []\<rparr>;
       info = \<lparr>lr_Level = 0, lr_Time = ''t'', lr_Message = ''n'', lr_Attrs = []\<rparr>;
       lines = map of_char (painted_line info ''a=1 peer-id'') @ map of_char (painted_line info ''a=1 '')
   in \<exists>f err. ls_writer (log_all text_ops [(h, warn), (g, info), (h, info)] st) = Some [f, err]
     \<and> w_out f = 9 # lines \<and> w_out err = lines"
proof -
  let ?g = "WithAttrs text_ops (fst log_start) [\<lparr>la_Key = ''peer-id'', la_Value = StringValue ''x''\<rparr>]"
  have "program_start (\<lambda>f. ''a=1 '') [''bitflood'', ''x.torrent''] [] \<lparr>w_out = [], w_script = []\<rparr> [LogFile \<mapsto> File [9]]
      = (Inr (''x.torrent'', log_start), [LogFile \<mapsto> File [9]])"
    by (simp add: program_start_def os_OpenAppend_def split: prod.split)
  moreover have "derived text_ops (fst log_start) ?g" by (intro derived.intros)
  moreover have "hd_h (fst log_start) = ''a=1 ''" "hd_h ?g = ''a=1 peer-id''"
    by (simp_all add: log_New_def WithAttrs_def text_ops_def)
  ultimately show ?thesis
    using log_lines_in_order [of "\<lambda>f. ''a=1 ''" "[''bitflood'', ''x.torrent'']" "\<lparr>w_out = [], w_script = []\<rparr>"
      "[LogFile \<mapsto> File [9]]" "''x.torrent''" "fst log_start" "snd log_start" "[LogFile \<mapsto> File [9]]"
      "[(fst log_start, \<lparr>lr_Level = 4, lr_Time = ''t'', lr_Message = ''m'', lr_Attrs = []\<rparr>),
        (?g, \<lparr>lr_Level = 0, lr_Time = ''t'', lr_Message = ''n'', lr_Attrs = []\<rparr>),
        (fst log_start, \<lparr>lr_Level = 0, lr_Time = ''t'', lr_Message = ''n'', lr_Attrs = []\<rparr>)]" text_ops]
    by (simp add: Let_def derived_self text_ops_def logged_def log_lines_def)
qed

section \<open>The program\<close>

text \<open>C40: Short names. A torrent whose name has fewer than twenty bytes is never downloaded or shared: the
  program ends before its main loop, by a panic (exit code 2) when the file is not there yet, and
  with an error or a panic when it is.\<close>

theorem short_name_never_runs:
  assumes "open_torrent (wd_unmarshalFile wd) (wd_marshal wd) sha1 (wd_shuffle wd) fs filename = Inr t"
    and "length (tf_Name t) < 20"
  shows "\<exists>code \<in> {1, 2}. Main_start sha1 wd filename port fs = Some (Inl code)
    \<and> (fs (tf_Name t) = None \<longrightarrow> code = 2)"
proof -
  obtain peerId where peerId: "MakePeerId (wd_draws wd) = Inr peerId"
    by (simp add: MakePeerId_def MakeRandomString_def ClientId_def)
  let ?start = "main_start sha1 (wd_parse wd) (wd_unmarshal wd) (wd_net wd) (wd_perm wd) peerId port t fs"
  obtain res0 where res0: "results_start t = Inr res0"
    by (simp add: results_start_def bf_New_def)
  obtain r res where load: "loadFromFile sha1 t fs res0 = (r, res)" by force
  have "\<exists>e. ?start = Some (Inl e) \<and> (fs (tf_Name t) = None \<longrightarrow> is_panic e)"
  proof (cases r)
    case (Inl e)
    then show ?thesis
      using load res0 short_name_panics(1) [OF assms(2), of fs sha1 res0] by (auto simp: main_start_def rewrap_def)
  next
    case (Inr full)
    note there = loadFromFile_ok(3,4) [OF load [unfolded Inr] results_start_ok(1) [OF res0]]
    have full using there(2) short_name_panics(1) [OF assms(2), of fs sha1 res0] load Inr by (cases full) auto
    moreover obtain fs1 where "deletePartialFiles t fs = (Some (Panic SliceBounds), fs1)"
      using short_name_panics(3) [OF assms(2), of fs] by (metis prod.collapse)
    ultimately show ?thesis using load res0 Inr there(1) by (auto simp: main_start_def)
  qed
  then show ?thesis using peerId assms(1) by (auto simp: Main_start_def exit_code_def)
qed

definition short_world :: world where
  "short_world = \<lparr>wd_unmarshalFile = (\<lambda>r. Inr \<lparr>bt_Announce = ''http://t0'', bt_Comment = '''', bt_CreatedBy = '''',
      bt_CreationDate = 0, bt_Info = \<lparr>bi_Name = ''test.iso'', bi_Length = 2, bi_PieceLength = 2, bi_Pieces = replicate 20 7\<rparr>,
      bt_AnnounceList = []\<rparr>), wd_marshal = (\<lambda>i. Inr []), wd_shuffle = (\<lambda>k n. [0..<n]), wd_parse = (\<lambda>s. Inl IOError),
    wd_unmarshal = (\<lambda>r. Inl IOError), wd_net = (\<lambda>k u. Delivered \<lparr>rp_response = None, rp_err = Some IOError\<rparr>),
    wd_perm = (\<lambda>n. [0..<n]), wd_draws = (\<lambda>k n. 0), wd_dial = (\<lambda>ip pt. None), wd_now = 0\<rparr>"

lemma short_torrent:
  "\<exists>t. open_torrent (wd_unmarshalFile short_world) (wd_marshal short_world) tool_sha1 (wd_shuffle short_world)
      [''test.torrent'' \<mapsto> File []] ''test.torrent'' = Inr t \<and> tf_Name t = ''test.iso''"
  by (simp add: open_torrent_def os_Stat_def os_Open_def DecodeTorrentFile_def short_world_def
      computeInfoHash_def bind_result_def go_slice_def Let_def)

theorem short_name_never_runs_witness:
  "Main_start tool_sha1 short_world ''test.torrent'' Port [''test.torrent'' \<mapsto> File []] = Some (Inl 2)"
proof -
  obtain t where t: "open_torrent (wd_unmarshalFile short_world) (wd_marshal short_world) tool_sha1 (wd_shuffle short_world)
      [''test.torrent'' \<mapsto> File []] ''test.torrent'' = Inr t" and "tf_Name t = ''test.iso''"
    using short_torrent by blast
  with short_name_never_runs [OF t, of Port] show ?thesis by auto
qed

end
