(* ===== verification/Spec2Isabelle.thy ===== *)
theory Spec2Isabelle
  imports Base_Properties Session_Properties Store_Properties Connection_Properties Choke_Properties
    Tracker_Properties Swarm_Properties Progress_Properties Time_Properties Tool_Properties
begin

text \<open>
  A verification library for bitflood, a BitTorrent client in Go. Paths are relative to \<open>src/\<close>.


  THE PROGRAM

  \<open>main\<close> builds the log handler and calls \<open>client.Main\<close>. That reads a torrent file, loads what an earlier run has left on disk, asks a tracker for
  peers, queues one order per missing piece and enters a loop over a \<open>select\<close>. For each connection,
  opened by itself or accepted by its listening server, a goroutine shakes hands with the peer and
  runs \<open>communicationLoop\<close>: it takes an order, requests the blocks of the piece, verifies the piece
  against its hash and sends it to the main goroutine, and it serves the requests of the peer. The
  main goroutine places the arriving pieces, decides every ten seconds whom to unchoke, keeps the
  pool of connections and the tracker's list up to date, writes the final file when all pieces are
  there, and on the way out the pieces it has not saved yet. The goroutines share the channels of
  \<open>types.Communication\<close> and the results. Two commands stand beside the client: \<open>verify_parts\<close> checks the
  part files of a torrent, \<open>peerconnect\<close> downloads the first pieces from one peer.


  THE THEORIES

  Go itself:
   Go_Prelude        errors and panics as values (\<open>'a result\<close>), slices, indexing, the delete-by-swap
                     idiom, integer conversions.
   Go_IO             big-endian words, \<open>io.Reader\<close> (a stream that hands out its bytes in pieces of any
                     size), \<open>io.Writer\<close> (a script says which writes fail, and after how many bytes),
                     channels. Locales \<open>channel\<close>, \<open>frame_codec\<close> and \<open>frame_stream\<close>: what a receiver
                     relies on when it reads frames from a stream; interpreted by the wire
                     messages and by the frames of the part files.

  Data and the wire:
   Bitfield          \<open>bitfield/bitfield.go\<close>; locale \<open>index_set\<close>, the set of indices it implements.
   Torrent_Types     \<open>types/types.go\<close>: records, \<open>GetNumberOfPieces\<close>, (de)serialized pieces.
   Peer_Protocol     \<open>bittorrent/peer_protocol.go\<close>: handshake, messages, opening a connection.
   Piece_Files       \<open>file/file.go\<close>, \<open>file/partial_file.go\<close>.
   Random_Ids        \<open>random/random.go\<close>, \<open>bittorrent/peer_id.go\<close>; locale \<open>shuffler\<close>.
   Torrent_Decode    \<open>decode/decode.go\<close>.
   Tracker_Client    \<open>bittorrent/tracker.go\<close>.

  A session with one peer (\<open>client/peer.go\<close> and the types of \<open>client/types.go\<close> it uses):
   Peer_Session      \<open>communicationLoop\<close> and all it calls. A round is the code before the \<open>select\<close>
                     (\<open>loop_top\<close>, one definition per phase) and one case of it (\<open>handle_event\<close>).
   Session_Inv       the invariant \<open>progress_inv\<close> of the piece in progress, per operation.
   Session_Events    rounds and runs: invariant, order tokens, panics, serving, the receiving loop.
   Session_Receiver  the loop and the goroutine that reads its connection, in steps finer than a round.
   Session_Honest    how one answer of an honest peer is taken; what a choke does to the pipeline.
   Session_Seeder    a session with an honest seeder downloads everything that is queued (\<open>plan\<close>,
                     \<open>to_go\<close>: what will come, and how many blocks are missing).
   Session_Pair      two sessions at the ends of one connection, each reading the bytes the other writes
                     (\<open>pair_step\<close>); locale \<open>counted_system\<close>, a system in which every run has the same
                     length; its interpretation \<open>pair\<close>.

  The main goroutine (\<open>client/client.go\<close>, the pool in \<open>client/types.go\<close>):
   Local_Store       part files and final file: save, delete, load, on a file system \<open>fs\<close>.
   Connections       the pool and the blacklist, launching, listening, forgetting ended
                     connections; locale \<open>address_pool\<close>.
   Choke             \<open>chokeAlgorithm\<close>; locale \<open>slice_sort\<close>, what it relies on in \<open>sort.Slice\<close>.
   Main_Client       \<open>Main\<close>: the start (\<open>main_start\<close>), one iteration of its loop (\<open>main_iter\<close>), the end.
   Swarm             \<open>seed\<close>, \<open>leech\<close> and the step relation \<open>swarm_step\<close>: rounds of the main goroutine
                     (\<open>main_round\<close>) and of the others (\<open>goroutine_round\<close>); locales \<open>step_system\<close> and
                     \<open>refinement\<close>.
   Swarm_Inv         the invariant of the client, the abstract download, their interpretation \<open>client\<close>.
   Swarm_Pool        the pool against the goroutines, interpretation \<open>pool_of_client\<close>.
   Swarm_Resume      the disk against the pieces a run started with: what an interrupt leaves.
   Swarm_Total       the main loop does not fail: interpretation \<open>tracker_of_client\<close>, no case of the
                     \<open>select\<close> panics, the code behind it returns.
   Swarm_Progress    the whole download: session rounds as steps of the client, the main goroutine
                     takes the results and writes the file; interpretation \<open>healthy_client\<close>.
   Swarm_Time        the timers of \<open>launchTimers\<close>, runs with a clock (\<open>timed_run\<close>), the blacklist in time.

  Around the client:
   Verify_Parts      \<open>cmd/verify_parts/main.go\<close>, with its agreement with Local_Store.
   Peer_Connect      \<open>cmd/peerconnect/main.go\<close>; Tool_Download: what it does with a peer that answers.
   Dev_Log           \<open>logging/devlog.go\<close>.
   Program_Entry     \<open>main.go\<close>, and \<open>client.Main\<close> put together from the command line to its loop.

  The theories \<open>..._Properties\<close> hold the numbered properties and an instance of each.


  HOW THE MODEL CORRESPONDS TO THE CODE

  A Go function is a definition of the same name (a clashing name is prefixed, \<open>bf_New\<close>). A struct is
  a record whose fields keep their names behind a prefix; \<open>[]T\<close> is a list, a map is a partial function,
  a pointer that may be nil an option, \<open>[20]byte\<close> a list of 20 bytes. \<open>int\<close> is the type \<open>int\<close>: the values
  stay far below 64 bits; \<open>byte\<close>, \<open>uint16\<close> and \<open>uint32\<close> are words, and a conversion to them wraps
  (\<open>uint32_of\<close>). A function with an error result returns \<open>'a result\<close>, or an optional error with the state
  at that point. Every run time panic the code can reach (nil, index, slice bounds, \<open>make\<close>, explicit) is
  an error \<open>Panic\<close>, which nothing catches: \<open>rewrap\<close> wraps errors but not panics; \<open>os.Exit\<close> and \<open>log.Fatal\<close>
  end the caller in the same way. Output arguments and shared objects are passed and returned.
  Goroutines interleave by rounds: one step of \<open>swarm_step\<close> is one round of one goroutine. Events
  (what the peer, the clock, the network or the tracker does) are arguments and not constrained, except
  that a channel can be received from only when it holds something (\<open>select_ready\<close>).


  WHAT IS SHOWN

   The client: pieces are never lost, doubled or unverified by the client as a whole, in any
   interleaving (Swarm_Properties: invariant, refinement of an abstract download, the final file
   is the torrent's content, an interrupted download is resumed, every connection of the pool has
   its goroutine). It gets on (Progress_Properties): its main loop never panics, and with an
   honest seeder it can complete the download from any state in which the work is left to that
   session; two sessions of this program at the ends of one connection complete the work of the one that
   downloads, whatever the schedule, in a number of steps that is the same for all schedules. In time (Time_Properties): how far apart the periodic rounds are, and that an
   ended peer is left alone for a minute. A session: the multiset of orders is conserved, reported pieces are
   verified, the pipeline holds at most five grid blocks, exactly which input panics,
   what the loop gets of the stream it reads (Session_Properties). The disk: loading is sound on any disk, a finished
   download is found again (Store_Properties). The pool, the choke algorithm, the tracker search
   and the decoders: Connection_, Choke_ and Tracker_Properties. Formats: read back as written,
   however the stream is cut (Base_Properties). Commands, log and program
   start: Tool_Properties.
   Several properties state exactly where the code fails: a failed final save, a short torrent
   name, a stalled pipeline, a blocked request, the race in \<open>Add\<close>, a search that never ends.


  TERMINATION AND BOUNDS

   No fuel is used. Loops over slices and counters are structural; loops that read a stream end
   because each message consumes at least its length prefix (\<open>DeserializeMessage_consumes\<close>) and a
   stream is finite; \<open>send_requests\<close> by the bytes not asked for. The search for a tracker
   is \<open>tracker_loop\<close>, a \<open>partial_function\<close>: \<open>None\<close> is a search that never ends, and the property
   \<open>tracker_search_returns\<close> says exactly when that is; \<open>seed_loop\<close> and \<open>loopSend\<close> of peerconnect likewise.
   The main loop and the sessions run over sequences of events or steps of any length.


  WHAT IS A PARAMETER

   SHA-1; the bencode library (\<open>Unmarshal\<close>, \<open>Marshal\<close>); \<open>url.Parse\<close>; the outcome of an HTTP request
   (\<open>get_outcome\<close>); dialling and accepting; \<open>sort.Slice\<close> (any function that satisfies \<open>slice_sort\<close>; its
   insertion sort for short slices is given and satisfies it); \<open>math/rand\<close>; the order in which a
   map is iterated; the clock, which only goes forward; the text handler of \<open>log/slog\<close>.


  WHAT IS NOT MODELLED

   Log calls (what the handler does with a record is modelled); closing files, connections
   and listeners; locks, beyond the two critical sections of \<open>Add\<close>, since a round is one step; the
   capacities of the channels for interest, uploads and ended connections (the sends that could block
   on them). \<open>assert/assert.go\<close> serves the unit tests.
\<close>

end
